(* ===== verification/Prelude.thy ===== *)
theory Prelude
  imports Main "HOL-Library.Word" "HOL-Library.Monad_Syntax"
begin

text \<open>
  Shared vocabulary of the development: the machine integer types of the Go sources, byte
  slices and the little-endian codec of \<^verbatim>\<open>encoding/binary\<close>, the sentinel errors of the two
  packages, and generic lemmas on lists and words. A Go \<^verbatim>\<open>int\<close> that is a length or an
  index is a \<^typ>\<open>nat\<close>; a sized unsigned integer is a word of its width, so that addition,
  subtraction and multiplication wrap as they do in Go. A Go pair \<^verbatim>\<open>(value, ok)\<close> is an
  option and a pair \<^verbatim>\<open>(value, err)\<close> is a sum whose left summand is the error.
\<close>

unbundle bit_operations_syntax

section \<open>Types\<close>

type_synonym u8 = "8 word"
type_synonym u16 = "16 word"
type_synonym u32 = "32 word"
type_synonym u64 = "64 word"
type_synonym bytes = "u8 list"

text \<open>
  The sentinel errors. \<open>ErrJoin\<close> is \<^verbatim>\<open>errors.Join\<close> (or wrapping with two \<^verbatim>\<open>%w\<close> verbs) of two
  of them; message texts other than those of a configuration error are dropped.
\<close>

datatype (plugins only: code size) err =
    ErrFrameEncoding | ErrChecksumLengthOverflow
  | ErrInvalidFramePool | ErrFramePoolEmpty | ErrFrameTooLarge | ErrFrameSealed | ErrFrameSource
  | ErrInvalidConfiguration | ConfigError string string
  | ErrInvalidMembership
  | ErrInvalidRingCapacity
  | ErrInvalidEWAH
  | ErrSessionCapacity | ErrSessionEncoding | ErrSessionChecksum
  | ErrStorageExhausted | ErrBlockReservation | ErrInvalidCheckpoint
  | ErrCheckpointBlocksClosed | ErrCheckpointBlockLimit | ErrInvalidBlock | ErrBlockMissing
  | ErrTimeoutInvariant | ErrClockSample
  | ErrInvalidWAL | ErrWALSlotUnsafe | ErrWALRecovery | ErrWALRemoteRepair | ErrWALUncertainSolo
  | ErrInvalidSuperblock | ErrSuperblockFork | ErrSuperblockQuorum
  | ErrSuperblockInitializationIncomplete | ErrIncompatibleConfiguration
  | ErrUnformatted | ErrCorrupt | ErrStorageNotEmpty | ErrHardwareChecksumUnavailable
  | ErrStorage | ErrStorageAlignment | ErrStorageClosed | ErrShortIO
  | ErrIOBackpressure | ErrIOCanceled | ErrIOHandle
  | ErrInvalidReplyStore | ErrClientState | ErrRequestInFlight | ErrClientBodyTooLarge
  | ErrReplacementNotFenced | ErrReplacementObservation | ErrViewOverflow
  | ErrReplicaInvariant | ErrStatusTransition | ErrReleaseUnavailable
  | ErrAuthentication | ErrProtocolInvariant | ErrQuorumUnavailable | ErrUnrecoverableConsensusState
  | ErrReplicaClosed | ErrReplicaBackpressure | ErrClockUnsynchronized
  | ErrStateMachine | ErrCompletionGeneration
  | ErrJoin err err

type_synonym 'a result = "err + 'a"

named_theorems slice_simps \<open>reading back slices of a byte buffer under construction\<close>
named_theorems codec_simps \<open>little-endian encoders and decoders\<close>
named_theorems arith_specs \<open>unsigned specifications of checked and saturating arithmetic\<close>

section \<open>Results\<close>

definition bind_result :: "'a result \<Rightarrow> ('a \<Rightarrow> 'b result) \<Rightarrow> 'b result" where
  "bind_result r f = (case r of Inl e \<Rightarrow> Inl e | Inr x \<Rightarrow> f x)"

lemma bind_result_simps [simp]:
  "bind_result (Inl e) f = Inl e" "bind_result (Inr x) f = f x"
  by (simp_all add: bind_result_def)

lemma bind_result_Inr_conv:
  "bind_result r f = Inr y \<longleftrightarrow> (\<exists>x. r = Inr x \<and> f x = Inr y)"
  by (auto simp: bind_result_def split: sum.splits)

section \<open>Byte slices\<close>

text \<open>\<^verbatim>\<open>buffer[a:b]\<close> of Go.\<close>

definition gslice :: "nat \<Rightarrow> nat \<Rightarrow> 'a list \<Rightarrow> 'a list" where
  "gslice a b xs = take (b - a) (drop a xs)"

text \<open>
  \<^verbatim>\<open>copy(buffer[a:b], source)\<close>: overwrites at most \<open>b - a\<close> elements, and never grows the
  buffer.
\<close>

definition copy_at :: "nat \<Rightarrow> nat \<Rightarrow> 'a list \<Rightarrow> 'a list \<Rightarrow> 'a list" where
  "copy_at a b src dst =
     (let n = min (min b (length dst) - a) (length src)
      in take a dst @ take n src @ drop (a + n) dst)"

lemma length_copy_at [simp]: "length (copy_at a b src dst) = length dst"
  by (auto simp: copy_at_def Let_def)

lemma length_slice [simp]: "length (gslice a b xs) = min (b - a) (length xs - a)"
  by (auto simp: gslice_def)

lemma nth_copy_at:
  assumes "i < length dst"
  shows "copy_at a b src dst ! i =
    (if a \<le> i \<and> i < b \<and> i - a < length src then src ! (i - a) else dst ! i)"
  using assms
  by (auto simp: copy_at_def Let_def nth_append min_def le_add_diff_inverse)

lemma nth_slice: "i < b - a \<Longrightarrow> a + i < length xs \<Longrightarrow> gslice a b xs ! i = xs ! (a + i)"
  by (simp add: gslice_def)

lemma slice_copy_at_same [slice_simps]:
  assumes "length src = b - a" "a \<le> b" "b \<le> length dst"
  shows "gslice a b (copy_at a b src dst) = src"
  using assms by (intro nth_equalityI) (auto simp: nth_slice nth_copy_at)

lemma slice_copy_at_before [slice_simps]:
  assumes "d \<le> a"
  shows "gslice c d (copy_at a b src dst) = gslice c d dst"
  using assms by (intro nth_equalityI) (auto simp: nth_slice nth_copy_at)

lemma slice_copy_at_after [slice_simps]:
  assumes "b \<le> c"
  shows "gslice c d (copy_at a b src dst) = gslice c d dst"
  using assms by (intro nth_equalityI) (auto simp: nth_slice nth_copy_at)

lemma nth_copy_at_before [slice_simps]:
  "i < a \<Longrightarrow> i < length dst \<Longrightarrow> copy_at a b src dst ! i = dst ! i"
  by (simp add: nth_copy_at)

lemma nth_copy_at_after [slice_simps]:
  "b \<le> i \<Longrightarrow> i < length dst \<Longrightarrow> copy_at a b src dst ! i = dst ! i"
  by (simp add: nth_copy_at)

lemma slice_replicate [slice_simps]:
  "gslice a b (replicate n x) = replicate (min (b - a) (n - a)) x"
  by (simp add: gslice_def min.commute)

lemma slice_full [simp]: "length xs \<le> b \<Longrightarrow> gslice 0 b xs = xs"
  by (simp add: gslice_def)

lemma slice_list_update_outside [slice_simps]:
  "i < a \<or> b \<le> i \<Longrightarrow> gslice a b (xs[i := x]) = gslice a b xs"
  by (intro nth_equalityI) (auto simp: nth_slice nth_list_update)

lemma copy_at_list_update:
  assumes "i < a \<or> b \<le> i"
  shows "copy_at a b src (xs[i := x]) = (copy_at a b src xs)[i := x]"
proof (intro nth_equalityI)
  fix j assume "j < length (copy_at a b src (xs[i := x]))"
  then show "copy_at a b src (xs[i := x]) ! j = (copy_at a b src xs)[i := x] ! j"
    using assms by (cases "i = j") (auto simp: nth_copy_at)
qed simp

section \<open>Rebuilding a buffer\<close>

text \<open>
  Two buffers agree on a set of positions. Copying the slices of a source into a cleared
  buffer extends the set on which both agree; when it covers every position, the buffer is
  the source.
\<close>

definition eq_on :: "nat set \<Rightarrow> 'a list \<Rightarrow> 'a list \<Rightarrow> bool" where
  "eq_on A xs ys \<longleftrightarrow> length xs = length ys \<and> (\<forall>i \<in> A. i < length xs \<longrightarrow> xs ! i = ys ! i)"

lemma eq_on_full: "eq_on A xs ys \<Longrightarrow> {..<length xs} \<subseteq> A \<Longrightarrow> xs = ys"
  by (intro nth_equalityI) (auto simp: eq_on_def)

lemma eq_on_mono: "eq_on A xs ys \<Longrightarrow> B \<subseteq> A \<Longrightarrow> eq_on B xs ys"
  by (auto simp: eq_on_def)

lemma eq_on_empty: "length xs = length ys \<Longrightarrow> eq_on {} xs ys"
  by (simp add: eq_on_def)

lemma eq_on_copy:
  assumes "eq_on A src dst" "v = gslice a b src" "b \<le> length src"
  shows "eq_on (A \<union> {a..<b}) src (copy_at a b v dst)"
  using assms by (auto simp: eq_on_def nth_copy_at nth_slice)

lemma eq_on_update:
  assumes "eq_on A src dst" "v = src ! i" "i < length src"
  shows "eq_on (insert i A) src (dst[i := v])"
  using assms by (auto simp: eq_on_def nth_list_update)

lemma eq_on_drop:
  assumes "eq_on A xs ys" "{k..<length xs} \<subseteq> A"
  shows "drop k xs = drop k ys"
  using assms by (intro nth_equalityI) (auto simp: eq_on_def subset_iff)

lemma copy_at_append:
  assumes "length x = w" "length y = k" "a + w + k \<le> length d"
  shows "copy_at (a + w) (a + w + k) y (copy_at a (a + w) x d) = copy_at a (a + w + k) (x @ y) d"
  using assms by (intro nth_equalityI) (auto simp: nth_copy_at nth_append)

lemma copy_at_empty: "copy_at a a [] d = d"
  by (intro nth_equalityI) (auto simp: nth_copy_at)

lemma gslice_gslice: "a \<le> b \<Longrightarrow> s + b \<le> e \<Longrightarrow> gslice a b (gslice s e xs) = gslice (s + a) (s + b) xs"
  by (simp add: gslice_def drop_take min_absorb1 add.commute)

lemma gslice_append: "a \<le> b \<Longrightarrow> b \<le> c \<Longrightarrow> gslice a b xs @ gslice b c xs = gslice a c xs"
  using take_add [of "b - a" "c - b" "drop a xs"] by (simp add: gslice_def)

lemma drop_copy_at_after:
  assumes "k \<le> a" "a \<le> b" "b \<le> length d" "length x = b - a"
  shows "drop k (copy_at a b x d) = copy_at (a - k) (b - k) x (drop k d)"
  using assms by (intro nth_equalityI) (auto simp: nth_copy_at add.commute)

lemma drop_eq_gslice: "length xs \<le> b \<Longrightarrow> drop a xs = gslice a b xs"
  by (simp add: gslice_def)

lemma drop_copy_at: "b \<le> k \<Longrightarrow> drop k (copy_at a b src dst) = drop k dst"
  by (intro nth_equalityI) (auto simp: nth_copy_at)

lemma slice_drop: "gslice a b (drop k xs) = gslice (k + a) (k + b) xs"
  by (simp add: gslice_def add.commute)

lemma drop_eq_slice: "drop a xs = gslice a (length xs) xs"
  by (simp add: gslice_def)

section \<open>All-zero test\<close>

text \<open>
  \<^verbatim>\<open>allZero\<close> (package \<^verbatim>\<open>protocol\<close>), \<^verbatim>\<open>allZeroBytes\<close> and \<^verbatim>\<open>zeroBytes\<close>: the first two
  accumulate with OR, the third returns at the first nonzero byte.
\<close>

definition allZero :: "bytes \<Rightarrow> bool" where
  "allZero input = (foldl (\<lambda>accumulated value. accumulated OR value) 0 input = 0)"

fun zeroBytes :: "bytes \<Rightarrow> bool" where
  "zeroBytes [] = True"
| "zeroBytes (octet # rest) = (if octet \<noteq> 0 then False else zeroBytes rest)"

lemma foldl_or_eq_0:
  fixes acc :: "'a::len word"
  shows "foldl (\<lambda>a v. a OR v) acc xs = 0 \<longleftrightarrow> acc = 0 \<and> (\<forall>x \<in> set xs. x = 0)"
  by (induction xs arbitrary: acc) (auto simp: or_eq_0_iff)

lemma allZero_iff: "allZero xs \<longleftrightarrow> (\<forall>x \<in> set xs. x = 0)"
  by (simp add: allZero_def foldl_or_eq_0)

lemma allZero_conv_replicate: "allZero xs \<longleftrightarrow> xs = replicate (length xs) 0"
  by (metis allZero_iff in_set_replicate replicate_eqI)

lemma allZero_replicate [simp]: "allZero (replicate n 0)"
  by (simp add: allZero_iff)

lemma zeroBytes_eq_allZero: "zeroBytes xs = allZero xs"
  by (induction xs) (auto simp: allZero_iff)

lemma eq_on_allZero:
  assumes "eq_on A src (replicate n 0)" "allZero (gslice a b src)" "length src = n"
  shows "eq_on (A \<union> {a..<b}) src (replicate n 0)"
proof -
  have "src ! i = 0" if "a \<le> i" "i < b" "i < n" for i
  proof -
    have "gslice a b src ! (i - a) = src ! i"
      using that assms(3) by (simp add: nth_slice)
    moreover have "gslice a b src ! (i - a) \<in> set (gslice a b src)"
      using that assms(3) by (intro nth_mem) auto
    ultimately show ?thesis using assms(2) by (simp add: allZero_iff)
  qed
  then show ?thesis using assms by (auto simp: eq_on_def)
qed

section \<open>Little-endian integers\<close>

text \<open>\<^verbatim>\<open>binary.LittleEndian.PutUintN\<close> and \<^verbatim>\<open>binary.LittleEndian.UintN\<close>.\<close>

primrec le_put :: "nat \<Rightarrow> 'a::len word \<Rightarrow> bytes" where
  "le_put 0 w = []"
| "le_put (Suc n) w = ucast w # le_put n (drop_bit 8 w)"

primrec le_get :: "bytes \<Rightarrow> 'a::len word" where
  "le_get [] = 0"
| "le_get (b # bs) = ucast b OR push_bit 8 (le_get bs)"

abbreviation put16 :: "u16 \<Rightarrow> bytes" where "put16 \<equiv> le_put 2"
abbreviation put32 :: "u32 \<Rightarrow> bytes" where "put32 \<equiv> le_put 4"
abbreviation put64 :: "u64 \<Rightarrow> bytes" where "put64 \<equiv> le_put 8"
abbreviation get16 :: "bytes \<Rightarrow> u16" where "get16 \<equiv> le_get"
abbreviation get32 :: "bytes \<Rightarrow> u32" where "get32 \<equiv> le_get"
abbreviation get64 :: "bytes \<Rightarrow> u64" where "get64 \<equiv> le_get"

lemma length_le_put [simp]: "length (le_put n w) = n"
  by (induction n arbitrary: w) auto

lemma le_get_le_put: "le_get (le_put n w) = take_bit (8 * n) (w :: 'a::len word)"
proof (induction n arbitrary: w)
  case 0
  then show ?case by simp
next
  case (Suc n)
  show ?case
    by (rule bit_word_eqI)
       (auto simp: Suc bit_or_iff bit_push_bit_iff bit_take_bit_iff bit_drop_bit_eq bit_ucast_iff
          dest: bit_imp_le_length)
qed

lemma le_get_le_put_id [codec_simps]:
  "LENGTH('a::len) \<le> 8 * n \<Longrightarrow> le_get (le_put n w) = (w :: 'a word)"
  by (simp add: le_get_le_put take_bit_word_eq_self)

lemma le_put_le_get [codec_simps]:
  "length bs = n \<Longrightarrow> 8 * n \<le> LENGTH('a::len) \<Longrightarrow> le_put n (le_get bs :: 'a word) = bs"
proof (induction bs arbitrary: n)
  case Nil
  then show ?case by simp
next
  case (Cons b bs)
  then obtain m where n: "n = Suc m" by (cases n) auto
  let ?r = "le_get bs :: 'a word"
  have low: "ucast (ucast b OR push_bit 8 ?r :: 'a word) = b"
    using Cons.prems n
    by (intro bit_word_eqI)
       (auto simp: bit_ucast_iff bit_or_iff bit_push_bit_iff dest: bit_imp_le_length)
  have fits: "i < LENGTH('a) - 8" if "bit ?r i" for i
  proof -
    have "take_bit (8 * m) ?r = ?r"
      using Cons.IH [of m] Cons.prems n le_get_le_put [of m ?r] by simp
    with that have "i < 8 * m" by (metis bit_take_bit_iff)
    with Cons.prems n show ?thesis by simp
  qed
  have high: "drop_bit 8 (ucast b OR push_bit 8 ?r :: 'a word) = ?r"
    by (intro bit_word_eqI)
       (auto simp: bit_ucast_iff bit_or_iff bit_push_bit_iff bit_drop_bit_eq
          dest: bit_imp_le_length fits)
  have "le_put (Suc m) (ucast b OR push_bit 8 ?r :: 'a word) = b # le_put m ?r"
    by (simp only: le_put.simps low high)
  then show ?case
    using Cons n by simp
qed

lemma le_put_inj: "LENGTH('a::len) \<le> 8 * n \<Longrightarrow> le_put n v = le_put n w \<longleftrightarrow> v = (w :: 'a word)"
  by (metis le_get_le_put_id)

lemma le_get_replicate_0 [codec_simps]: "le_get (replicate n 0) = 0"
  by (induction n) auto

lemma le_put_0 [codec_simps]: "le_put n 0 = replicate n 0"
  by (induction n) auto

section \<open>Words\<close>

lemma unat_less64: "unat (x :: u64) < 2 ^ 64"
  using unsigned_less [of x] by simp

lemma unat_of_nat64: "n < 2 ^ 64 \<Longrightarrow> unat (of_nat n :: u64) = n"
  by (simp add: unsigned_of_nat take_bit_nat_eq_self)

lemma unat_max64 [simp]: "unat (- 1 :: u64) = 2 ^ 64 - 1"
  by (simp add: unsigned_minus_1_eq_mask mask_eq_exp_minus_1)

lemma unat_add_noof:
  "unat a + unat b < 2 ^ LENGTH('a::len) \<Longrightarrow> unat (a + b) = unat a + unat (b :: 'a word)"
  by (simp add: unat_word_ariths)

lemma unat_sub_noof: "b \<le> a \<Longrightarrow> unat (a - b) = unat a - unat (b :: 'a::len word)"
  by (rule unat_sub)

end
