(* ===== verification/Checksum.thy ===== *)
theory Checksum
  imports Prelude
begin

text \<open>
  The AEGIS-128L based checksum of \<^verbatim>\<open>replication/protocol/checksum.go\<close>, with the portable
  round function (the build-tag specific assembly in \<^verbatim>\<open>checksum_amd64.s\<close> and
  \<^verbatim>\<open>checksum_arm64.s\<close> computes the same function and is not modelled). A block is a list of
  16 bytes, the cipher state a list of 8 blocks. The streaming hasher is refined by absorbing
  the pending bytes followed by the new input in blocks of 32 bytes; from that follows that
  the checksum depends on the concatenation of the written chunks only.
\<close>

section \<open>Round function\<close>

definition aesSBox :: bytes where
  "aesSBox = [
     0x63, 0x7c, 0x77, 0x7b, 0xf2, 0x6b, 0x6f, 0xc5, 0x30, 0x01, 0x67, 0x2b, 0xfe, 0xd7, 0xab, 0x76,
     0xca, 0x82, 0xc9, 0x7d, 0xfa, 0x59, 0x47, 0xf0, 0xad, 0xd4, 0xa2, 0xaf, 0x9c, 0xa4, 0x72, 0xc0,
     0xb7, 0xfd, 0x93, 0x26, 0x36, 0x3f, 0xf7, 0xcc, 0x34, 0xa5, 0xe5, 0xf1, 0x71, 0xd8, 0x31, 0x15,
     0x04, 0xc7, 0x23, 0xc3, 0x18, 0x96, 0x05, 0x9a, 0x07, 0x12, 0x80, 0xe2, 0xeb, 0x27, 0xb2, 0x75,
     0x09, 0x83, 0x2c, 0x1a, 0x1b, 0x6e, 0x5a, 0xa0, 0x52, 0x3b, 0xd6, 0xb3, 0x29, 0xe3, 0x2f, 0x84,
     0x53, 0xd1, 0x00, 0xed, 0x20, 0xfc, 0xb1, 0x5b, 0x6a, 0xcb, 0xbe, 0x39, 0x4a, 0x4c, 0x58, 0xcf,
     0xd0, 0xef, 0xaa, 0xfb, 0x43, 0x4d, 0x33, 0x85, 0x45, 0xf9, 0x02, 0x7f, 0x50, 0x3c, 0x9f, 0xa8,
     0x51, 0xa3, 0x40, 0x8f, 0x92, 0x9d, 0x38, 0xf5, 0xbc, 0xb6, 0xda, 0x21, 0x10, 0xff, 0xf3, 0xd2,
     0xcd, 0x0c, 0x13, 0xec, 0x5f, 0x97, 0x44, 0x17, 0xc4, 0xa7, 0x7e, 0x3d, 0x64, 0x5d, 0x19, 0x73,
     0x60, 0x81, 0x4f, 0xdc, 0x22, 0x2a, 0x90, 0x88, 0x46, 0xee, 0xb8, 0x14, 0xde, 0x5e, 0x0b, 0xdb,
     0xe0, 0x32, 0x3a, 0x0a, 0x49, 0x06, 0x24, 0x5c, 0xc2, 0xd3, 0xac, 0x62, 0x91, 0x95, 0xe4, 0x79,
     0xe7, 0xc8, 0x37, 0x6d, 0x8d, 0xd5, 0x4e, 0xa9, 0x6c, 0x56, 0xf4, 0xea, 0x65, 0x7a, 0xae, 0x08,
     0xba, 0x78, 0x25, 0x2e, 0x1c, 0xa6, 0xb4, 0xc6, 0xe8, 0xdd, 0x74, 0x1f, 0x4b, 0xbd, 0x8b, 0x8a,
     0x70, 0x3e, 0xb5, 0x66, 0x48, 0x03, 0xf6, 0x0e, 0x61, 0x35, 0x57, 0xb9, 0x86, 0xc1, 0x1d, 0x9e,
     0xe1, 0xf8, 0x98, 0x11, 0x69, 0xd9, 0x8e, 0x94, 0x9b, 0x1e, 0x87, 0xe9, 0xce, 0x55, 0x28, 0xdf,
     0x8c, 0xa1, 0x89, 0x0d, 0xbf, 0xe6, 0x42, 0x68, 0x41, 0x99, 0x2d, 0x0f, 0xb0, 0x54, 0xbb, 0x16]"

definition aegisConstant0 :: bytes where
  "aegisConstant0 = [0xdb, 0x3d, 0x18, 0x55, 0x6d, 0xc2, 0x2f, 0xf1, 0x20, 0x11, 0x31, 0x42, 0x73, 0xb5, 0x28, 0xdd]"

definition aegisConstant1 :: bytes where
  "aegisConstant1 = [0x00, 0x01, 0x01, 0x02, 0x03, 0x05, 0x08, 0x0d, 0x15, 0x22, 0x37, 0x59, 0x90, 0xe9, 0x79, 0x62]"

definition xtime :: "u8 \<Rightarrow> u8" where
  "xtime val = push_bit 1 val XOR (signed_drop_bit 7 val AND 0x1b)"

definition xorBlock :: "bytes \<Rightarrow> bytes \<Rightarrow> bytes" where
  "xorBlock left right = map2 (XOR) left right"

definition sbox_at :: "bytes \<Rightarrow> nat \<Rightarrow> u8" where
  "sbox_at block i = aesSBox ! unat (block ! i)"

definition mix_column :: "bytes \<Rightarrow> bytes \<Rightarrow> nat \<Rightarrow> bytes" where
  "mix_column shifted roundKey column =
     (let offset = column * 4;
          a0 = shifted ! offset; a1 = shifted ! (offset + 1);
          a2 = shifted ! (offset + 2); a3 = shifted ! (offset + 3);
          xorAll = a0 XOR a1 XOR a2 XOR a3
      in [a0 XOR xorAll XOR xtime (a0 XOR a1) XOR roundKey ! offset,
          a1 XOR xorAll XOR xtime (a1 XOR a2) XOR roundKey ! (offset + 1),
          a2 XOR xorAll XOR xtime (a2 XOR a3) XOR roundKey ! (offset + 2),
          a3 XOR xorAll XOR xtime (a3 XOR a0) XOR roundKey ! (offset + 3)])"

definition aesRoundPortable :: "bytes \<Rightarrow> bytes \<Rightarrow> bytes" where
  "aesRoundPortable block roundKey =
     (let shifted = map (sbox_at block) [0, 5, 10, 15, 4, 9, 14, 3, 8, 13, 2, 7, 12, 1, 6, 11]
      in concat (map (mix_column shifted roundKey) [0, 1, 2, 3]))"

definition aegisUpdatePortable :: "bytes list \<Rightarrow> bytes \<Rightarrow> bytes \<Rightarrow> bytes list" where
  "aegisUpdatePortable old input0 input1 =
     [xorBlock (aesRoundPortable (old ! 7) (old ! 0)) input0,
      aesRoundPortable (old ! 0) (old ! 1),
      aesRoundPortable (old ! 1) (old ! 2),
      aesRoundPortable (old ! 2) (old ! 3),
      xorBlock (aesRoundPortable (old ! 3) (old ! 4)) input1,
      aesRoundPortable (old ! 4) (old ! 5),
      aesRoundPortable (old ! 5) (old ! 6),
      aesRoundPortable (old ! 6) (old ! 7)]"

section \<open>Hasher\<close>

record ChecksumHasher =
  state :: "bytes list"
  buffer :: bytes
  buffered :: u8
  hlength :: u64

definition checksumInputBytesMax :: u64 where
  "checksumInputBytesMax = 0xFFFFFFFFFFFFFFFF div 8"

definition zeroBlock :: bytes where
  "zeroBlock = replicate 16 0"

definition resetState :: "bytes list" where
  "resetState = ((\<lambda>st. aegisUpdatePortable st zeroBlock zeroBlock) ^^ 10)
     [zeroBlock, aegisConstant0, aegisConstant1, aegisConstant0,
      zeroBlock, aegisConstant1, aegisConstant0, aegisConstant1]"

definition NewChecksumHasher :: ChecksumHasher where
  "NewChecksumHasher =
     \<lparr>state = resetState, buffer = replicate 32 0, buffered = 0, hlength = 0\<rparr>"

definition hasher_update :: "ChecksumHasher \<Rightarrow> bytes \<Rightarrow> bytes \<Rightarrow> ChecksumHasher" where
  "hasher_update hasher input0 input1 =
     hasher\<lparr>state := aegisUpdatePortable (state hasher) input0 input1\<rparr>"

text \<open>The loop over whole 32-byte blocks; it returns the rest of the input.\<close>

function absorb :: "bytes list \<Rightarrow> bytes \<Rightarrow> bytes list \<times> bytes" where
  "absorb st input =
     (if length input \<ge> 32
      then absorb (aegisUpdatePortable st (gslice 0 16 input) (gslice 16 32 input)) (drop 32 input)
      else (st, input))"
  by pat_completeness auto
termination
  by (relation "measure (\<lambda>(st, input). length input)") auto

declare absorb.simps [simp del]

definition write_rest :: "ChecksumHasher \<Rightarrow> bytes \<Rightarrow> ChecksumHasher" where
  "write_rest hasher input =
     (let (st, rest) = absorb (state hasher) input;
          hasher' = hasher\<lparr>state := st\<rparr>
      in if length rest \<noteq> 0
         then hasher'\<lparr>buffer := copy_at 0 32 rest (buffer hasher'),
                      buffered := of_nat (min 32 (length rest))\<rparr>
         else hasher')"

definition hasher_Write :: "ChecksumHasher \<Rightarrow> bytes \<Rightarrow> (nat \<times> ChecksumHasher) result" where
  "hasher_Write hasher input =
     (if hlength hasher > checksumInputBytesMax
         \<or> int (length input) > uint (checksumInputBytesMax - hlength hasher)
      then Inl ErrChecksumLengthOverflow
      else let inputLength = length input;
               hasher1 = hasher\<lparr>hlength := hlength hasher + of_nat inputLength\<rparr>
           in if buffered hasher1 \<noteq> 0
              then let needed = 32 - unat (buffered hasher1);
                       copied = min (32 - unat (buffered hasher1)) (length input);
                       hasher2 = hasher1\<lparr>buffer := copy_at (unat (buffered hasher1)) 32 input (buffer hasher1),
                                         buffered := buffered hasher1 + of_nat copied\<rparr>;
                       input' = drop copied input
                   in if copied < needed then Inr (inputLength, hasher2)
                      else Inr (inputLength,
                             write_rest
                               ((hasher_update hasher2 (gslice 0 16 (buffer hasher2))
                                   (gslice 16 32 (buffer hasher2)))\<lparr>buffered := 0\<rparr>) input')
              else Inr (inputLength, write_rest hasher1 input))"

definition hasher_Sum :: "ChecksumHasher \<Rightarrow> bytes" where
  "hasher_Sum hasher =
     (let padded = copy_at (unat (buffered hasher)) 32 (replicate 32 0) (buffer hasher);
          st = (if buffered hasher \<noteq> 0
                then aegisUpdatePortable (state hasher) (gslice 0 16 padded) (gslice 16 32 padded)
                else state hasher);
          lengths = copy_at 0 8 (put64 (hlength hasher * 8)) (replicate 16 0);
          finalInput = map2 (XOR) lengths (st ! 2);
          st' = ((\<lambda>s. aegisUpdatePortable s finalInput finalInput) ^^ 7) st
      in foldl (\<lambda>checksum lane. map2 (XOR) checksum (st' ! lane)) (replicate 16 0) [0..<7])"

text \<open>
  The code panics on an input of more than \<^const>\<open>checksumInputBytesMax\<close> bytes; the model
  then returns the empty list, which is not a checksum.
\<close>

definition ChecksumBytes :: "bytes \<Rightarrow> bytes" where
  "ChecksumBytes input =
     (case hasher_Write NewChecksumHasher input of
        Inl e \<Rightarrow> []
      | Inr (n, hasher) \<Rightarrow> hasher_Sum hasher)"

section \<open>Shape\<close>

definition blocks_ok :: "bytes list \<Rightarrow> bool" where
  "blocks_ok st \<longleftrightarrow> length st = 8 \<and> (\<forall>b \<in> set st. length b = 16)"

lemma length_xorBlock [simp]: "length (xorBlock l r) = min (length l) (length r)"
  by (simp add: xorBlock_def)

lemma length_mix_column [simp]: "length (mix_column s k c) = 4"
  by (simp add: mix_column_def Let_def)

lemma length_aesRoundPortable [simp]: "length (aesRoundPortable b k) = 16"
  by (simp add: aesRoundPortable_def Let_def)

lemma blocks_ok_update [intro]:
  "length i0 = 16 \<Longrightarrow> length i1 = 16 \<Longrightarrow> blocks_ok (aegisUpdatePortable st i0 i1)"
  by (simp add: blocks_ok_def aegisUpdatePortable_def)

lemma length_zeroBlock [simp]: "length zeroBlock = 16"
  by (simp add: zeroBlock_def)

lemma blocks_ok_update_iter:
  "length i = 16 \<Longrightarrow> 0 < n \<Longrightarrow> blocks_ok (((\<lambda>st. aegisUpdatePortable st i i) ^^ n) st)"
  by (cases n) (auto intro: blocks_ok_update)

lemma blocks_ok_reset: "blocks_ok resetState"
  unfolding resetState_def by (rule blocks_ok_update_iter) simp_all

lemma blocks_ok_absorb: "blocks_ok st \<Longrightarrow> blocks_ok (fst (absorb st xs))"
proof (induction st xs rule: absorb.induct)
  case (1 st xs)
  then show ?case
    by (subst absorb.simps) (auto simp: blocks_ok_update)
qed

lemma absorb_rest_less: "length (snd (absorb st xs)) < 32"
  by (induction st xs rule: absorb.induct) (subst absorb.simps, auto)

lemma absorb_small [simp]: "length xs < 32 \<Longrightarrow> absorb st xs = (st, xs)"
  by (subst absorb.simps) simp

lemma absorb_rest_length: "length (snd (absorb st xs)) = length xs mod 32"
proof (induction st xs rule: absorb.induct)
  case (1 st xs)
  then show ?case
    by (cases "32 \<le> length xs") (subst absorb.simps, simp_all add: le_mod_geq)
qed

text \<open>Absorbing in two steps, with the rest of the first put before the second.\<close>

lemma absorb_append:
  "absorb st (xs @ ys) = (case absorb st xs of (st', r) \<Rightarrow> absorb st' (r @ ys))"
proof (induction st xs rule: absorb.induct)
  case (1 st xs)
  show ?case
  proof (cases "32 \<le> length xs")
    case True
    let ?st = "aegisUpdatePortable st (gslice 0 16 xs) (gslice 16 32 xs)"
    have "absorb st (xs @ ys) = absorb ?st (drop 32 xs @ ys)"
      using True by (subst absorb.simps) (simp add: gslice_def)
    moreover have "absorb st xs = absorb ?st (drop 32 xs)"
      using True by (subst absorb.simps) simp
    ultimately show ?thesis
      using 1 True by simp
  qed simp
qed

section \<open>Refinement of the hasher\<close>

text \<open>The bytes written but not yet absorbed.\<close>

definition pending :: "ChecksumHasher \<Rightarrow> bytes" where
  "pending hasher = take (unat (buffered hasher)) (buffer hasher)"

definition hasher_ok :: "ChecksumHasher \<Rightarrow> bool" where
  "hasher_ok hasher \<longleftrightarrow> blocks_ok (state hasher) \<and> length (buffer hasher) = 32
     \<and> unat (buffered hasher) < 32 \<and> hlength hasher \<le> checksumInputBytesMax"

lemma hasher_ok_new: "hasher_ok NewChecksumHasher"
  by (simp add: hasher_ok_def NewChecksumHasher_def blocks_ok_reset)

lemma length_pending: "hasher_ok h \<Longrightarrow> length (pending h) = unat (buffered h)"
  by (simp add: pending_def hasher_ok_def)

text \<open>The reference: absorb the pending bytes and then the input, keep the rest pending.\<close>

definition absorbs_to :: "ChecksumHasher \<Rightarrow> bytes \<Rightarrow> ChecksumHasher \<Rightarrow> bool" where
  "absorbs_to h xs h' \<longleftrightarrow> hasher_ok h' \<and> hlength h' = hlength h + of_nat (length xs)
     \<and> absorb (state h) (pending h @ xs) = (state h', pending h')"

lemma unat_of_nat_small8: "n < 256 \<Longrightarrow> unat (of_nat n :: u8) = n"
  by (simp add: unsigned_of_nat take_bit_nat_eq_self)

lemma copy_at_prefix:
  assumes "b \<le> length dst" "a \<le> b" "length src \<le> b - a"
  shows "take (a + length src) (copy_at a b src dst) = take a dst @ src"
  using assms by (auto simp: copy_at_def Let_def min_def)

lemma write_rest_refines:
  assumes "hasher_ok h" "buffered h = 0"
  shows "hasher_ok (write_rest h xs)" "hlength (write_rest h xs) = hlength h"
    "absorb (state h) xs = (state (write_rest h xs), pending (write_rest h xs))"
proof -
  obtain st r where ab: "absorb (state h) xs = (st, r)" by force
  have r: "length r < 32" using absorb_rest_less [of "state h" xs] ab by simp
  have st: "blocks_ok st"
    using blocks_ok_absorb [of "state h" xs] ab assms by (simp add: hasher_ok_def)
  have buf: "length (buffer h) = 32" using assms by (simp add: hasher_ok_def)
  have pend: "take (length r) (copy_at 0 32 r (buffer h)) = r"
    using copy_at_prefix [of 32 "buffer h" 0 r] r buf by simp
  show "hasher_ok (write_rest h xs)" "hlength (write_rest h xs) = hlength h"
    "absorb (state h) xs = (state (write_rest h xs), pending (write_rest h xs))"
    using r st assms pend ab
    by (auto simp: write_rest_def hasher_ok_def pending_def unat_of_nat_small8 min_def
      Let_def)
qed

lemma write_error:
  "hasher_Write h xs = Inl e \<longleftrightarrow> e = ErrChecksumLengthOverflow
     \<and> (hlength h > checksumInputBytesMax
        \<or> int (length xs) > uint (checksumInputBytesMax - hlength h))"
  by (auto simp: hasher_Write_def Let_def)

lemma fits_length:
  assumes "hasher_ok h" "int (length xs) \<le> uint (checksumInputBytesMax - hlength h)"
  shows "unat (hlength h + of_nat (length xs)) = unat (hlength h) + length xs"
    "hlength h + of_nat (length xs) \<le> checksumInputBytesMax"
proof -
  have le: "hlength h \<le> checksumInputBytesMax" using assms by (simp add: hasher_ok_def)
  have n: "length xs \<le> unat checksumInputBytesMax - unat (hlength h)"
    using assms(2) unat_sub [OF le] unfolding uint_nat of_nat_le_iff by simp
  have small: "unat checksumInputBytesMax < 2 ^ 64" by (rule unat_less64)
  have "unat (of_nat (length xs) :: u64) = length xs"
    using n small by (simp add: unsigned_of_nat take_bit_nat_eq_self)
  then show "unat (hlength h + of_nat (length xs)) = unat (hlength h) + length xs"
    "hlength h + of_nat (length xs) \<le> checksumInputBytesMax"
    using n small le unat_add_noof [of "hlength h" "of_nat (length xs)"]
    by (simp_all add: word_le_nat_alt)
qed

lemma pending_filled:
  assumes "hasher_ok h" "length xs < 32 - unat (buffered h)"
  shows "take (unat (buffered h) + length xs) (copy_at (unat (buffered h)) 32 xs (buffer h))
    = pending h @ xs"
  using assms copy_at_prefix [of 32 "buffer h" "unat (buffered h)" xs]
  by (simp add: hasher_ok_def pending_def)

lemma buffer_filled:
  assumes "hasher_ok h" "32 - unat (buffered h) \<le> length xs"
  shows "copy_at (unat (buffered h)) 32 xs (buffer h) = pending h @ take (32 - unat (buffered h)) xs"
  using assms by (auto simp: hasher_ok_def pending_def copy_at_def Let_def min_def)

lemma absorb_full_block:
  assumes "length ys = 32"
  shows "absorb st (ys @ zs) = absorb (aegisUpdatePortable st (gslice 0 16 ys) (gslice 16 32 ys)) zs"
  using assms by (subst absorb.simps) (simp add: gslice_def)

lemma write_refines:
  assumes ok: "hasher_ok h" and fits: "int (length xs) \<le> uint (checksumInputBytesMax - hlength h)"
  obtains h' where "hasher_Write h xs = Inr (length xs, h')" "absorbs_to h xs h'"
proof -
  define h1 where "h1 = h\<lparr>hlength := hlength h + of_nat (length xs)\<rparr>"
  have ok1: "hasher_ok h1"
    using ok fits_length(2) [OF ok fits] by (simp add: h1_def hasher_ok_def)
  have same: "state h1 = state h" "pending h1 = pending h" "buffered h1 = buffered h"
    "buffer h1 = buffer h"
    by (simp_all add: h1_def pending_def)
  have guard: "\<not> (hlength h > checksumInputBytesMax
      \<or> int (length xs) > uint (checksumInputBytesMax - hlength h))"
    using ok fits by (auto simp: hasher_ok_def)
  consider (empty) "buffered h = 0" | (partial) "buffered h \<noteq> 0" "length xs < 32 - unat (buffered h)"
    | (full) "buffered h \<noteq> 0" "32 - unat (buffered h) \<le> length xs"
    by linarith
  then show thesis
  proof cases
    case empty
    have "absorbs_to h xs (write_rest h1 xs)"
      using write_rest_refines [OF ok1, of xs] empty same
      by (simp add: absorbs_to_def pending_def h1_def)
    moreover have "hasher_Write h xs = Inr (length xs, write_rest h1 xs)"
      using guard empty by (simp add: hasher_Write_def h1_def Let_def)
    ultimately show thesis by (rule that [rotated])
  next
    case partial
    let ?h = "h1\<lparr>buffer := copy_at (unat (buffered h)) 32 xs (buffer h),
                buffered := buffered h + of_nat (length xs)\<rparr>"
    have cnt: "unat (buffered h + of_nat (length xs)) = unat (buffered h) + length xs"
      using partial by (subst unat_add_noof) (simp_all add: unat_of_nat_small8)
    have "hasher_ok ?h" using ok1 partial cnt same by (simp add: hasher_ok_def)
    then have "absorbs_to h xs ?h"
      using pending_filled [OF ok partial(2)] cnt partial length_pending [OF ok]
      by (simp add: absorbs_to_def pending_def h1_def)
    moreover have "hasher_Write h xs = Inr (length xs, ?h)"
      using guard partial by (simp add: hasher_Write_def h1_def Let_def min_def)
    ultimately show thesis by (rule that [rotated])
  next
    case full
    let ?n = "32 - unat (buffered h)"
    let ?b = "pending h @ take ?n xs"
    let ?h = "(hasher_update (h1\<lparr>buffer := ?b\<rparr>) (gslice 0 16 ?b) (gslice 16 32 ?b))\<lparr>buffered := 0\<rparr>"
    have len: "length ?b = 32"
      using full ok length_pending [OF ok] by (simp add: hasher_ok_def min_def)
    have okh: "hasher_ok ?h"
      using ok1 len by (simp add: hasher_ok_def hasher_update_def blocks_ok_update)
    have "absorb (state h) (pending h @ xs) = absorb (state ?h) (drop ?n xs)"
      using absorb_full_block [OF len, of "state h" "drop ?n xs"] same
      by (simp add: hasher_update_def)
    then have "absorbs_to h xs (write_rest ?h (drop ?n xs))"
      using write_rest_refines [OF okh, of "drop ?n xs"]
      by (simp add: absorbs_to_def) (simp add: hasher_update_def h1_def)
    moreover have "hasher_Write h xs = Inr (length xs, write_rest ?h (drop ?n xs))"
      using guard full buffer_filled [OF ok full(2)]
      by (simp add: hasher_Write_def h1_def Let_def min_def hasher_update_def)
    ultimately show thesis by (rule that [rotated])
  qed
qed

section \<open>Properties\<close>

lemma write_ok_absorbs:
  assumes "hasher_ok h" "hasher_Write h xs = Inr (n, h')"
  shows "n = length xs" "absorbs_to h xs h'" "unat (hlength h') = unat (hlength h) + length xs"
proof -
  have fits: "int (length xs) \<le> uint (checksumInputBytesMax - hlength h)"
    using assms write_error [of h xs ErrChecksumLengthOverflow] by (metis Inl_Inr_False linorder_not_less)
  from write_refines [OF assms(1) this] assms(2)
  show "n = length xs" "absorbs_to h xs h'" by auto
  then show "unat (hlength h') = unat (hlength h) + length xs"
    using fits_length(1) [OF assms(1) fits] by (simp add: absorbs_to_def)
qed

lemma absorbs_to_trans:
  "absorbs_to h xs h' \<Longrightarrow> absorbs_to h' ys h'' \<Longrightarrow> absorbs_to h (xs @ ys) h''"
  using absorb_append [of "state h" "pending h @ xs" ys] by (simp add: absorbs_to_def)

lemma absorbs_to_Nil: "hasher_ok h \<Longrightarrow> absorbs_to h [] h"
  by (simp add: absorbs_to_def hasher_ok_def pending_def)

text \<open>The result depends only on the cipher state, the pending bytes and the length.\<close>

lemma Sum_cong:
  assumes "hasher_ok h" "hasher_ok h'" "state h = state h'" "pending h = pending h'"
    "hlength h = hlength h'"
  shows "hasher_Sum h = hasher_Sum h'"
proof -
  have "unat (buffered h) = unat (buffered h')"
    using assms length_pending by metis
  then have b: "buffered h = buffered h'" by (simp add: word_unat_eq_iff)
  have pad: "copy_at (unat (buffered g)) 32 (replicate 32 0) (buffer g)
      = pending g @ replicate (32 - unat (buffered g)) 0" if "hasher_ok g" for g
    using that by (simp add: copy_at_def pending_def hasher_ok_def Let_def min_def)
  show ?thesis
    unfolding hasher_Sum_def pad [OF assms(1)] pad [OF assms(2)] by (simp only: assms(3-5) b)
qed

lemma length_lane_fold:
  assumes "\<forall>i \<in> set is. length (st ! i) = 16" "length acc = 16"
  shows "length (foldl (\<lambda>c lane. map2 (XOR) c (st ! lane)) acc is) = 16"
  using assms by (induction "is" arbitrary: acc) auto

lemma length_Sum:
  assumes "hasher_ok h"
  shows "length (hasher_Sum h) = 16"
proof -
  define st where "st = (if buffered h \<noteq> 0
    then aegisUpdatePortable (state h)
           (gslice 0 16 (copy_at (unat (buffered h)) 32 (replicate 32 0) (buffer h)))
           (gslice 16 32 (copy_at (unat (buffered h)) 32 (replicate 32 0) (buffer h)))
    else state h)"
  define fin where "fin = map2 (XOR) (copy_at 0 8 (put64 (hlength h * 8)) (replicate 16 0)) (st ! 2)"
  define st' where "st' = ((\<lambda>s. aegisUpdatePortable s fin fin) ^^ 7) st"
  have "blocks_ok st"
    using assms by (auto simp: st_def hasher_ok_def intro!: blocks_ok_update)
  then have "length fin = 16"
    by (simp add: fin_def blocks_ok_def)
  then have "blocks_ok st'"
    unfolding st'_def by (rule blocks_ok_update_iter) simp
  then have "\<forall>i \<in> set [0..<7]. length (st' ! i) = 16"
    by (simp add: blocks_ok_def)
  then have "length (foldl (\<lambda>c lane. map2 (XOR) c (st' ! lane)) (replicate 16 0) [0..<7]) = 16"
    by (rule length_lane_fold) simp
  then show ?thesis
    unfolding hasher_Sum_def Let_def st'_def fin_def st_def .
qed

text \<open>A caller that streams the chunks of an input through one hasher.\<close>

fun write_all :: "ChecksumHasher \<Rightarrow> bytes list \<Rightarrow> ChecksumHasher result" where
  "write_all h [] = Inr h"
| "write_all h (c # cs) =
     (case hasher_Write h c of Inl e \<Rightarrow> Inl e | Inr (n, h') \<Rightarrow> write_all h' cs)"

lemma write_all_absorbs:
  "hasher_ok h \<Longrightarrow> write_all h cs = Inr h' \<Longrightarrow> absorbs_to h (concat cs) h'"
proof (induction cs arbitrary: h)
  case Nil
  then show ?case by (simp add: absorbs_to_Nil)
next
  case (Cons c cs)
  then obtain n h1 where w: "hasher_Write h c = Inr (n, h1)" "write_all h1 cs = Inr h'"
    by (auto split: sum.splits)
  have "absorbs_to h c h1" using write_ok_absorbs Cons.prems w by blast
  then show ?case
    using Cons.IH [of h1] w absorbs_to_trans by (auto simp: absorbs_to_def)
qed

lemma absorbs_to_Sum:
  assumes "absorbs_to h xs a" "absorbs_to h xs b"
  shows "hasher_Sum a = hasher_Sum b"
  using assms by (intro Sum_cong) (auto simp: absorbs_to_def)

lemma length_new: "hlength NewChecksumHasher = 0"
  by (simp add: NewChecksumHasher_def)

lemma ChecksumBytes_fits:
  assumes "int (length xs) \<le> uint checksumInputBytesMax"
  obtains h where "hasher_Write NewChecksumHasher xs = Inr (length xs, h)"
    "absorbs_to NewChecksumHasher xs h" "ChecksumBytes xs = hasher_Sum h"
proof -
  have "int (length xs) \<le> uint (checksumInputBytesMax - hlength NewChecksumHasher)"
    using assms by (simp add: length_new)
  from write_refines [OF hasher_ok_new this] show thesis
    using that by (auto simp: ChecksumBytes_def)
qed

lemma length_ChecksumBytes:
  "int (length xs) \<le> uint checksumInputBytesMax \<Longrightarrow> length (ChecksumBytes xs) = 16"
  by (rule ChecksumBytes_fits) (auto simp: absorbs_to_def length_Sum)

lemma write_all_length:
  "hasher_ok h \<Longrightarrow> write_all h cs = Inr h' \<Longrightarrow>
     unat (hlength h) + length (concat cs) \<le> unat checksumInputBytesMax"
proof (induction cs arbitrary: h)
  case Nil
  then show ?case by (simp add: hasher_ok_def word_le_nat_alt)
next
  case (Cons c cs)
  then obtain n h1 where w: "hasher_Write h c = Inr (n, h1)" "write_all h1 cs = Inr h'"
    by (auto split: sum.splits)
  note step = write_ok_absorbs [OF Cons.prems(1) w(1)]
  have "unat (hlength h1) + length (concat cs) \<le> unat checksumInputBytesMax"
    using step(2) by (intro Cons.IH w(2)) (simp add: absorbs_to_def)
  then show ?case
    using step(3) by simp
qed

lemma write_all_fits:
  "write_all NewChecksumHasher cs = Inr h \<Longrightarrow> int (length (concat cs)) \<le> uint checksumInputBytesMax"
  unfolding uint_nat of_nat_le_iff using write_all_length [OF hasher_ok_new, of cs h]
  by (simp only: length_new unsigned_0 add_0)

lemma write_all_total:
  "hasher_ok h \<Longrightarrow> unat (hlength h) + length (concat cs) \<le> unat checksumInputBytesMax \<Longrightarrow>
     \<exists>h'. write_all h cs = Inr h'"
proof (induction cs arbitrary: h)
  case (Cons c cs)
  have le: "hlength h \<le> checksumInputBytesMax"
    using Cons.prems by (simp add: hasher_ok_def)
  have "int (length c) \<le> uint (checksumInputBytesMax - hlength h)"
    unfolding uint_nat of_nat_le_iff unat_sub [OF le] using Cons.prems by simp
  then obtain h1 where w: "hasher_Write h c = Inr (length c, h1)"
    using write_refines [OF Cons.prems(1)] by metis
  note step = write_ok_absorbs [OF Cons.prems(1) w]
  have "\<exists>h'. write_all h1 cs = Inr h'"
    using step Cons.prems by (intro Cons.IH) (auto simp: absorbs_to_def)
  then show ?case using w by auto
qed simp

lemma write_all_error: "write_all h cs = Inl e \<Longrightarrow> e = ErrChecksumLengthOverflow"
  by (induction cs arbitrary: h) (auto simp: write_error split: sum.splits)

text \<open>
  C21: A checksum does not depend on how its input is cut into writes. Whatever chunks a caller
  streams through a fresh hasher, every write succeeds exactly when the total length is within
  the limit, the sum afterwards is the one-shot checksum of their concatenation, and it has 16
  bytes; beyond the limit the caller gets the length overflow error.
\<close>

theorem checksum_chunking:
  "if int (length (concat cs)) \<le> uint checksumInputBytesMax
   then \<exists>h. write_all NewChecksumHasher cs = Inr h \<and> hasher_Sum h = ChecksumBytes (concat cs)
            \<and> length (hasher_Sum h) = 16
   else write_all NewChecksumHasher cs = Inl ErrChecksumLengthOverflow"
proof (cases "int (length (concat cs)) \<le> uint checksumInputBytesMax")
  case True
  then obtain h where h: "write_all NewChecksumHasher cs = Inr h"
    using write_all_total [OF hasher_ok_new, of cs]
    unfolding uint_nat of_nat_le_iff length_new by auto
  note ab = write_all_absorbs [OF hasher_ok_new h]
  obtain h' where "absorbs_to NewChecksumHasher (concat cs) h'" "ChecksumBytes (concat cs) = hasher_Sum h'"
    using ChecksumBytes_fits [OF True] by blast
  then have "hasher_Sum h = ChecksumBytes (concat cs)"
    using absorbs_to_Sum ab by metis
  then show ?thesis
    using True h length_ChecksumBytes [OF True] by simp
next
  case False
  then show ?thesis
    using write_all_fits write_all_error by (metis sum.exhaust)
qed

end
