(* ===== verification/Frame.thy ===== *)
theory Frame
  imports Checksum
begin

text \<open>
  The wire frame of \<^verbatim>\<open>replication/protocol/types.go\<close> and \<^verbatim>\<open>header.go\<close>: the 256-byte header,
  its encoder and decoder, and the sealing and decoding of a whole frame. A fixed-size byte
  array is a byte list whose length the predicate \<open>header_wf\<close> states. A mutated argument is
  returned: encoders return the written buffer and the updated header.
\<close>

section \<open>Identifiers and constants\<close>

type_synonym GroupID = bytes
type_synonym MemberID = bytes
type_synonym ClientID = bytes
type_synonym Checksum = bytes
type_synonym ReplicaIndex = u8
type_synonym View = u32
type_synonym Epoch = u32
type_synonym Op = u64
type_synonym Session = u64
type_synonym RequestNo = u32
type_synonym Release = u32
type_synonym Operation = u8
type_synonym Command = u8

abbreviation (input) ProtocolVersion :: u16 where "ProtocolVersion \<equiv> 0"
abbreviation (input) FormatVersion :: u16 where "FormatVersion \<equiv> 1"
abbreviation (input) MaxView :: u32 where "MaxView \<equiv> 0xFFFFFFFF"

abbreviation (input) CommandReserved :: Command where "CommandReserved \<equiv> 0"
abbreviation (input) CommandPing :: Command where "CommandPing \<equiv> 1"
abbreviation (input) CommandPong :: Command where "CommandPong \<equiv> 2"
abbreviation (input) CommandClientPing :: Command where "CommandClientPing \<equiv> 3"
abbreviation (input) CommandClientPong :: Command where "CommandClientPong \<equiv> 4"
abbreviation (input) CommandRequest :: Command where "CommandRequest \<equiv> 5"
abbreviation (input) CommandPrepare :: Command where "CommandPrepare \<equiv> 6"
abbreviation (input) CommandPrepareOK :: Command where "CommandPrepareOK \<equiv> 7"
abbreviation (input) CommandReply :: Command where "CommandReply \<equiv> 8"
abbreviation (input) CommandCommit :: Command where "CommandCommit \<equiv> 9"
abbreviation (input) CommandExitView :: Command where "CommandExitView \<equiv> 10"
abbreviation (input) CommandJoinView :: Command where "CommandJoinView \<equiv> 11"
abbreviation (input) CommandRetired12 :: Command where "CommandRetired12 \<equiv> 12"
abbreviation (input) CommandGetView :: Command where "CommandGetView \<equiv> 13"
abbreviation (input) CommandGetHeaders :: Command where "CommandGetHeaders \<equiv> 14"
abbreviation (input) CommandGetPrepare :: Command where "CommandGetPrepare \<equiv> 15"
abbreviation (input) CommandGetReply :: Command where "CommandGetReply \<equiv> 16"
abbreviation (input) CommandHeaders :: Command where "CommandHeaders \<equiv> 17"
abbreviation (input) CommandEviction :: Command where "CommandEviction \<equiv> 18"
abbreviation (input) CommandGetBlocks :: Command where "CommandGetBlocks \<equiv> 19"
abbreviation (input) CommandBlock :: Command where "CommandBlock \<equiv> 20"
abbreviation (input) CommandRetired21 :: Command where "CommandRetired21 \<equiv> 21"
abbreviation (input) CommandRetired22 :: Command where "CommandRetired22 \<equiv> 22"
abbreviation (input) CommandRetired23 :: Command where "CommandRetired23 \<equiv> 23"
abbreviation (input) CommandView :: Command where "CommandView \<equiv> 24"

abbreviation (input) OperationReserved :: Operation where "OperationReserved \<equiv> 0"
abbreviation (input) OperationRoot :: Operation where "OperationRoot \<equiv> 1"
abbreviation (input) OperationRegister :: Operation where "OperationRegister \<equiv> 2"
abbreviation (input) OperationReconfigure :: Operation where "OperationReconfigure \<equiv> 3"
abbreviation (input) OperationPulse :: Operation where "OperationPulse \<equiv> 4"
abbreviation (input) OperationUpgrade :: Operation where "OperationUpgrade \<equiv> 5"
abbreviation (input) OperationNoop :: Operation where "OperationNoop \<equiv> 6"
abbreviation (input) OperationApplicationMin :: Operation where "OperationApplicationMin \<equiv> 128"

abbreviation (input) EvictionNoSession :: u8 where "EvictionNoSession \<equiv> 1"
abbreviation (input) EvictionSessionReleaseMismatch :: u8 where "EvictionSessionReleaseMismatch \<equiv> 8"

abbreviation (input) BlockFreeSet :: u8 where "BlockFreeSet \<equiv> 1"
abbreviation (input) BlockClientSessions :: u8 where "BlockClientSessions \<equiv> 2"
abbreviation (input) BlockValue :: u8 where "BlockValue \<equiv> 5"

datatype RejectReason =
    RejectNone | RejectHeaderLength | RejectHeaderChecksum | RejectChecksumExtension
  | RejectBodyChecksumExtension | RejectReservedNonce | RejectWrongGroup | RejectSize
  | RejectProtocol | RejectEpoch | RejectCommand | RejectAuthor | RejectAuthentication
  | RejectFrameReservation | RejectBodyLength | RejectBodyChecksum | RejectCommandFields
  | RejectBodyShape

definition command_IsDefined :: "Command \<Rightarrow> bool" where
  "command_IsDefined command \<longleftrightarrow> command \<ge> CommandPing \<and> command \<le> CommandView
     \<and> command \<noteq> CommandRetired12 \<and> command \<noteq> CommandRetired21
     \<and> command \<noteq> CommandRetired22 \<and> command \<noteq> CommandRetired23"

section \<open>Header\<close>

record Header =
  HeaderChecksum :: Checksum
  BodyChecksum :: Checksum
  Group :: GroupID
  Size :: u32
  Epoch :: Epoch
  View :: View
  Release :: Release
  Protocol :: u16
  Command :: Command
  Author :: ReplicaIndex
  Fields :: bytes

definition zeroHeader :: Header where
  "zeroHeader = \<lparr>HeaderChecksum = replicate 16 0, BodyChecksum = replicate 16 0,
     Group = replicate 16 0, Size = 0, Epoch = 0, View = 0, Release = 0, Protocol = 0,
     Command = 0, Author = 0, Fields = replicate 128 0\<rparr>"

definition header_fields :: "Header \<Rightarrow> bytes \<Rightarrow> bytes" where
  "header_fields header destination =
     (let d = replicate (length destination) 0;
          d = copy_at 32 48 (BodyChecksum header) d;
          d = copy_at 80 96 (Group header) d;
          d = copy_at 96 100 (put32 (Size header)) d;
          d = copy_at 100 104 (put32 (Epoch header)) d;
          d = copy_at 104 108 (put32 (View header)) d;
          d = copy_at 108 112 (put32 (Release header)) d;
          d = copy_at 112 114 (put16 (Protocol header)) d;
          d = d[114 := Command header];
          d = d[115 := Author header]
      in copy_at 128 256 (Fields header) d)"

definition EncodeHeader :: "bytes \<Rightarrow> Header \<Rightarrow> (bytes \<times> Header) result" where
  "EncodeHeader destination header =
     (if length destination \<noteq> 256 \<or> Size header < 256 \<or> Protocol header \<noteq> ProtocolVersion
         \<or> Epoch header \<noteq> 0 \<or> \<not> command_IsDefined (Command header)
      then Inl ErrFrameEncoding
      else let d = header_fields header destination;
               header' = header\<lparr>HeaderChecksum := ChecksumBytes (drop 16 d)\<rparr>
           in Inr (copy_at 0 16 (HeaderChecksum header') d, header'))"

definition DecodeHeader :: "bytes \<Rightarrow> GroupID \<Rightarrow> u32 \<Rightarrow> u8 \<Rightarrow> Header \<times> RejectReason" where
  "DecodeHeader source expectedGroup messageSizeMax memberCount =
     (if length source \<noteq> 256 then (zeroHeader, RejectHeaderLength)
      else let expectedChecksum = gslice 0 16 source
      in if ChecksumBytes (drop 16 source) \<noteq> expectedChecksum then (zeroHeader, RejectHeaderChecksum)
      else if \<not> allZero (gslice 16 32 source) then (zeroHeader, RejectChecksumExtension)
      else if \<not> allZero (gslice 48 64 source) then (zeroHeader, RejectBodyChecksumExtension)
      else if \<not> allZero (gslice 64 80 source) then (zeroHeader, RejectReservedNonce)
      else let header = zeroHeader\<lparr>HeaderChecksum := expectedChecksum,
                 BodyChecksum := gslice 32 48 source, Group := gslice 80 96 source\<rparr>
      in if Group header \<noteq> expectedGroup then (zeroHeader, RejectWrongGroup)
      else let header = header\<lparr>Size := get32 (gslice 96 100 source)\<rparr>
      in if Size header < 256 \<or> Size header > messageSizeMax then (zeroHeader, RejectSize)
      else let header = header\<lparr>Epoch := get32 (gslice 100 104 source),
                 View := get32 (gslice 104 108 source), Release := get32 (gslice 108 112 source),
                 Protocol := get16 (gslice 112 114 source), Command := source ! 114,
                 Author := source ! 115\<rparr>
      in if Protocol header \<noteq> ProtocolVersion
            \<and> \<not> (Command header = CommandBlock \<and> Protocol header < ProtocolVersion)
         then (zeroHeader, RejectProtocol)
      else if Epoch header \<noteq> 0 then (zeroHeader, RejectEpoch)
      else if \<not> command_IsDefined (Command header) then (header, RejectCommand)
      else if memberCount = 0 \<or> Author header \<ge> memberCount then (zeroHeader, RejectAuthor)
      else if \<not> allZero (gslice 116 128 source) then (zeroHeader, RejectFrameReservation)
      else (header\<lparr>Fields := gslice 128 256 source\<rparr>, RejectNone))"

section \<open>Frames\<close>

definition ValidateBody :: "Header \<Rightarrow> bytes \<Rightarrow> RejectReason" where
  "ValidateBody header body =
     (if int (length body) + 256 \<noteq> uint (Size header) then RejectBodyLength
      else if ChecksumBytes body \<noteq> BodyChecksum header then RejectBodyChecksum
      else RejectNone)"

definition DecodeFrame :: "bytes \<Rightarrow> GroupID \<Rightarrow> u32 \<Rightarrow> u8 \<Rightarrow> Header \<times> bytes \<times> RejectReason" where
  "DecodeFrame frame expectedGroup messageSizeMax memberCount =
     (if length frame < 256 then (zeroHeader, [], RejectHeaderLength)
      else let (header, reason) = DecodeHeader (gslice 0 256 frame) expectedGroup messageSizeMax memberCount
      in if reason \<noteq> RejectNone then (zeroHeader, [], reason)
      else if int (length frame) \<noteq> uint (Size header) then (zeroHeader, [], RejectBodyLength)
      else let body = gslice 256 (unat (Size header)) frame
      in if ValidateBody header body \<noteq> RejectNone then (zeroHeader, [], ValidateBody header body)
      else (header, body, RejectNone))"

definition SealFrame :: "bytes \<Rightarrow> Header \<Rightarrow> (bytes \<times> Header) result" where
  "SealFrame frame header =
     (if length frame < 256 \<or> int (length frame) > 0xFFFFFFFF then Inl ErrFrameEncoding
      else let header = header\<lparr>Size := of_nat (length frame),
                 BodyChecksum := ChecksumBytes (drop 256 frame)\<rparr>
      in bind_result (EncodeHeader (gslice 0 256 frame) header)
           (\<lambda>(encoded, header). Inr (encoded @ drop 256 frame, header)))"

section \<open>Round trips\<close>

definition header_wf :: "Header \<Rightarrow> bool" where
  "header_wf h \<longleftrightarrow> length (HeaderChecksum h) = 16 \<and> length (BodyChecksum h) = 16
     \<and> length (Group h) = 16 \<and> length (Fields h) = 128"

text \<open>The headers the encoder accepts.\<close>

definition encodable :: "Header \<Rightarrow> bool" where
  "encodable h \<longleftrightarrow> 256 \<le> Size h \<and> Protocol h = ProtocolVersion \<and> Epoch h = 0
     \<and> command_IsDefined (Command h)"

lemma length_header_fields [simp]: "length (header_fields h d) = length d"
  by (simp add: header_fields_def Let_def)

lemma checksum_limit: "uint checksumInputBytesMax = 2305843009213693951"
  by (simp add: checksumInputBytesMax_def)

lemma length_ChecksumBytes_frame [simp]:
  "length xs \<le> 4294967296 \<Longrightarrow> length (ChecksumBytes xs) = 16"
  by (rule length_ChecksumBytes) (simp add: checksum_limit)

lemma EncodeHeader_eq:
  assumes "length d = 256" "encodable h"
  shows "EncodeHeader d h =
    Inr (copy_at 0 16 (ChecksumBytes (drop 16 (header_fields h d))) (header_fields h d),
         h\<lparr>HeaderChecksum := ChecksumBytes (drop 16 (header_fields h d))\<rparr>)"
  using assms by (simp add: EncodeHeader_def encodable_def Let_def not_less)

lemma EncodeHeader_error:
  "EncodeHeader d h = Inl e \<longleftrightarrow> e = ErrFrameEncoding \<and> (length d \<noteq> 256 \<or> \<not> encodable h)"
  by (auto simp: EncodeHeader_def encodable_def Let_def not_less not_le)

lemma header_fields_slices:
  assumes "length d = 256" "header_wf h"
  defines "e \<equiv> header_fields h d"
  shows "gslice 16 32 e = replicate 16 0" "gslice 32 48 e = BodyChecksum h"
    "gslice 48 64 e = replicate 16 0" "gslice 64 80 e = replicate 16 0"
    "gslice 80 96 e = Group h" "gslice 96 100 e = put32 (Size h)"
    "gslice 100 104 e = put32 (Epoch h)" "gslice 104 108 e = put32 (View h)"
    "gslice 108 112 e = put32 (Release h)" "gslice 112 114 e = put16 (Protocol h)"
    "e ! 114 = Command h" "e ! 115 = Author h"
    "gslice 116 128 e = replicate 12 0" "gslice 128 256 e = Fields h"
  using assms(1,2) unfolding e_def header_fields_def Let_def header_wf_def
  by (simp_all add: slice_simps)

text \<open>A decoder reads back every header the encoder wrote.\<close>

lemma DecodeHeader_EncodeHeader:
  assumes "EncodeHeader d h = Inr (bs, h')" "header_wf h" "Size h \<le> messageSizeMax"
    "Author h < memberCount"
  shows "DecodeHeader bs (Group h) messageSizeMax memberCount = (h', RejectNone)"
    "length bs = 256" "h' = h\<lparr>HeaderChecksum := HeaderChecksum h'\<rparr>" "header_wf h'"
proof -
  have ok: "length d = 256" "encodable h"
    using assms(1) EncodeHeader_error [of d h ErrFrameEncoding] by auto
  let ?e = "header_fields h d"
  let ?c = "ChecksumBytes (drop 16 ?e)"
  have c: "length ?c = 16" using ok by simp
  have bs: "bs = copy_at 0 16 ?c ?e" "h' = h\<lparr>HeaderChecksum := ?c\<rparr>"
    using assms(1) EncodeHeader_eq [OF ok] by auto
  have low: "gslice 0 16 bs = ?c" "drop 16 bs = drop 16 ?e"
    using ok c by (simp_all add: bs slice_simps drop_copy_at)
  have rest: "gslice a b bs = gslice a b ?e" if "16 \<le> a" for a b
    using that by (simp add: bs slice_simps)
  have nths: "bs ! i = ?e ! i" if "16 \<le> i" "i < 256" for i
    using that ok by (simp add: bs slice_simps)
  show "length bs = 256" "h' = h\<lparr>HeaderChecksum := HeaderChecksum h'\<rparr>" "header_wf h'"
    using assms(2) c ok by (simp_all add: bs header_wf_def)
  show "DecodeHeader bs (Group h) messageSizeMax memberCount = (h', RejectNone)"
    using ok assms(2-4) \<open>length bs = 256\<close>
    by (simp add: DecodeHeader_def Let_def low rest nths header_fields_slices codec_simps
        encodable_def not_less not_le zeroHeader_def bs(2))
       (auto simp: word_less_nat_alt)
qed

text \<open>What the decoder accepts.\<close>

lemma DecodeHeader_accepts:
  assumes "DecodeHeader src g m n = (h, RejectNone)"
  shows "length src = 256" "ChecksumBytes (drop 16 src) = gslice 0 16 src"
    "allZero (gslice 16 32 src)" "allZero (gslice 48 64 src)" "allZero (gslice 64 80 src)"
    "allZero (gslice 116 128 src)" "Group h = g" "Size h \<le> m" "Author h < n" "encodable h"
    "h = \<lparr>HeaderChecksum = gslice 0 16 src, BodyChecksum = gslice 32 48 src,
      Group = gslice 80 96 src, Size = get32 (gslice 96 100 src), Epoch = get32 (gslice 100 104 src),
      View = get32 (gslice 104 108 src), Release = get32 (gslice 108 112 src),
      Protocol = get16 (gslice 112 114 src), Command = src ! 114, Author = src ! 115,
      Fields = gslice 128 256 src\<rparr>"
  using assms unfolding DecodeHeader_def Let_def encodable_def
  by (auto split: if_splits simp: not_less not_le zeroHeader_def)

lemma header_fields_rebuild:
  assumes "DecodeHeader src g m n = (h, RejectNone)" "length d = 256"
  shows "eq_on {16..<256} src (header_fields h d)"
proof -
  note acc = DecodeHeader_accepts [OF assms(1)]
  have len: "length src = 256" by (rule acc)
  have "eq_on ({} \<union> {16..<32} \<union> {48..<64} \<union> {64..<80} \<union> {116..<128}) src (replicate 256 0)"
    using len by (intro eq_on_allZero acc eq_on_empty) simp_all
  then have "eq_on ((insert 115 (insert 114 ({} \<union> {16..<32} \<union> {48..<64} \<union> {64..<80} \<union> {116..<128}
      \<union> {32..<48} \<union> {80..<96} \<union> {96..<100} \<union> {100..<104} \<union> {104..<108} \<union> {108..<112} \<union> {112..<114})))
      \<union> {128..<256}) src (header_fields h d)"
    unfolding header_fields_def Let_def assms(2)
    by (intro eq_on_copy eq_on_update) (simp_all add: acc(11) len codec_simps)
  then show ?thesis
    by (rule eq_on_mono) auto
qed

text \<open>The wire form of a header is unique: encoding an accepted header gives back its bytes.\<close>

lemma EncodeHeader_DecodeHeader:
  assumes "DecodeHeader src g m n = (h, RejectNone)" "length d = 256"
  shows "EncodeHeader d h = Inr (src, h)"
proof -
  note acc = DecodeHeader_accepts [OF assms(1)]
  have len: "length src = 256" by (rule acc)
  note eqs = header_fields_rebuild [OF assms]
  have dr: "drop 16 (header_fields h d) = drop 16 src"
    using eq_on_drop [OF eqs, of 16] len by simp
  have chk: "ChecksumBytes (drop 16 src) = gslice 0 16 src" by (rule acc)
  have "eq_on ({16..<256} \<union> {0..<16}) src (copy_at 0 16 (gslice 0 16 src) (header_fields h d))"
    by (intro eq_on_copy eqs) (simp_all add: len)
  then have "copy_at 0 16 (gslice 0 16 src) (header_fields h d) = src"
    by (rule eq_on_full [symmetric]) (auto simp: len)
  moreover have "h\<lparr>HeaderChecksum := gslice 0 16 src\<rparr> = h"
    by (subst (1 2) acc(11)) simp
  ultimately show ?thesis
    using EncodeHeader_eq [OF assms(2) acc(10)] by (simp add: dr chk)
qed

lemma header_wf_DecodeHeader: "DecodeHeader src g m n = (h, RejectNone) \<Longrightarrow> header_wf h"
  using DecodeHeader_accepts(1,11) [of src g m n h] by (simp add: header_wf_def)

lemma SealFrame_ok:
  assumes "SealFrame frame h = Inr (frame', h')"
  shows "256 \<le> length frame" "int (length frame) \<le> 0xFFFFFFFF"
    "\<exists>enc. frame' = enc @ drop 256 frame \<and> EncodeHeader (gslice 0 256 frame)
       (h\<lparr>Size := of_nat (length frame), BodyChecksum := ChecksumBytes (drop 256 frame)\<rparr>) = Inr (enc, h')"
  using assms by (auto simp: SealFrame_def Let_def bind_result_Inr_conv split: if_splits)

lemma SealFrame_total:
  assumes "256 \<le> length frame" "length frame \<le> 4294967295"
    "Protocol h = ProtocolVersion" "Epoch h = 0" "command_IsDefined (Command h)"
  shows "\<exists>frame' h'. SealFrame frame h = Inr (frame', h')"
proof -
  have "(256 :: u32) \<le> of_nat (length frame)"
    using assms by (simp add: word_le_nat_alt unsigned_of_nat take_bit_nat_eq_self)
  then show ?thesis
    using assms by (simp add: SealFrame_def Let_def EncodeHeader_eq encodable_def)
qed

lemma uint_of_nat32: "n \<le> 4294967295 \<Longrightarrow> uint (of_nat n :: u32) = int n"
  by (simp add: unsigned_of_nat take_bit_nat_eq_self)

lemma unat_of_nat32: "n \<le> 4294967295 \<Longrightarrow> unat (of_nat n :: u32) = n"
  by (simp add: unsigned_of_nat take_bit_nat_eq_self)

lemma sealed_DecodeFrame:
  assumes "EncodeHeader d h = Inr (enc, h')" "header_wf h" "Size h \<le> m" "Author h < n"
    "Size h = of_nat (256 + length body)" "length body \<le> 4294967039" "BodyChecksum h = ChecksumBytes body"
  shows "DecodeFrame (enc @ body) (Group h) m n = (h', body, RejectNone)"
proof -
  note dec = DecodeHeader_EncodeHeader [OF assms(1-4)]
  have h': "Size h' = Size h" "BodyChecksum h' = BodyChecksum h" by (subst dec(3), simp)+
  have size: "uint (Size h') = 256 + int (length body)" "unat (Size h') = 256 + length body"
    using assms(5,6) uint_of_nat32 [of "256 + length body"] unat_of_nat32 [of "256 + length body"]
    by (simp_all add: h')
  have parts: "gslice 0 256 (enc @ body) = enc" "gslice 256 (256 + length body) (enc @ body) = body"
    using dec(2) by (simp_all add: gslice_def)
  show ?thesis
    using size h' dec(2) assms(7)
    by (simp add: DecodeFrame_def parts dec(1) Let_def ValidateBody_def)
qed

section \<open>Properties\<close>

text \<open>
  C6: Sealing a frame whose header has a defined command, the current protocol and epoch
  zero succeeds for every frame of 256 to \<open>2 ^ 32 - 1\<close> bytes, leaves the body alone, and
  a receiver of the same group that allows the size and knows the author decodes exactly the
  sealed header and body.
\<close>

theorem SealFrame_DecodeFrame:
  assumes "256 \<le> length frame" "int (length frame) \<le> uint messageSizeMax"
    and "header_wf h" "Protocol h = ProtocolVersion" "Epoch h = 0" "command_IsDefined (Command h)"
    and "Author h < memberCount"
  shows "\<exists>frame' h'. SealFrame frame h = Inr (frame', h') \<and> drop 256 frame' = drop 256 frame
    \<and> length frame' = length frame
    \<and> DecodeFrame frame' (Group h) messageSizeMax memberCount = (h', drop 256 frame, RejectNone)
    \<and> h' = h\<lparr>HeaderChecksum := HeaderChecksum h', Size := of_nat (length frame),
             BodyChecksum := ChecksumBytes (drop 256 frame)\<rparr>"
proof -
  have small: "length frame \<le> 4294967295"
    using assms(2) uint_lt2p [of messageSizeMax] by simp
  let ?h = "h\<lparr>Size := of_nat (length frame), BodyChecksum := ChecksumBytes (drop 256 frame)\<rparr>"
  obtain frame' h' enc where s: "SealFrame frame h = Inr (frame', h')"
    and enc: "frame' = enc @ drop 256 frame" "EncodeHeader (gslice 0 256 frame) ?h = Inr (enc, h')"
    using SealFrame_total [OF assms(1) small assms(4-6)] SealFrame_ok(3) by blast
  have pre: "header_wf ?h" "Size ?h \<le> messageSizeMax" "Author ?h < memberCount"
    "Size ?h = of_nat (256 + length (drop 256 frame))" "length (drop 256 frame) \<le> 4294967039"
    "BodyChecksum ?h = ChecksumBytes (drop 256 frame)"
    using assms small by (simp_all add: header_wf_def word_le_def uint_of_nat32)
  note dec = DecodeHeader_EncodeHeader [OF enc(2) pre(1-3)]
  have "DecodeFrame frame' (Group h) messageSizeMax memberCount = (h', drop 256 frame, RejectNone)"
    using sealed_DecodeFrame [OF enc(2) pre] enc(1) by simp
  moreover have "h' = h\<lparr>HeaderChecksum := HeaderChecksum h', Size := of_nat (length frame),
      BodyChecksum := ChecksumBytes (drop 256 frame)\<rparr>"
    by (subst dec(3)) simp
  ultimately show ?thesis
    using s enc(1) dec(2) assms(1) by auto
qed

theorem SealFrame_DecodeFrame_witness:
  "\<exists>frame' h'. SealFrame (replicate 300 7) (zeroHeader\<lparr>Command := CommandPrepare, Author := 2\<rparr>) = Inr (frame', h')
    \<and> DecodeFrame frame' (replicate 16 0) 4096 3 = (h', replicate 44 7, RejectNone)"
  using SealFrame_DecodeFrame [of "replicate 300 7" 4096 "zeroHeader\<lparr>Command := CommandPrepare, Author := 2\<rparr>" 3]
  by (auto simp: header_wf_def zeroHeader_def command_IsDefined_def)

text \<open>
  C8: The wire form of a frame is unique. A frame that a receiver accepts is exactly the frame
  that sealing its decoded header over its body produces; there is no second encoding of the
  same message, and every byte of the header is covered by the checksum or checked to be zero.
\<close>

theorem DecodeFrame_SealFrame:
  assumes "DecodeFrame frame g m n = (h, body, RejectNone)"
  shows "SealFrame frame h = Inr (frame, h) \<and> body = drop 256 frame \<and> Group h = g
    \<and> uint (Size h) = int (length frame) \<and> Size h \<le> m \<and> Author h < n"
proof -
  have len: "256 \<le> length frame" and dec: "DecodeHeader (gslice 0 256 frame) g m n = (h, RejectNone)"
    and size: "int (length frame) = uint (Size h)"
    and body: "body = gslice 256 (unat (Size h)) frame" "ValidateBody h body = RejectNone"
    using assms by (auto simp: DecodeFrame_def Let_def split: if_splits prod.splits)
  note acc = DecodeHeader_accepts [OF dec]
  have n: "length frame = unat (Size h)" "int (length frame) \<le> 4294967295"
    using size uint_lt2p [of "Size h"] by (simp_all add: nat_eq_iff2 flip: nat_uint_eq)
  have b: "body = drop 256 frame"
    using body(1) n(1) by (simp add: gslice_def)
  have "Size h = of_nat (length frame)" "BodyChecksum h = ChecksumBytes (drop 256 frame)"
    using n(1) body(2) b by (simp_all add: ValidateBody_def split: if_splits)
  then have hh: "h\<lparr>Size := of_nat (length frame), BodyChecksum := ChecksumBytes (drop 256 frame)\<rparr> = h"
    by simp
  have "EncodeHeader (gslice 0 256 frame) h = Inr (gslice 0 256 frame, h)"
    using len by (intro EncodeHeader_DecodeHeader [OF dec]) simp
  then have "SealFrame frame h = Inr (frame, h)"
    using len n(2) by (simp add: SealFrame_def Let_def hh) (simp add: gslice_def)
  then show ?thesis
    using b acc size by simp
qed

theorem DecodeFrame_SealFrame_witness:
  "\<exists>frame h. DecodeFrame frame (replicate 16 0) 4096 3 = (h, [], RejectNone)
    \<and> SealFrame frame h = Inr (frame, h) \<and> uint (Size h) = 256"
proof -
  let ?h = "zeroHeader\<lparr>Size := 256, BodyChecksum := ChecksumBytes [], Command := CommandPing\<rparr>"
  have "encodable ?h" "header_wf ?h"
    by (simp_all add: encodable_def header_wf_def zeroHeader_def command_IsDefined_def)
  then obtain enc h' where e: "EncodeHeader (replicate 256 0) ?h = Inr (enc, h')"
    using EncodeHeader_eq by (metis length_replicate)
  have d: "DecodeFrame (enc @ []) (Group ?h) 4096 3 = (h', [], RejectNone)"
    using \<open>header_wf ?h\<close> by (intro sealed_DecodeFrame [OF e]) (simp_all add: zeroHeader_def)
  have "length enc = 256"
    using e EncodeHeader_eq [of "replicate 256 0" ?h] \<open>encodable ?h\<close> by auto
  then show ?thesis
    using DecodeFrame_SealFrame [OF d] d by (auto simp: zeroHeader_def)
qed

end
