(* ===== verification/Validation.thy ===== *)
theory Validation
  imports Frame
begin

text \<open>
  Semantic validation of a decoded message, \<^verbatim>\<open>replication/protocol/validation.go\<close>: who may
  author which command, which releases are admissible, and the field and body shape of every
  command. A conversion \<^verbatim>\<open>uint32(len(body))\<close> is kept at 32 bits.
\<close>

section \<open>Definitions\<close>

record ValidationContext =
  Authenticated :: bool
  ReplicaSource :: bool
  Sender :: ReplicaIndex
  ActiveCount :: u8
  MemberCount :: u8
  PipelineMax :: u8
  ReleaseHistoryMax :: u16
  ApplicationBatchSizeMax :: u32
  ApplicationReplySizeMax :: u32
  RepairRequestsMax :: u32
  CurrentRelease :: Release
  ClientReleaseMin :: Release
  ctx_Group :: GroupID
  MessageSizeMax :: u32

definition isZero16 :: "bytes \<Rightarrow> bool" where
  "isZero16 input \<longleftrightarrow> length input = 16 \<and> allZero input"

definition validAuthor :: "Command \<Rightarrow> ReplicaIndex \<Rightarrow> ReplicaIndex \<Rightarrow> bool \<Rightarrow> ReplicaIndex \<Rightarrow> bool" where
  "validAuthor command author sender replicaSource primary =
     (if command \<in> {CommandRequest, CommandClientPing, CommandBlock} then author = 0
      else if command \<in> {CommandPrepare, CommandReply, CommandCommit, CommandView} then author = primary
      else if command \<in> {CommandPing, CommandPong, CommandClientPong, CommandPrepareOK, CommandExitView,
          CommandJoinView, CommandGetView, CommandGetHeaders, CommandGetPrepare, CommandGetReply,
          CommandHeaders, CommandEviction, CommandGetBlocks}
      then replicaSource \<and> author = sender
      else False)"

definition requiresRelease :: "Header \<Rightarrow> bool" where
  "requiresRelease header =
     (if Command header \<in> {CommandRequest, CommandReply, CommandPing, CommandPong, CommandClientPing,
          CommandClientPong, CommandEviction, CommandBlock} then True
      else if Command header = CommandPrepare
      then Fields header ! 124 \<noteq> OperationRoot \<and> Fields header ! 124 \<noteq> OperationReserved
      else False)"

definition validRelease :: "Header \<Rightarrow> ValidationContext \<Rightarrow> bool" where
  "validRelease header context =
     (if requiresRelease header then Release header \<noteq> 0 \<and> Release header \<le> CurrentRelease context
      else Release header = 0)"

fun validatePing_loop :: "Header \<Rightarrow> bytes \<Rightarrow> nat \<Rightarrow> nat list \<Rightarrow> Release \<Rightarrow> bool \<Rightarrow> RejectReason" where
  "validatePing_loop header body count [] previous containsHeaderRelease =
     (if \<not> containsHeaderRelease then RejectBodyShape else RejectNone)"
| "validatePing_loop header body count (index # rest) previous containsHeaderRelease =
     (let release = get32 (gslice (index * 4) (index * 4 + 4) body)
      in if index < count
         then if release = 0 \<or> release \<le> previous then RejectBodyShape
              else validatePing_loop header body count rest release
                     (containsHeaderRelease \<or> release = Release header)
         else if release \<noteq> 0 then RejectBodyShape
         else validatePing_loop header body count rest previous containsHeaderRelease)"

definition validatePing :: "Header \<Rightarrow> bytes \<Rightarrow> ValidationContext \<Rightarrow> RejectReason" where
  "validatePing header body context =
     (let flds = Fields header; count = get16 (gslice 32 34 flds)
      in if get64 (gslice 24 32 flds) = 0 \<or> count = 0 \<or> count > ReleaseHistoryMax context
            \<or> \<not> allZero (drop 34 flds) \<or> length body \<noteq> unat (ReleaseHistoryMax context) * 4
         then RejectCommandFields
         else validatePing_loop header body (unat count) [0..<unat (ReleaseHistoryMax context)] 0 False)"

definition validClientOperation :: "Operation \<Rightarrow> bool" where
  "validClientOperation operation \<longleftrightarrow> operation = OperationReconfigure \<or> operation = OperationNoop
     \<or> operation \<ge> OperationApplicationMin"

definition validPreparedOperation :: "Operation \<Rightarrow> bool" where
  "validPreparedOperation operation \<longleftrightarrow> operation = OperationRegister \<or> operation = OperationReconfigure
     \<or> operation = OperationPulse \<or> operation = OperationUpgrade \<or> operation = OperationNoop
     \<or> operation \<ge> OperationApplicationMin"

definition validateOperationBody :: "Operation \<Rightarrow> bytes \<Rightarrow> u32 \<Rightarrow> bool \<Rightarrow> RejectReason" where
  "validateOperationBody operation body maximum prepared =
     (if (of_nat (length body) :: u32) > maximum then RejectBodyShape
      else if operation = OperationNoop \<or> operation = OperationPulse
      then (if length body \<noteq> 0 then RejectBodyShape else RejectNone)
      else if operation = OperationUpgrade
      then (if length body \<noteq> 16 \<or> get32 (gslice 0 4 body) = 0 \<or> \<not> allZero (drop 4 body)
            then RejectBodyShape else RejectNone)
      else if operation = OperationReconfigure
      then (if length body \<noteq> 256 then RejectBodyShape
            else if \<not> prepared \<and> get32 (gslice 252 256 body) \<noteq> 0 then RejectBodyShape else RejectNone)
      else if operation < OperationApplicationMin then RejectCommandFields else RejectNone)"

definition validateRequest :: "Header \<Rightarrow> bytes \<Rightarrow> ValidationContext \<Rightarrow> RejectReason" where
  "validateRequest header body context =
     (let flds = Fields header
      in if \<not> allZero (gslice 16 32 flds) \<or> \<not> allZero (gslice 69 72 flds) \<or> \<not> allZero (drop 76 flds)
      then RejectCommandFields
      else let session = get64 (gslice 48 56 flds); request = get32 (gslice 64 68 flds);
               operation = flds ! 68
      in if operation = OperationRegister
      then (let invalidIdentity = (\<not> isZero16 (gslice 0 16 flds) \<or> session \<noteq> 0 \<or> request \<noteq> 0);
                invalidBodyLength = (length body \<noteq> 0 \<and> length body \<noteq> 256)
            in if invalidIdentity \<or> invalidBodyLength then RejectCommandFields
            else if length body = 256 \<and> \<not> allZero body then RejectBodyShape
            else RejectNone)
      else if session = 0 \<or> request = 0 \<or> \<not> validClientOperation operation then RejectCommandFields
      else validateOperationBody operation body (ApplicationBatchSizeMax context) False)"

definition validRootPrepare :: "bytes \<Rightarrow> bytes \<Rightarrow> u64 \<Rightarrow> u64 \<Rightarrow> u64 \<Rightarrow> bool" where
  "validRootPrepare flds body op commit timestamp =
     (let validProgress = (op = 0 \<and> commit = 0 \<and> timestamp = 0);
          validIdentity = (isZero16 (gslice 0 16 flds) \<and> isZero16 (gslice 32 48 flds)
            \<and> isZero16 (gslice 64 96 flds))
      in validProgress \<and> validIdentity \<and> allZero (gslice 120 124 flds) \<and> length body = 0)"

definition validatePrepare :: "Header \<Rightarrow> bytes \<Rightarrow> ValidationContext \<Rightarrow> RejectReason" where
  "validatePrepare header body context =
     (let flds = Fields header
      in if \<not> allZero (gslice 16 32 flds) \<or> \<not> allZero (gslice 48 64 flds) \<or> \<not> allZero (drop 125 flds)
      then RejectCommandFields
      else let op = get64 (gslice 96 104 flds); commit = get64 (gslice 104 112 flds);
               timestamp = get64 (gslice 112 120 flds); operation = flds ! 124
      in if operation = OperationRoot \<or> operation = OperationReserved
      then (if \<not> validRootPrepare flds body op commit timestamp then RejectCommandFields else RejectNone)
      else if op = 0 \<or> op \<le> commit \<or> timestamp = 0 \<or> \<not> validPreparedOperation operation
      then RejectCommandFields
      else if operation = OperationRegister
      then (if get32 (gslice 120 124 flds) \<noteq> 0 \<or> isZero16 (gslice 80 96 flds) \<or> length body \<noteq> 256
               \<or> get32 (gslice 0 4 body) \<noteq> ApplicationBatchSizeMax context \<or> \<not> allZero (drop 4 body)
            then RejectBodyShape else RejectNone)
      else validateOperationBody operation body (ApplicationBatchSizeMax context) True)"

definition validatePrepareOK :: "Header \<Rightarrow> bytes \<Rightarrow> RejectReason" where
  "validatePrepareOK header body =
     (let flds = Fields header; op = get64 (gslice 96 104 flds); commitMin = get64 (gslice 104 112 flds);
          invalidIdentity = (\<not> allZero (gslice 16 32 flds) \<or> \<not> allZero (gslice 48 64 flds));
          invalidProgress = (op = 0 \<or> op \<le> commitMin \<or> get64 (gslice 112 120 flds) = 0);
          invalidOperation = (flds ! 124 \<le> OperationRoot)
      in if invalidIdentity \<or> invalidProgress \<or> invalidOperation \<or> \<not> allZero (drop 125 flds)
            \<or> length body \<noteq> 0
         then RejectCommandFields else RejectNone)"

definition validateReply :: "Header \<Rightarrow> bytes \<Rightarrow> ValidationContext \<Rightarrow> RejectReason" where
  "validateReply header body context =
     (let flds = Fields header; op = get64 (gslice 80 88 flds); commit = get64 (gslice 88 96 flds);
          invalidIdentity = (\<not> allZero (gslice 16 32 flds) \<or> \<not> allZero (gslice 48 64 flds)
            \<or> isZero16 (gslice 64 80 flds));
          invalidProgress = (op = 0 \<or> op \<noteq> commit \<or> get64 (gslice 96 104 flds) = 0);
          invalidOperation = (\<not> validPreparedOperation (flds ! 108));
          invalidBody = (\<not> allZero (drop 109 flds)
            \<or> (of_nat (length body) :: u32) > ApplicationReplySizeMax context)
      in if invalidIdentity \<or> invalidProgress \<or> invalidOperation \<or> invalidBody
         then RejectCommandFields else RejectNone)"

fun bitsWithin_from :: "bytes \<Rightarrow> nat list \<Rightarrow> bool" where
  "bitsWithin_from bits [] = True"
| "bitsWithin_from bits (i # rest) =
     (if bits ! (i div 8) AND push_bit (i mod 8) 1 \<noteq> 0 then False else bitsWithin_from bits rest)"

definition bitsWithin :: "bytes \<Rightarrow> nat \<Rightarrow> bool" where
  "bitsWithin bits count = bitsWithin_from bits [count..<length bits * 8]"

text \<open>
  The loop over the 256-byte entries of a body; the callers have checked that its length is a
  multiple of 256.
\<close>

function validateEmbeddedPrepareHeaders :: "bytes \<Rightarrow> ValidationContext \<Rightarrow> bool \<Rightarrow> RejectReason" where
  "validateEmbeddedPrepareHeaders body context allowBlank =
     (if length body = 0 then RejectNone
      else let encoded = gslice 0 256 body
      in if allowBlank \<and> allZero encoded
         then validateEmbeddedPrepareHeaders (drop 256 body) context allowBlank
         else let (header, reason) =
                DecodeHeader encoded (ctx_Group context) (MessageSizeMax context) (MemberCount context)
         in if reason \<noteq> RejectNone \<or> Command header \<noteq> CommandPrepare then RejectBodyShape
         else validateEmbeddedPrepareHeaders (drop 256 body) context allowBlank)"
  by pat_completeness auto
termination
  by (relation "measure (\<lambda>(body, context, allowBlank). length body)") auto

declare validateEmbeddedPrepareHeaders.simps [simp del]

definition validateJoinView :: "Header \<Rightarrow> bytes \<Rightarrow> ValidationContext \<Rightarrow> RejectReason" where
  "validateJoinView header body context =
     (let flds = Fields header; head = get64 (gslice 32 40 flds); commit = get64 (gslice 40 48 flds);
          checkpoint = get64 (gslice 48 56 flds); entryCount = length body div 256;
          invalidProgress = (head < commit \<or> commit < checkpoint);
          invalidBody = (length body = 0 \<or> length body mod 256 \<noteq> 0
            \<or> entryCount > unat (PipelineMax context) + 1)
      in if invalidProgress \<or> invalidBody \<or> \<not> allZero (drop 60 flds) then RejectBodyShape
      else if \<not> bitsWithin (gslice 0 16 flds) entryCount \<or> \<not> bitsWithin (gslice 16 32 flds) entryCount
      then RejectCommandFields
      else validateEmbeddedPrepareHeaders body context True)"

definition validateView :: "Header \<Rightarrow> bytes \<Rightarrow> ValidationContext \<Rightarrow> RejectReason" where
  "validateView header body context =
     (let flds = Fields header; head = get64 (gslice 16 24 flds); commit = get64 (gslice 24 32 flds);
          checkpoint = get64 (gslice 32 40 flds)
      in if head < commit \<or> commit < checkpoint \<or> \<not> allZero (drop 40 flds) then RejectCommandFields
      else if length body < 1024 \<or> (length body - 1024) mod 256 \<noteq> 0
         \<or> (length body - 1024) div 256 > unat (PipelineMax context) + 1
      then RejectBodyShape
      else if length body = 1024 then RejectNone
      else validateEmbeddedPrepareHeaders (drop 1024 body) context True)"

function validateGetBlocks_loop :: "bytes \<Rightarrow> RejectReason" where
  "validateGetBlocks_loop body =
     (if length body = 0 then RejectNone
      else if get64 (gslice 16 24 body) = 0 \<or> \<not> allZero (gslice 24 32 body) then RejectBodyShape
      else validateGetBlocks_loop (drop 32 body))"
  by pat_completeness auto
termination
  by (relation "measure length") auto

declare validateGetBlocks_loop.simps [simp del]

definition validateGetBlocks :: "bytes \<Rightarrow> bytes \<Rightarrow> ValidationContext \<Rightarrow> RejectReason" where
  "validateGetBlocks flds body context =
     (if \<not> allZero flds \<or> length body = 0 \<or> length body mod 32 \<noteq> 0
         \<or> (of_nat (length body div 32) :: u32) > RepairRequestsMax context
      then RejectBodyShape
      else validateGetBlocks_loop body)"

definition validGetReply :: "bytes \<Rightarrow> bytes \<Rightarrow> bool" where
  "validGetReply flds body =
     (let validIdentity = (\<not> isZero16 (gslice 0 16 flds) \<and> allZero (gslice 16 32 flds)
            \<and> \<not> isZero16 (gslice 32 48 flds));
          validOperation = (get64 (gslice 48 56 flds) \<noteq> 0 \<and> allZero (drop 56 flds))
      in validIdentity \<and> validOperation \<and> length body = 0)"

abbreviation reject_if :: "RejectReason \<Rightarrow> bool \<Rightarrow> RejectReason" where
  "reject_if reason cond \<equiv> (if cond then reason else RejectNone)"

definition validateCommand :: "Header \<Rightarrow> bytes \<Rightarrow> ValidationContext \<Rightarrow> RejectReason" where
  "validateCommand header body context =
     (let flds = Fields header; command = Command header
      in if command = CommandPing then validatePing header body context
      else if command = CommandPong then reject_if RejectCommandFields
        (\<not> allZero (drop 16 flds) \<or> length body \<noteq> 0 \<or> get64 (gslice 0 8 flds) = 0)
      else if command = CommandClientPing then reject_if RejectCommandFields
        (isZero16 (gslice 0 16 flds) \<or> get64 (gslice 16 24 flds) = 0 \<or> \<not> allZero (drop 32 flds)
         \<or> length body \<noteq> 0)
      else if command = CommandClientPong then reject_if RejectCommandFields
        (get64 (gslice 0 8 flds) = 0 \<or> \<not> allZero (drop 8 flds) \<or> length body \<noteq> 0)
      else if command = CommandRequest then validateRequest header body context
      else if command = CommandPrepare then validatePrepare header body context
      else if command = CommandPrepareOK then validatePrepareOK header body
      else if command = CommandReply then validateReply header body context
      else if command = CommandCommit then
        (let checkpointOp = get64 (gslice 48 56 flds); commit = get64 (gslice 56 64 flds)
         in reject_if RejectCommandFields
           (commit < checkpointOp \<or> get64 (gslice 64 72 flds) = 0 \<or> \<not> allZero (drop 72 flds)
            \<or> length body \<noteq> 0))
      else if command = CommandExitView then reject_if RejectCommandFields
        (\<not> allZero flds \<or> length body \<noteq> 0)
      else if command = CommandJoinView then validateJoinView header body context
      else if command = CommandView then validateView header body context
      else if command = CommandGetView then reject_if RejectCommandFields
        (isZero16 (gslice 0 16 flds) \<or> \<not> allZero (drop 16 flds) \<or> length body \<noteq> 0)
      else if command = CommandGetHeaders then reject_if RejectCommandFields
        (get64 (gslice 0 8 flds) > get64 (gslice 8 16 flds) \<or> \<not> allZero (drop 16 flds)
         \<or> length body \<noteq> 0)
      else if command = CommandHeaders then
        (if \<not> allZero flds \<or> length body = 0 \<or> length body mod 256 \<noteq> 0 \<or> length body div 256 > 64
         then RejectBodyShape
         else validateEmbeddedPrepareHeaders body context False)
      else if command = CommandGetPrepare then
        (let checksumZero = isZero16 (gslice 0 16 flds)
         in reject_if RejectCommandFields
           (\<not> allZero (gslice 16 32 flds) \<or> \<not> allZero (drop 40 flds) \<or> length body \<noteq> 0
            \<or> (View header = 0) = checksumZero))
      else if command = CommandGetReply then
        (if \<not> validGetReply flds body then RejectCommandFields else RejectNone)
      else if command = CommandEviction then
        (let reason = flds ! 127
         in reject_if RejectCommandFields
           (isZero16 (gslice 0 16 flds) \<or> \<not> allZero (gslice 16 127 flds) \<or> reason < EvictionNoSession
            \<or> reason > EvictionSessionReleaseMismatch \<or> length body \<noteq> 0))
      else if command = CommandGetBlocks then validateGetBlocks flds body context
      else if command = CommandBlock then
        (let blockType = flds ! 112
         in reject_if RejectCommandFields
           (get64 (gslice 96 104 flds) = 0 \<or> blockType < BlockFreeSet \<or> blockType > BlockValue
            \<or> \<not> allZero (drop 113 flds) \<or> length body = 0))
      else RejectCommand)"

definition ValidateSemantics :: "Header \<Rightarrow> bytes \<Rightarrow> ValidationContext \<Rightarrow> RejectReason" where
  "ValidateSemantics header body context =
     (if \<not> Authenticated context then RejectAuthentication
      else if ActiveCount context = 0 \<or> MemberCount context < ActiveCount context then RejectAuthor
      else if ReplicaSource context \<and> Sender context \<ge> MemberCount context then RejectAuthor
      else if \<not> ReplicaSource context \<and> Command header \<noteq> CommandRequest
           \<and> Command header \<noteq> CommandClientPing then RejectAuthentication
      else let primary = ucast (View header mod ucast (ActiveCount context)) :: ReplicaIndex
      in if \<not> validAuthor (Command header) (Author header) (Sender context) (ReplicaSource context) primary
      then RejectAuthor
      else if \<not> validRelease header context then RejectCommandFields
      else validateCommand header body context)"

section \<open>Loops\<close>

lemma bitsWithin_from_iff:
  "bitsWithin_from bits is \<longleftrightarrow> (\<forall>i \<in> set is. \<not> bit (bits ! (i div 8)) (i mod 8))"
  by (induction "is") (auto simp: and_exp_eq_0_iff_not_bit)

lemma bitsWithin_iff:
  "bitsWithin bits count \<longleftrightarrow>
     (\<forall>i. count \<le> i \<and> i < 8 * length bits \<longrightarrow> \<not> bit (bits ! (i div 8)) (i mod 8))"
  by (auto simp: bitsWithin_def bitsWithin_from_iff)

text \<open>The \<open>k\<close>-th entry of a body of 256-byte headers.\<close>

definition entry :: "bytes \<Rightarrow> nat \<Rightarrow> bytes" where
  "entry body k = gslice (k * 256) (k * 256 + 256) body"

definition entry_ok :: "ValidationContext \<Rightarrow> bool \<Rightarrow> bytes \<Rightarrow> bool" where
  "entry_ok context allowBlank e \<longleftrightarrow> allowBlank \<and> allZero e
     \<or> (\<exists>h. DecodeHeader e (ctx_Group context) (MessageSizeMax context) (MemberCount context) = (h, RejectNone)
            \<and> Command h = CommandPrepare)"

lemma entry_0 [simp]: "entry body 0 = gslice 0 256 body"
  by (simp add: entry_def)

lemma entry_Suc: "entry body (Suc k) = entry (drop 256 body) k"
  by (simp add: entry_def slice_drop)

lemma embedded_step:
  "body \<noteq> [] \<Longrightarrow> validateEmbeddedPrepareHeaders body context allowBlank =
     (if entry_ok context allowBlank (entry body 0)
      then validateEmbeddedPrepareHeaders (drop 256 body) context allowBlank else RejectBodyShape)"
  by (subst validateEmbeddedPrepareHeaders.simps)
     (auto simp: entry_ok_def Let_def split: prod.splits)

lemma embedded_headers_iff:
  assumes "length body = n * 256"
  shows "validateEmbeddedPrepareHeaders body context allowBlank =
    (if \<forall>k < n. entry_ok context allowBlank (entry body k) then RejectNone else RejectBodyShape)"
  using assms
proof (induction n arbitrary: body)
  case 0
  then show ?case by (subst validateEmbeddedPrepareHeaders.simps) simp
next
  case (Suc n)
  have "body \<noteq> []" using Suc.prems by auto
  moreover have "validateEmbeddedPrepareHeaders (drop 256 body) context allowBlank =
    (if \<forall>k < n. entry_ok context allowBlank (entry body (Suc k)) then RejectNone else RejectBodyShape)"
    using Suc.prems by (subst Suc.IH) (simp_all add: entry_Suc)
  ultimately show ?case
    by (auto simp: embedded_step less_Suc_eq_0_disj)
qed

text \<open>The release list of a ping.\<close>

definition ping_release :: "bytes \<Rightarrow> nat \<Rightarrow> Release" where
  "ping_release body i = get32 (gslice (i * 4) (i * 4 + 4) body)"

lemma ping_loop_listed:
  assumes "k \<le> count" "count \<le> n"
  shows "validatePing_loop h body count [k..<n] prev seen = RejectNone \<longleftrightarrow>
    sorted_wrt (<) (prev # map (ping_release body) [k..<count])
    \<and> (seen \<or> Release h \<in> ping_release body ` {k..<count})
    \<and> (\<forall>i \<in> {count..<n}. ping_release body i = 0)"
  using assms
proof (induction "n - k" arbitrary: k prev seen)
  case 0
  then show ?case by simp
next
  case (Suc d)
  then have k: "k < n" by simp
  note unroll = upt_conv_Cons [OF k]
  show ?case
  proof (cases "k < count")
    case True
    let ?r = "ping_release body k"
    have range: "{k..<count} = insert k {Suc k..<count}" using True by auto
    have "validatePing_loop h body count [k..<n] prev seen = RejectNone \<longleftrightarrow>
        prev < ?r \<and> validatePing_loop h body count [Suc k..<n] ?r (seen \<or> ?r = Release h) = RejectNone"
      using True by (simp add: unroll ping_release_def Let_def not_le word_gt_0) (auto dest: leD)
    also have "\<dots> \<longleftrightarrow> prev < ?r \<and> sorted_wrt (<) (?r # map (ping_release body) [Suc k..<count])
        \<and> ((seen \<or> ?r = Release h) \<or> Release h \<in> ping_release body ` {Suc k..<count})
        \<and> (\<forall>i \<in> {count..<n}. ping_release body i = 0)"
      by (subst Suc.hyps(1)) (use Suc.hyps(2) Suc.prems True in simp_all)
    also have "\<dots> \<longleftrightarrow> sorted_wrt (<) (prev # map (ping_release body) [k..<count])
        \<and> (seen \<or> Release h \<in> ping_release body ` {k..<count})
        \<and> (\<forall>i \<in> {count..<n}. ping_release body i = 0)"
      unfolding range upt_conv_Cons [OF True] list.map sorted_wrt2 [OF transp_on_less] image_insert insert_iff
      by metis
    finally show ?thesis .
  next
    case False
    then have c: "count = k" using Suc.prems by simp
    have tail: "validatePing_loop h body k [j..<n] prev seen = RejectNone
        \<longleftrightarrow> seen \<and> (\<forall>i \<in> {j..<n}. ping_release body i = 0)" if "k \<le> j" for j
      using that
    proof (induction "n - j" arbitrary: j)
      case (Suc m)
      then have "j < n" by simp
      then have "{j..<n} = insert j {Suc j..<n}" by auto
      then show ?case
        using Suc by (simp add: upt_conv_Cons [OF \<open>j < n\<close>] Let_def ping_release_def)
    qed simp
    show ?thesis by (simp add: c tail)
  qed
qed

lemma validateCommand_undefined:
  "validateCommand h body context = RejectNone \<Longrightarrow> command_IsDefined (Command h)"
  by (auto simp: validateCommand_def command_IsDefined_def Let_def split: if_splits)

lemma ValidateSemantics_accepts:
  assumes "ValidateSemantics h body context = RejectNone"
  shows "Authenticated context" "ActiveCount context \<noteq> 0"
    "ActiveCount context \<le> MemberCount context"
    "ReplicaSource context \<Longrightarrow> Sender context < MemberCount context"
    "\<not> ReplicaSource context \<Longrightarrow> Command h = CommandRequest \<or> Command h = CommandClientPing"
    "validAuthor (Command h) (Author h) (Sender context) (ReplicaSource context)
       (ucast (View h mod ucast (ActiveCount context)))"
    "validRelease h context" "validateCommand h body context = RejectNone"
  using assms by (auto simp: ValidateSemantics_def Let_def not_le not_less split: if_splits)

lemma unat_primary:
  fixes view :: u32 and active :: u8
  assumes "active \<noteq> 0"
  shows "unat (ucast (view mod ucast active) :: u8) = unat view mod unat active"
proof -
  have small: "unat active < 256" using unsigned_less [of active] by (simp add: word_size)
  then have active: "unat (ucast active :: u32) = unat active"
    by (simp add: unsigned_ucast_eq take_bit_nat_eq_self)
  have "unat view mod unat active < unat active" using assms by (simp add: unat_gt_0)
  then show ?thesis
    using small by (simp add: unsigned_ucast_eq unat_mod active take_bit_nat_eq_self)
qed

section \<open>Properties\<close>

text \<open>A context of a cluster of three, for the examples below.\<close>

definition example_context :: ValidationContext where
  "example_context = \<lparr>Authenticated = True, ReplicaSource = True, Sender = 1, ActiveCount = 3,
     MemberCount = 3, PipelineMax = 8, ReleaseHistoryMax = 4, ApplicationBatchSizeMax = 1024,
     ApplicationReplySizeMax = 1024, RepairRequestsMax = 16, CurrentRelease = 2, ClientReleaseMin = 1,
     ctx_Group = replicate 16 0, MessageSizeMax = 4096\<rparr>"



text \<open>
  C27: No root prepare and no reserved prepare passes semantic validation. The identity check of
  such a prepare asks whether a slice of 32 bytes is a zero array of 16 bytes, which is false
  whatever the bytes are.
\<close>

theorem ValidateSemantics_root_prepare:
  assumes "header_wf h" "Command h = CommandPrepare"
    and "Fields h ! 124 = OperationRoot \<or> Fields h ! 124 = OperationReserved"
  shows "ValidateSemantics h body context \<noteq> RejectNone"
proof
  assume "ValidateSemantics h body context = RejectNone"
  then have "validatePrepare h body context = RejectNone"
    using ValidateSemantics_accepts(8) [of h body "context"] assms(2) by (simp add: validateCommand_def Let_def)
  moreover have "\<not> validRootPrepare (Fields h) body op commit timestamp" for op commit timestamp
    using assms(1) by (simp add: validRootPrepare_def isZero16_def header_wf_def)
  ultimately show False
    using assms(3) by (auto simp: validatePrepare_def Let_def split: if_splits)
qed

theorem ValidateSemantics_root_prepare_witness:
  "ValidateSemantics (zeroHeader\<lparr>Command := CommandPrepare, Fields := (replicate 128 0)[124 := OperationRoot]\<rparr>)
     [] example_context \<noteq> RejectNone"
  by (rule ValidateSemantics_root_prepare) (simp_all add: header_wf_def zeroHeader_def)


text \<open>
  C31: A ping is accepted exactly when its clock field and its release count are set, the body
  has the fixed length of the release history, the first \<open>count\<close> releases increase strictly
  from above zero and contain the release of the sender, and the remaining slots are zero.
\<close>

theorem validatePing_iff:
  "validatePing h body context = RejectNone \<longleftrightarrow>
     (let f = Fields h; n = unat (ReleaseHistoryMax context); count = unat (get16 (gslice 32 34 f)) in
        get64 (gslice 24 32 f) \<noteq> 0 \<and> 0 < count \<and> count \<le> n \<and> allZero (drop 34 f) \<and> length body = n * 4
        \<and> sorted_wrt (<) (0 # map (ping_release body) [0..<count])
        \<and> Release h \<in> set (map (ping_release body) [0..<count])
        \<and> list_all (\<lambda>i. ping_release body i = 0) [count..<n])"
proof -
  let ?c = "get16 (gslice 32 34 (Fields h))" and ?n = "ReleaseHistoryMax context"
  show ?thesis
  proof (cases "?c \<noteq> 0 \<and> ?c \<le> ?n")
    case True
    then have "unat ?c \<le> unat ?n" by (simp add: word_le_nat_alt)
    then show ?thesis
      unfolding validatePing_def Let_def
      using True ping_loop_listed [of 0 "unat ?c" "unat ?n" h body 0 False]
      by (auto simp: list_all_iff not_less word_gt_0 unat_gt_0 atLeast0LessThan)
  next
    case False
    then show ?thesis
      by (auto simp: validatePing_def Let_def unat_gt_0 word_le_nat_alt word_less_nat_alt)
  qed
qed

end
