(* ===== verification/Checked_Arith.thy ===== *)
theory Checked_Arith
  imports Prelude
begin

text \<open>
  Overflow-checked and saturating arithmetic: \<^verbatim>\<open>replication/checked.go\<close>, the saturating
  helpers at the end of \<^verbatim>\<open>replication/clock.go\<close> and \<^verbatim>\<open>replication/timeout.go\<close>, and
  \<^verbatim>\<open>elapsedSince\<close> of \<^verbatim>\<open>replication/repair_budget.go\<close>. The specifications in
  \<open>arith_specs\<close> read every operation as arithmetic on unbounded naturals or integers, and
  are what the other components use; no proof outside this theory unfolds an operation.
\<close>

abbreviation MaxUint64 :: u64 where "MaxUint64 \<equiv> 0xFFFFFFFFFFFFFFFF"

section \<open>Checked operations\<close>

definition checkedAdd :: "u64 \<Rightarrow> u64 \<Rightarrow> u64 option" where
  "checkedAdd left right = (if right > MaxUint64 - left then None else Some (left + right))"

definition checkedMul :: "u64 \<Rightarrow> u64 \<Rightarrow> u64 option" where
  "checkedMul left right =
     (if left \<noteq> 0 \<and> right > MaxUint64 div left then None else Some (left * right))"

definition checkedAlignUp :: "u64 \<Rightarrow> u64 \<Rightarrow> u64 option" where
  "checkedAlignUp val alignment =
     (if alignment = 0 \<or> alignment AND (alignment - 1) \<noteq> 0 then None
      else do {
        added \<leftarrow> checkedAdd val (alignment - 1);
        Some (added AND NOT (alignment - 1))
      })"

definition checkedRoundUp :: "u64 \<Rightarrow> u64 \<Rightarrow> u64 option" where
  "checkedRoundUp val multiple =
     (if multiple = 0 then None
      else let remainder = val mod multiple in
        if remainder = 0 then Some val
        else checkedAdd val (multiple - remainder))"

section \<open>Saturating operations\<close>

definition saturatingAdd :: "u64 \<Rightarrow> u64 \<Rightarrow> u64" where
  "saturatingAdd left right = (if MaxUint64 - left < right then MaxUint64 else left + right)"

definition saturatingMultiply :: "u64 \<Rightarrow> u64 \<Rightarrow> u64" where
  "saturatingMultiply left right =
     (if left \<noteq> 0 \<and> right > MaxUint64 div left then MaxUint64 else left * right)"

definition saturatingShift :: "u64 \<Rightarrow> u8 \<Rightarrow> u64" where
  "saturatingShift val exponent =
     (if exponent \<ge> 64 \<or> val > drop_bit (unat exponent) MaxUint64 then MaxUint64
      else push_bit (unat exponent) val)"

definition elapsedSince :: "u64 \<Rightarrow> u64 \<Rightarrow> u64" where
  "elapsedSince start now = (if now \<le> start then 0 else now - start)"

section \<open>Signed helpers\<close>

text \<open>
  A Go \<^verbatim>\<open>int64\<close> is a 64-bit word read through \<^const>\<open>sint\<close>; its arithmetic is the
  word arithmetic, which wraps.
\<close>

type_synonym i64 = "64 word"

abbreviation MaxInt64 :: i64 where "MaxInt64 \<equiv> 0x7FFFFFFFFFFFFFFF"
abbreviation MinInt64 :: i64 where "MinInt64 \<equiv> 0x8000000000000000"

definition signedDifference :: "u64 \<Rightarrow> u64 \<Rightarrow> i64" where
  "signedDifference left right =
     (if left \<ge> right then
        let difference = left - right in if difference > MaxInt64 then MaxInt64 else difference
      else
        let difference = right - left in if difference > MaxInt64 then MinInt64 else - difference)"

fun saturatingSignedLoop :: "u64 \<Rightarrow> u64 list \<Rightarrow> i64" where
  "saturatingSignedLoop acc [] = (if acc > MaxInt64 then MaxInt64 else acc)"
| "saturatingSignedLoop acc (val # vals) =
     (if MaxUint64 - acc < val then MaxInt64 else saturatingSignedLoop (acc + val) vals)"

definition saturatingSigned :: "u64 list \<Rightarrow> i64" where
  "saturatingSigned vals = saturatingSignedLoop 0 vals"

definition saturatingAddInt64 :: "i64 \<Rightarrow> i64 \<Rightarrow> i64" where
  "saturatingAddInt64 left right =
     (if sint right > 0 \<and> sint left > sint (MaxInt64 - right) then MaxInt64
      else if sint right < 0 \<and> sint left < sint (MinInt64 - right) then MinInt64
      else left + right)"

definition saturatingSubtractInt64 :: "i64 \<Rightarrow> i64 \<Rightarrow> i64" where
  "saturatingSubtractInt64 left right =
     (if right = MinInt64 then MaxInt64 else saturatingAddInt64 left (- right))"

definition signedWidth :: "i64 \<Rightarrow> i64 \<Rightarrow> u64" where
  "signedWidth lower upper = (if sint upper < sint lower then MaxUint64 else upper - lower)"

definition addSigned :: "u64 \<Rightarrow> i64 \<Rightarrow> u64" where
  "addSigned val offset =
     (if sint offset \<ge> 0 then saturatingAdd val offset
      else let magnitude = - (offset + 1) + 1 in
        if magnitude > val then 0 else val - magnitude)"

section \<open>Specifications\<close>

lemma unat_less_pow64: "unat (x :: u64) < 18446744073709551616"
  using unat_less64 [of x] by simp

lemma unat_max_minus: "unat (MaxUint64 - x) = 18446744073709551615 - unat (x :: u64)"
proof -
  have "x \<le> MaxUint64" using unat_less_pow64 [of x] by (simp add: word_le_nat_alt)
  then show ?thesis by (simp add: unat_sub)
qed

lemma checkedAdd_eq_Some [arith_specs]:
  "checkedAdd a b = Some c \<longleftrightarrow> unat a + unat b < 2 ^ 64 \<and> unat c = unat a + unat b"
  using unat_less_pow64 [of a] unat_less_pow64 [of b]
  by (auto simp: checkedAdd_def word_less_nat_alt unat_max_minus unat_word_ariths
        intro: word_unat_eq_iff [THEN iffD2])

lemma checkedAdd_eq_None [arith_specs]:
  "checkedAdd a b = None \<longleftrightarrow> 2 ^ 64 \<le> unat a + unat b"
  using unat_less_pow64 [of a] unat_less_pow64 [of b]
  by (auto simp: checkedAdd_def word_less_nat_alt unat_max_minus)

lemma mult_fits_iff:
  fixes m n k :: nat
  assumes "0 < m"
  shows "n \<le> k div m \<longleftrightarrow> m * n \<le> k"
  using assms by (metis less_eq_div_iff_mult_less_eq mult.commute)

lemma checkedMul_guard:
  "(left \<noteq> 0 \<and> right > MaxUint64 div left) \<longleftrightarrow> 2 ^ 64 \<le> unat left * unat (right :: u64)"
proof (cases "left = 0")
  case False
  then have "0 < unat left" by (simp add: unat_gt_0)
  from mult_fits_iff [OF this, of "unat right" 18446744073709551615] False show ?thesis
    by (auto simp: word_less_nat_alt unat_div not_le)
qed simp

lemma checkedMul_eq_Some [arith_specs]:
  "checkedMul a b = Some c \<longleftrightarrow> unat a * unat b < 2 ^ 64 \<and> unat c = unat a * unat b"
  unfolding checkedMul_def checkedMul_guard
  by (auto simp: unat_word_ariths not_le intro: word_unat_eq_iff [THEN iffD2])

lemma checkedMul_eq_None [arith_specs]:
  "checkedMul a b = None \<longleftrightarrow> 2 ^ 64 \<le> unat a * unat b"
  unfolding checkedMul_def checkedMul_guard by auto

text \<open>The bit trick \<open>n & (n - 1) = 0\<close> tests for a power of two.\<close>

lemma nat_and_pred_power2:
  "0 < (n :: nat) \<Longrightarrow> n AND (n - 1) = 0 \<Longrightarrow> \<exists>k. n = 2 ^ k"
proof (induction n rule: less_induct)
  case (less n)
  show ?case
  proof (cases "even n")
    case True
    then obtain m where n: "n = 2 * m" by blast
    with less.prems have m: "0 < m" by simp
    have "n AND (n - 1) = 2 * (m AND (m - 1))"
    proof -
      have "(2 * m - Suc 0) div 2 = m - Suc 0" using m by (cases m) auto
      then show ?thesis using n m by (subst and_rec) simp
    qed
    with less.prems m n less.IH [of m] obtain k where "m = 2 ^ k" by auto
    with n show ?thesis by (metis power_Suc)
  next
    case False
    then obtain m where n: "n = 2 * m + 1" by (auto elim: oddE)
    have "n AND (n - 1) = 2 * m"
      using n by (subst and_rec) simp
    with less.prems n show ?thesis by (metis add_0 mult_0_right power_0)
  qed
qed

lemma unat_pow2 [simp]: "k < 64 \<Longrightarrow> unat (2 ^ k :: u64) = 2 ^ k"
proof -
  assume "k < 64"
  then have "(2::nat) ^ k < 2 ^ 64" by (intro power_strict_increasing) simp_all
  then show ?thesis
    using unsigned_of_nat [of "2 ^ k", where ?'a = nat and ?'b = 64]
    using \<open>k < 64\<close> by (simp add: take_bit_nat_eq_self)
qed

lemma word_and_pred_power2:
  fixes a :: u64
  assumes "a \<noteq> 0" "a AND (a - 1) = 0"
  obtains k where "k < 64" "a = push_bit k 1" "unat a = 2 ^ k"
proof -
  have pos: "0 < unat a" using assms(1) by (simp add: unat_gt_0)
  have "unat a AND unat (a - 1) = 0"
    using assms(2) by (metis unsigned_and_eq unsigned_0)
  moreover have "unat (a - 1) = unat a - 1" using assms(1) by (simp add: unat_minus_one)
  ultimately obtain k where k: "unat a = 2 ^ k" using nat_and_pred_power2 pos by metis
  with unat_less64 [of a] have "k < 64" by (metis power_less_imp_less_exp one_less_numeral_iff semiring_norm(76))
  moreover from k \<open>k < 64\<close> have "a = push_bit k 1"
    by (intro word_unat_eq_iff [THEN iffD2]) simp
  ultimately show ?thesis using that k by blast
qed

lemma power2_and_pred: "(push_bit k 1 :: u64) AND (push_bit k 1 - 1) = 0"
proof -
  have "(push_bit k 1 :: u64) AND (push_bit k 1 - 1) = take_bit k (push_bit k 1)"
    by (simp add: take_bit_eq_mask mask_eq_exp_minus_1)
  also have "\<dots> = 0" by (simp only: take_bit_push_bit) simp
  finally show ?thesis .
qed

lemma unat_and_not_mask:
  "unat (x AND NOT (mask k)) = unat (x :: u64) div 2 ^ k * 2 ^ k"
proof -
  have eq: "x AND NOT (mask k) = push_bit k (drop_bit k x)"
    by (rule bit_word_eqI) (auto simp: bit_simps)
  have "unat x div 2 ^ k * 2 ^ k < 2 ^ 64"
    using unat_less64 [of x] div_times_less_eq_dividend [of "unat x" "2 ^ k"] by linarith
  then have "take_bit 64 (push_bit k (drop_bit k (unat x))) = unat x div 2 ^ k * 2 ^ k"
    by (simp only: push_bit_eq_mult drop_bit_eq_div take_bit_nat_eq_self)
  moreover have "unat (push_bit k (drop_bit k x)) = take_bit 64 (push_bit k (drop_bit k (unat x)))"
    by (simp only: unsigned_push_bit_eq unat_drop_bit_eq) simp
  ultimately show ?thesis by (simp only: eq)
qed

lemma checkedAlignUp_eq_Some [arith_specs]:
  "checkedAlignUp v a = Some c \<longleftrightarrow>
     (\<exists>k < 64. unat a = 2 ^ k) \<and> unat v + (unat a - 1) < 2 ^ 64 \<and>
     unat c = (unat v + (unat a - 1)) div unat a * unat a" (is "?l \<longleftrightarrow> ?r")
proof (cases "a = 0 \<or> a AND (a - 1) \<noteq> 0")
  case True
  then have "\<not> ?l" by (simp add: checkedAlignUp_def)
  moreover have "\<not> (\<exists>k < 64. unat a = 2 ^ k)"
  proof
    assume "\<exists>k < 64. unat a = 2 ^ k"
    then obtain k where k: "k < 64" "unat a = 2 ^ k" by blast
    then have "a = push_bit k 1"
      by (intro word_unat_eq_iff [THEN iffD2]) simp
    with power2_and_pred [of k] True k show False by auto
  qed
  ultimately show ?thesis by blast
next
  case False
  then obtain k where k: "k < 64" "a = push_bit k 1" "unat a = 2 ^ k"
    using word_and_pred_power2 by blast
  have pred: "unat (a - 1) = unat a - 1" using False by (simp add: unat_minus_one)
  have mask: "a - 1 = mask k" using k(2) by (simp add: mask_eq_exp_minus_1 push_bit_eq_mult)
  show ?thesis
  proof (cases "checkedAdd v (a - 1)")
    case None
    with False show ?thesis
      by (auto simp: checkedAlignUp_def) (use None pred in \<open>simp add: checkedAdd_eq_None\<close>)
  next
    case (Some d)
    then have "unat v + (unat a - 1) < 2 ^ 64" "unat d = unat v + (unat a - 1)"
      by (simp_all add: checkedAdd_eq_Some pred)
    moreover have "?l \<longleftrightarrow> c = d AND NOT (mask k)"
      using False Some by (auto simp: checkedAlignUp_def mask)
    ultimately show ?thesis
      using k(1,3) by (auto simp: unat_and_not_mask word_unat_eq_iff [of c])
  qed
qed

lemma checkedRoundUp_eq_Some [arith_specs]:
  "checkedRoundUp v m = Some c \<longleftrightarrow>
     m \<noteq> 0 \<and> (unat v + (unat m - 1)) div unat m * unat m < 2 ^ 64 \<and>
     unat c = (unat v + (unat m - 1)) div unat m * unat m"
proof (cases "m = 0")
  case True
  then show ?thesis by (simp add: checkedRoundUp_def)
next
  case False
  define q r where "q = unat v div unat m" and "r = unat v mod unat m"
  have pos: "0 < unat m" using False by (simp add: unat_gt_0)
  have v: "unat v = q * unat m + r" "r < unat m"
    using pos by (simp_all add: q_def r_def)
  have r: "unat (v mod m) = r" by (simp add: r_def unat_mod)
  show ?thesis
  proof (cases "r = 0")
    case True
    then have "v mod m = 0" using r by (simp add: unat_eq_zero)
    moreover have "(unat v + (unat m - 1)) div unat m = q"
      using v True pos div_mult_self3 [of "unat m" q "unat m - 1"]
      by (simp add: mult.commute add.commute)
    ultimately show ?thesis
      using False v True unat_less64 [of v]
      by (auto simp: checkedRoundUp_def word_unat_eq_iff [of c] word_unat_eq_iff [of v])
  next
    case False': False
    then have nz: "v mod m \<noteq> 0" using r by (metis unsigned_0)
    have "unat v + (unat m - 1) = Suc q * unat m + (r - 1)"
      using v False' by simp
    moreover have "r - 1 < unat m" using v by simp
    ultimately have up: "(unat v + (unat m - 1)) div unat m = Suc q"
      by (metis add.right_neutral add_diff_cancel_right' div_less div_mult_self3 less_nat_zero_code mult.commute nat_neq_iff add.commute)
    have "v mod m \<le> m" using r v by (simp add: word_le_nat_alt)
    then have "unat (m - v mod m) = unat m - r" by (simp add: unat_sub r)
    with up nz False v show ?thesis
      by (auto simp: checkedRoundUp_def Let_def checkedAdd_eq_Some)
  qed
qed

lemma saturatingAdd_spec [arith_specs]:
  "unat (saturatingAdd a b) = min (2 ^ 64 - 1) (unat a + unat b)"
  using unat_less_pow64 [of a] unat_less_pow64 [of b]
  by (auto simp: saturatingAdd_def word_less_nat_alt unat_max_minus unat_word_ariths)

lemma saturatingMultiply_spec [arith_specs]:
  "unat (saturatingMultiply a b) = min (2 ^ 64 - 1) (unat a * unat b)"
  unfolding saturatingMultiply_def checkedMul_guard
  by (auto simp: unat_word_ariths)

lemma saturatingShift_spec [arith_specs]:
  assumes "v \<noteq> 0"
  shows "unat (saturatingShift v e) = min (2 ^ 64 - 1) (unat v * 2 ^ unat e)"
proof (cases "e \<ge> 64")
  case True
  then have "64 \<le> unat e" by (simp add: word_le_nat_alt)
  then have "(2::nat) ^ 64 \<le> 2 ^ unat e" by (rule power_increasing) simp
  moreover have "0 < unat v" using assms by (simp add: unat_gt_0)
  ultimately have "2 ^ 64 \<le> unat v * 2 ^ unat e"
    by (metis One_nat_def Suc_leI mult_le_mono nat_mult_1)
  then show ?thesis using True by (simp add: saturatingShift_def)
next
  case False
  have "unat (drop_bit (unat e) MaxUint64) = 18446744073709551615 div 2 ^ unat e"
    by (subst unat_drop_bit_eq) (simp add: drop_bit_eq_div)
  then have "v > drop_bit (unat e) MaxUint64 \<longleftrightarrow> \<not> unat v * 2 ^ unat e \<le> 18446744073709551615"
    using mult_fits_iff [of "2 ^ unat e" "unat v" 18446744073709551615]
    by (simp only: word_less_nat_alt) (auto simp: not_le mult.commute)
  moreover have "unat (push_bit (unat e) v) = take_bit 64 (unat v * 2 ^ unat e)"
    by (subst unsigned_push_bit_eq) (simp add: push_bit_eq_mult)
  ultimately show ?thesis
    using False by (auto simp: saturatingShift_def take_bit_nat_eq_self)
qed

lemma elapsedSince_spec [arith_specs]: "unat (elapsedSince start now) = unat now - unat start"
  by (auto simp: elapsedSince_def word_le_nat_alt unat_sub)

section \<open>Signed specifications\<close>

lemma sint_cases64:
  "sint (w :: i64) = (if uint w < 2 ^ 63 then uint w else uint w - 2 ^ 64)"
proof -
  have "sint w = signed_take_bit 63 (uint w)" by (simp add: sint_uint)
  also have "\<dots> = (uint w + 2 ^ 63) mod 2 ^ 64 - 2 ^ 63"
    by (simp add: signed_take_bit_eq_take_bit_shift take_bit_eq_mod)
  also have "\<dots> = (if uint w < 2 ^ 63 then uint w else uint w - 2 ^ 64)"
  proof (cases "uint w < 2 ^ 63")
    case True
    then show ?thesis by (simp add: mod_pos_pos_trivial)
  next
    case False
    have "(uint w + 2 ^ 63) mod 2 ^ 64 = (uint w - 2 ^ 63) mod 2 ^ 64"
      using mod_add_self2 [of "uint w - 2 ^ 63" "2 ^ 64"] by (simp add: add.commute)
    with False uint_lt2p [of w] show ?thesis by (simp add: mod_pos_pos_trivial)
  qed
  finally show ?thesis .
qed

lemma uint_range64: "0 \<le> uint (w :: 64 word)" "uint (w :: 64 word) < 18446744073709551616"
  using uint_lt2p [of w] by simp_all

lemma uint_add64:
  "uint (a + b :: 64 word) =
     (if uint a + uint b < 2 ^ 64 then uint a + uint b else uint a + uint b - 2 ^ 64)"
  by (simp add: uint_plus_if')

lemma uint_sub64:
  "uint (a - b :: 64 word) =
     (if uint b \<le> uint a then uint a - uint b else uint a - uint b + 2 ^ 64)"
  by (simp add: uint_sub_if')

lemma uint_uminus64: "uint (- a :: 64 word) = (if uint a = 0 then 0 else 2 ^ 64 - uint a)"
  using uint_sub64 [of 0 a] uint_range64 [of a] by auto

lemmas signed_simps = sint_cases64 uint_add64 uint_sub64 uint_uminus64 word_le_def word_less_def

lemma signedDifference_spec [arith_specs]:
  "sint (signedDifference a b) = max (- (2 ^ 63)) (min (2 ^ 63 - 1) (uint a - uint b))"
  using uint_range64 [of a] uint_range64 [of b]
  by (auto simp: signedDifference_def Let_def signed_simps)

lemma saturatingSignedLoop_spec:
  "sint (saturatingSignedLoop acc vals) =
     min (2 ^ 63 - 1) (uint acc + sum_list (map uint vals))"
proof (induction vals arbitrary: acc)
  case Nil
  then show ?case using uint_range64 [of acc] by (auto simp: signed_simps)
next
  case (Cons v vals)
  have "0 \<le> sum_list (map uint vals)" by (intro sum_list_nonneg) auto
  with Cons.IH [of "acc + v"] uint_range64 [of acc] uint_range64 [of v] show ?case
    by (auto simp: word_less_def uint_sub64 uint_add64 sint_cases64 [of MaxInt64])
qed

lemma saturatingSigned_spec [arith_specs]:
  "sint (saturatingSigned vals) = min (2 ^ 63 - 1) (sum_list (map uint vals))"
  by (simp add: saturatingSigned_def saturatingSignedLoop_spec)

lemma sint_range64: "- 9223372036854775808 \<le> sint (w :: i64)" "sint w < 9223372036854775808"
  using sint_range_size [of w] by (simp_all add: word_size)

lemma sint_add_noof:
  "- (2 ^ 63) \<le> sint a + sint b \<Longrightarrow> sint a + sint b < 2 ^ 63 \<Longrightarrow> sint (a + b :: i64) = sint a + sint b"
  by (simp add: sint_word_ariths signed_take_bit_int_eq_self)

lemma sint_sub_noof:
  "- (2 ^ 63) \<le> sint a - sint b \<Longrightarrow> sint a - sint b < 2 ^ 63 \<Longrightarrow> sint (a - b :: i64) = sint a - sint b"
  by (simp add: sint_word_ariths signed_take_bit_int_eq_self)

lemma saturatingAddInt64_spec [arith_specs]:
  "sint (saturatingAddInt64 a b) = max (- (2 ^ 63)) (min (2 ^ 63 - 1) (sint a + sint b))"
proof -
  note ranges = sint_range64 [of a] sint_range64 [of b]
  have hi: "sint (MaxInt64 - b) = 2 ^ 63 - 1 - sint b" if "0 < sint b"
    using that ranges sint_sub_noof [of MaxInt64 b] by simp
  have lo: "sint (MinInt64 - b) = - (2 ^ 63) - sint b" if "sint b < 0"
    using that ranges sint_sub_noof [of MinInt64 b] by simp
  show ?thesis
    using ranges hi lo sint_add_noof [of a b]
    by (cases "0 < sint b"; cases "sint b < 0") (simp_all add: saturatingAddInt64_def)
qed

lemma saturatingSubtractInt64_spec [arith_specs]:
  "b \<noteq> MinInt64 \<Longrightarrow>
   sint (saturatingSubtractInt64 a b) = max (- (2 ^ 63)) (min (2 ^ 63 - 1) (sint a - sint b))"
proof -
  assume "b \<noteq> MinInt64"
  moreover have "sint (- b) = - sint b"
    using \<open>b \<noteq> MinInt64\<close> uint_range64 [of b]
    by (auto simp: signed_simps word_uint_eq_iff; linarith)
  ultimately show ?thesis
    by (simp add: saturatingSubtractInt64_def saturatingAddInt64_spec)
qed

lemma signedWidth_spec [arith_specs]:
  "sint a \<le> sint b \<Longrightarrow> uint (signedWidth a b) = sint b - sint a"
  using uint_range64 [of a] uint_range64 [of b]
  by (auto simp: signedWidth_def signed_simps split: if_splits;
      insert uint_range64 [of a] uint_range64 [of b]; linarith)

lemma addSigned_spec [arith_specs]:
  "uint (addSigned v d) = max 0 (min (2 ^ 64 - 1) (uint v + sint d))"
  using uint_range64 [of v] uint_range64 [of d]
  by (auto simp: addSigned_def saturatingAdd_def Let_def signed_simps split: if_splits)

end
