(* ===== verification/Popcount.thy ===== *)
theory Popcount
  imports Checked_Arith
begin

text \<open>
  The parallel population count of \<^verbatim>\<open>replication/ewah.go\<close> and its correctness. A word is the
  list of its bytes; every step of the count acts on each byte alone, and its effect on one
  byte is checked for all 256 values.
\<close>

section \<open>Definition\<close>

definition populationCount :: "u64 \<Rightarrow> u8" where
  "populationCount val =
     (let v = val - (drop_bit 1 val AND 0x5555555555555555);
          v = (v AND 0x3333333333333333) + (drop_bit 2 v AND 0x3333333333333333);
          v = (v + drop_bit 4 v) AND 0x0f0f0f0f0f0f0f0f
      in ucast (drop_bit 56 (v * 0x0101010101010101)))"

section \<open>Bytes of a word\<close>

text \<open>Little-endian base-256 digits; the steps of the count work on each byte alone.\<close>

primrec digits :: "nat list \<Rightarrow> nat" where
  "digits [] = 0"
| "digits (d # ds) = d + 256 * digits ds"

primrec bytes_of :: "nat \<Rightarrow> nat \<Rightarrow> nat list" where
  "bytes_of 0 n = []"
| "bytes_of (Suc k) n = n mod 256 # bytes_of k (n div 256)"

lemma digits_bytes_of: "n < 256 ^ k \<Longrightarrow> digits (bytes_of k n) = n"
proof (induction k arbitrary: n)
  case (Suc k)
  then have "n div 256 < 256 ^ k" by (simp add: less_mult_imp_div_less mult.commute)
  then show ?case using Suc.IH by simp
qed simp

lemma length_bytes_of [simp]: "length (bytes_of k n) = k"
  by (induction k arbitrary: n) auto

lemma bytes_of_less: "\<forall>d \<in> set (bytes_of k n). d < 256"
  by (induction k arbitrary: n) auto

lemma and_take_bit:
  assumes "take_bit k (c :: nat) = c" "take_bit k x = y"
  shows "x AND c = y AND c"
proof -
  have "x AND c = take_bit k (x AND c)"
    by (metis assms(1) take_bit_and and.assoc take_bit_eq_mask and.commute)
  then show ?thesis by (simp add: assms)
qed

lemma and_split: "d < 256 \<Longrightarrow> c < 256 \<Longrightarrow> (d + 256 * r) AND (c + 256 * s) = (d AND c) + 256 * (r AND (s :: nat))"
proof -
  assume dc: "d < 256" "c < 256"
  have tb: "take_bit 8 (x + 256 * y) = x" "drop_bit 8 (x + 256 * y) = y" if "x < 256" for x y :: nat
    using that by (simp_all add: take_bit_eq_mod drop_bit_eq_div)
  let ?z = "(d + 256 * r) AND (c + 256 * s)"
  have "?z = take_bit 8 ?z + 256 * drop_bit 8 ?z"
    by (simp add: take_bit_eq_mod drop_bit_eq_div)
  also have "take_bit 8 ?z = d AND c" by (simp only: take_bit_and tb dc)
  also have "drop_bit 8 ?z = r AND s" by (simp only: drop_bit_and tb dc)
  finally show ?thesis .
qed

lemma digits_and_mask:
  assumes "c < 256"
  shows "\<forall>d \<in> set ds. d < 256 \<Longrightarrow>
    digits ds AND digits (replicate (length ds) c) = digits (map (\<lambda>d. d AND c) ds)"
  by (induction ds) (use assms in \<open>simp_all add: and_split\<close>)

text \<open>A shift by less than a byte under a mask that drops the bits of the next byte.\<close>

lemma shift_mask:
  assumes "c < 2 ^ (8 - s)" "s < 8"
  shows "\<forall>d \<in> set ds. d < 256 \<Longrightarrow>
    (digits ds div 2 ^ s) AND digits (replicate (length ds) c) = digits (map (\<lambda>d. (d div 2 ^ s) AND c) ds)"
proof (induction ds)
  case (Cons d ds)
  let ?r = "digits ds"
  have p: "(256 :: nat) = 2 ^ s * 2 ^ (8 - s)" using assms(2) by (simp flip: power_add)
  have c: "c < 256" using assms(1) power_increasing [of "8 - s" 8 "2 :: nat"] by simp
  have d: "d div 2 ^ s < 2 ^ (8 - s)" using Cons.prems p by (simp add: less_mult_imp_div_less mult.commute)
  have "(d + 256 * ?r) div 2 ^ s = d div 2 ^ s + 2 ^ (8 - s) * ?r"
    unfolding p by (simp add: mult.assoc)
  also have "\<dots> = (d div 2 ^ s + 2 ^ (8 - s) * (?r mod 2 ^ s)) + 256 * (?r div 2 ^ s)"
  proof -
    have "2 ^ (8 - s) * ?r = 2 ^ (8 - s) * (?r mod 2 ^ s + 2 ^ s * (?r div 2 ^ s))" by simp
    also have "\<dots> = 2 ^ (8 - s) * (?r mod 2 ^ s) + 2 ^ s * 2 ^ (8 - s) * (?r div 2 ^ s)"
      by (simp only: distrib_left mult.assoc mult.left_commute)
    finally show ?thesis by (simp only: p add.assoc)
  qed
  finally have sh: "(d + 256 * ?r) div 2 ^ s = (d div 2 ^ s + 2 ^ (8 - s) * (?r mod 2 ^ s)) + 256 * (?r div 2 ^ s)" .
  have low: "d div 2 ^ s + 2 ^ (8 - s) * (?r mod 2 ^ s) < 256"
  proof -
    have "?r mod 2 ^ s + 1 \<le> 2 ^ s" by (simp add: Suc_le_eq)
    then have "2 ^ (8 - s) * (?r mod 2 ^ s + 1) \<le> 2 ^ (8 - s) * (2 :: nat) ^ s" by (rule mult_le_mono2)
    then show ?thesis using d p by (simp add: mult.commute)
  qed
  have "(d div 2 ^ s + 2 ^ (8 - s) * (?r mod 2 ^ s)) AND c = (d div 2 ^ s) AND c"
  proof -
    have "take_bit (8 - s) c = c" using assms(1) by (simp add: take_bit_nat_eq_self_iff)
    moreover have "take_bit (8 - s) (d div 2 ^ s + 2 ^ (8 - s) * (?r mod 2 ^ s)) = d div 2 ^ s"
      using d by (simp add: take_bit_eq_mod)
    ultimately show ?thesis
      by (metis and_take_bit)
  qed
  then show ?case
    using Cons c low by (simp add: sh and_split)
qed simp

lemma digits_add: "digits (map f ds) + digits (map g ds) = digits (map (\<lambda>d. f d + g d) ds)"
  by (induction ds) auto

lemma digits_mono: "\<forall>d \<in> set ds. g d \<le> f d \<Longrightarrow> digits (map g ds) \<le> digits (map f ds)"
  by (induction ds) (auto intro: add_mono)

lemma digits_diff:
  "\<forall>d \<in> set ds. g d \<le> f d \<Longrightarrow> digits (map f ds) - digits (map g ds) = digits (map (\<lambda>d. f d - g d) ds)"
proof (induction ds)
  case (Cons d ds)
  then show ?case using digits_mono [of ds g f] by (simp add: diff_mult_distrib2)
qed simp

lemma digits_less: "\<forall>d \<in> set ds. d < 256 \<Longrightarrow> digits ds < 256 ^ length ds"
  by (induction ds) auto

lemma nibble_sum:
  "\<forall>d \<in> set ds. d mod 16 \<le> 4 \<and> d div 16 \<le> 4 \<Longrightarrow>
     digits ds mod 16 \<le> 4 \<and>
     (digits ds + digits ds div 16) AND digits (replicate (length ds) 15)
       = digits (map (\<lambda>d. d mod 16 + d div 16) ds)"
proof (induction ds)
  case (Cons d ds)
  let ?r = "digits ds"
  have lo: "d mod 16 \<le> 4" "d div 16 \<le> 4" "?r mod 16 \<le> 4" using Cons by auto
  have d: "d = 16 * (d div 16) + d mod 16" by simp
  have carry: "y = a + 16 * r \<Longrightarrow> r = m + 16 * q \<Longrightarrow> (x + 256 * r) + y = (x + a + 16 * m) + 256 * (r + q)"
    for y a r m q x :: nat by simp
  have sum: "(d + 256 * ?r) + (d + 256 * ?r) div 16
      = (d + d div 16 + 16 * (?r mod 16)) + 256 * (?r + ?r div 16)"
    by (rule carry) (simp_all add: mult.commute)
  have carry2: "x = 16 * a + b \<Longrightarrow> x + a + 16 * m = (b + a) + 16 * (a + m)" for x a b m :: nat by simp
  have small: "d + d div 16 + 16 * (?r mod 16) < 256" using lo d by linarith
  have "(d + d div 16 + 16 * (?r mod 16)) mod 16 = d mod 16 + d div 16"
  proof -
    have "d + d div 16 + 16 * (?r mod 16) = (d mod 16 + d div 16) + 16 * (d div 16 + ?r mod 16)"
      by (rule carry2) (rule d)
    then show ?thesis using lo by (simp only: mod_mult_self2) simp
  qed
  then have "(d + d div 16 + 16 * (?r mod 16)) AND 15 = d mod 16 + d div 16"
    using take_bit_eq_mask [of 4 "d + d div 16 + 16 * (?r mod 16)"]
    by (simp add: take_bit_eq_mod mask_eq_exp_minus_1)
  moreover have "(d + 256 * ?r) mod 16 = d mod 16"
    using mod_mult_self2 [of d 16 "16 * ?r"] by (simp only: mult.assoc [symmetric]) simp
  ultimately show ?case
    using Cons small lo by (simp only: digits.simps list.map length_Cons replicate_Suc sum and_split) simp
qed simp

lemma div_mod_top:
  fixes l p s h :: nat
  assumes "l < p" "s < 256"
  shows "(l + p * (s + 256 * h)) mod (p * 256) div p = s"
proof -
  have "(l + p * (s + 256 * h)) mod (p * 256) = (l + p * s) mod (p * 256)"
    by (simp add: distrib_left mult.assoc [symmetric] add.assoc [symmetric])
  also have "\<dots> = l + p * s"
  proof (rule mod_less)
    have "p * s + p \<le> p * 256" using assms(2) by (metis Suc_leI mult_Suc_right mult_le_mono2 add.commute)
    then show "l + p * s < p * 256" using assms(1) by linarith
  qed
  finally show ?thesis using assms(1) by simp
qed

lemma digits_sum_top:
  assumes "length ds = 8" "sum_list ds < 256" "\<forall>d \<in> set ds. d < 32"
  shows "(digits ds * 0x0101010101010101) mod 2 ^ 64 div 2 ^ 56 = sum_list ds"
proof -
  obtain a b c d e f g h where ds: "ds = [a, b, c, d, e, f, g, h]"
    using assms(1) by (auto simp: length_Suc_conv numeral_eq_Suc)
  let ?low = "a + 256 * (a + b) + 256 ^ 2 * (a + b + c) + 256 ^ 3 * (a + b + c + d)
    + 256 ^ 4 * (a + b + c + d + e) + 256 ^ 5 * (a + b + c + d + e + f) + 256 ^ 6 * (a + b + c + d + e + f + g)"
  let ?high = "(b + c + d + e + f + g + h) + 256 * (c + d + e + f + g + h) + 256 ^ 2 * (d + e + f + g + h)
    + 256 ^ 3 * (e + f + g + h) + 256 ^ 4 * (f + g + h) + 256 ^ 5 * (g + h) + 256 ^ 6 * h"
  have "digits ds * 0x0101010101010101 = ?low + 2 ^ 56 * (sum_list ds + 256 * ?high)"
    unfolding ds by simp
  moreover have "?low < 2 ^ 56"
    using assms(2) unfolding ds by simp
  ultimately show ?thesis
    using assms(2) div_mod_top [of ?low "2 ^ 56" "sum_list ds" ?high] by simp
qed

text \<open>The three steps of the count on one byte.\<close>

definition pairs :: "nat \<Rightarrow> nat" where "pairs d = d - ((d div 2 ^ 1) AND 0x55)"
definition nibbles :: "nat \<Rightarrow> nat" where "nibbles d = (d AND 0x33) + ((d div 2 ^ 2) AND 0x33)"
definition octet_sum :: "nat \<Rightarrow> nat" where "octet_sum d = d mod 16 + d div 16"
definition ones8 :: "nat \<Rightarrow> nat" where
  "ones8 d = of_bool (bit d 0) + of_bool (bit d 1) + of_bool (bit d 2) + of_bool (bit d 3)
     + of_bool (bit d 4) + of_bool (bit d 5) + of_bool (bit d 6) + of_bool (bit d 7)"

definition byte_ok :: "nat \<Rightarrow> bool" where
  "byte_ok d \<longleftrightarrow> pairs d < 256 \<and> nibbles (pairs d) < 256 \<and> nibbles (pairs d) mod 16 \<le> 4
     \<and> nibbles (pairs d) div 16 \<le> 4 \<and> octet_sum (nibbles (pairs d)) = ones8 d"

lemma byte_steps:
  assumes "d < 256"
  shows "byte_ok d"
proof -
  note defs = byte_ok_def pairs_def nibbles_def octet_sum_def ones8_def
  have "list_all byte_ok [2..<256]" by (simp add: defs bit_Suc_0_iff)
  then have "byte_ok d" if "2 \<le> d" using that assms
    by (simp only: list_all_iff set_upt atLeastLessThan_iff)
  moreover have "byte_ok 0" "byte_ok 1" by (simp_all add: defs bit_0 bit_Suc_0_iff)
  ultimately show ?thesis by (metis One_nat_def less_2_cases not_le)
qed

lemma replicate8: "replicate 8 x = [x, x, x, x, x, x, x, x]"
  by (simp add: numeral_eq_Suc)

lemma mask_digits:
  "unat (0x5555555555555555 :: u64) = digits (replicate 8 0x55)"
  "unat (0x3333333333333333 :: u64) = digits (replicate 8 0x33)"
  "unat (0x0f0f0f0f0f0f0f0f :: u64) = digits (replicate 8 15)"
  unfolding replicate8 by simp_all

lemma and_le_nat: "(m :: nat) AND n \<le> m"
  using AND_upper1 [of "int m" "int n"] by (simp flip: of_nat_and_eq)

lemma pairs_word:
  assumes "unat v = digits ds" "length ds = 8" "\<forall>d \<in> set ds. d < 256"
  shows "unat (v - (drop_bit 1 v AND 0x5555555555555555) :: u64) = digits (map pairs ds)"
proof -
  let ?s = "drop_bit 1 v AND 0x5555555555555555"
  have s: "unat ?s = digits (map (\<lambda>d. (d div 2 ^ 1) AND 0x55) ds)"
    unfolding unsigned_and_eq unat_drop_bit_eq mask_digits assms(1) unfolding drop_bit_eq_div
    using shift_mask [of "0x55" 1 ds] assms(2,3) by simp
  have le: "(d div 2 ^ 1) AND 0x55 \<le> d" for d :: nat
    by (rule le_trans [OF and_le_nat]) simp
  have "unat ?s \<le> unat v"
    unfolding s using digits_mono [of ds "\<lambda>d. (d div 2 ^ 1) AND 0x55" "\<lambda>d. d"] le assms(1) by simp
  then have "unat (v - ?s) = digits (map (\<lambda>d. d) ds) - unat ?s"
    using assms(1) by (simp add: unat_sub word_le_nat_alt)
  then show ?thesis
    unfolding s using digits_diff [of ds "\<lambda>d. (d div 2 ^ 1) AND 0x55" "\<lambda>d. d"] le
    by (simp add: pairs_def [abs_def])
qed

lemma nibbles_word:
  assumes "unat v = digits ds" "length ds = 8" "\<forall>d \<in> set ds. d < 256" "\<forall>d \<in> set ds. nibbles d < 256"
  shows "unat ((v AND 0x3333333333333333) + (drop_bit 2 v AND 0x3333333333333333) :: u64) = digits (map nibbles ds)"
proof -
  have lo: "unat (v AND 0x3333333333333333) = digits (map (\<lambda>d. d AND 0x33) ds)"
    unfolding unsigned_and_eq mask_digits assms(1)
    using digits_and_mask [of "0x33" ds] assms(2,3) by simp
  have hi: "unat (drop_bit 2 v AND 0x3333333333333333) = digits (map (\<lambda>d. (d div 2 ^ 2) AND 0x33) ds)"
    unfolding unsigned_and_eq unat_drop_bit_eq mask_digits assms(1) unfolding drop_bit_eq_div
    using shift_mask [of "0x33" 2 ds] assms(2,3) by simp
  have "digits (map nibbles ds) < 2 ^ 64"
    using digits_less [of "map nibbles ds"] assms(2,4) by simp
  moreover have "unat (v AND 0x3333333333333333) + unat (drop_bit 2 v AND 0x3333333333333333)
      = digits (map nibbles ds)"
    unfolding lo hi nibbles_def [abs_def] by (rule digits_add)
  ultimately show ?thesis
    using unat_add_noof [of "v AND 0x3333333333333333" "drop_bit 2 v AND 0x3333333333333333"] by simp
qed

lemma octet_word:
  assumes "unat v = digits ds" "length ds = 8" "\<forall>d \<in> set ds. d mod 16 \<le> 4 \<and> d div 16 \<le> 4"
  shows "unat ((v + drop_bit 4 v) AND 0x0f0f0f0f0f0f0f0f :: u64) = digits (map octet_sum ds)"
proof -
  have bound: "x = a * 16 + b \<Longrightarrow> b \<le> 4 \<Longrightarrow> a \<le> 4 \<Longrightarrow> x < 69" for x a b :: nat by linarith
  have "d < 69" if "d \<in> set ds" for d
    using assms(3) that by (intro bound [OF div_mult_mod_eq [symmetric]]) auto
  then have small: "digits (map (\<lambda>d. d + d) ds) < 256 ^ length (map (\<lambda>d. d + d) ds)"
    by (intro digits_less) fastforce
  have "unat v + unat v div 16 \<le> unat v + unat v" by simp
  also have "\<dots> < 2 ^ 64"
    using small digits_add [of "\<lambda>d. d" ds "\<lambda>d. d"] assms(1,2) by simp
  finally have "unat (v + drop_bit 4 v) = unat v + unat v div 16"
    by (subst unat_add_noof) (simp_all add: drop_bit_eq_div unat_div)
  then show ?thesis
    unfolding unsigned_and_eq mask_digits octet_sum_def [abs_def]
    using nibble_sum [OF assms(3)] assms(1,2) by simp
qed

lemma lessThan8: "{..< 8 :: nat} = {0, 1, 2, 3, 4, 5, 6, 7}"
  by auto

lemma sum_ones8_bits:
  assumes "n < 256 ^ k"
  shows "sum_list (map ones8 (bytes_of k n)) = card {i. i < 8 * k \<and> bit n i}"
  using assms
proof (induction k arbitrary: n)
  case (Suc k)
  have low: "bit (n mod 256) i \<longleftrightarrow> i < 8 \<and> bit n i" for i
    using bit_take_bit_iff [of 8 n i] by (simp add: take_bit_eq_mod)
  have high: "bit (n div 256) i \<longleftrightarrow> bit n (i + 8)" for i
    using bit_drop_bit_eq [of 8 n] by (simp add: drop_bit_eq_div fun_eq_iff add.commute)
  have "{i. i < 8 * Suc k \<and> bit n i} = {i. i < 8 \<and> bit n i} \<union> (\<lambda>i. i + 8) ` {i. i < 8 * k \<and> bit (n div 256) i}"
  proof (intro set_eqI)
    fix i
    show "i \<in> {i. i < 8 * Suc k \<and> bit n i} \<longleftrightarrow>
        i \<in> {i. i < 8 \<and> bit n i} \<union> (\<lambda>i. i + 8) ` {i. i < 8 * k \<and> bit (n div 256) i}"
      by (cases "i < 8") (auto simp: high image_iff intro!: exI [of _ "i - 8"])
  qed
  then have "card {i. i < 8 * Suc k \<and> bit n i}
      = card {i. i < 8 \<and> bit n i} + card ((\<lambda>i. i + 8) ` {i. i < 8 * k \<and> bit (n div 256) i})"
    by (simp only:) (rule card_Un_disjoint, auto)
  then have "card {i. i < 8 * Suc k \<and> bit n i} = card {i. i < 8 \<and> bit n i} + card {i. i < 8 * k \<and> bit (n div 256) i}"
    by (simp add: card_image)
  moreover have "card {i. i < 8 \<and> bit n i} = ones8 (n mod 256)"
  proof -
    have "card {i. i < 8 \<and> bit n i} = (\<Sum>i < 8. of_bool (bit n i))"
      by (simp add: of_bool_def sum.If_cases Int_def lessThan_def)
    also have "\<dots> = ones8 (n mod 256)"
      unfolding lessThan8 ones8_def low by simp
    finally show ?thesis .
  qed
  moreover have "n div 256 < 256 ^ k" using Suc.prems by (simp add: less_mult_imp_div_less mult.commute)
  ultimately show ?case using Suc.IH by simp
qed simp

lemma populationCount_bits: "unat (populationCount v) = card {i. bit v i}"
proof -
  let ?ds = "bytes_of 8 (unat v)"
  have v: "unat v = digits ?ds" "unat v < 256 ^ 8"
    using digits_bytes_of [of "unat v" 8] unat_less64 [of v] by simp_all
  have ok: "byte_ok d" if "d \<in> set ?ds" for d
    using that bytes_of_less byte_steps by blast
  define v1 where "v1 = v - (drop_bit 1 v AND 0x5555555555555555)"
  define v2 where "v2 = (v1 AND 0x3333333333333333) + (drop_bit 2 v1 AND 0x3333333333333333)"
  define v3 where "v3 = (v2 + drop_bit 4 v2) AND 0x0f0f0f0f0f0f0f0f"
  have v1: "unat v1 = digits (map pairs ?ds)"
    unfolding v1_def by (rule pairs_word [OF v(1)]) (simp_all add: bytes_of_less)
  have v2: "unat v2 = digits (map (nibbles \<circ> pairs) ?ds)"
    unfolding v2_def using nibbles_word [OF v1] ok by (simp add: byte_ok_def)
  have v3: "unat v3 = digits (map (octet_sum \<circ> (nibbles \<circ> pairs)) ?ds)"
    unfolding v3_def using octet_word [OF v2] ok by (simp add: byte_ok_def comp_assoc)
  have ones: "map (octet_sum \<circ> (nibbles \<circ> pairs)) ?ds = map ones8 ?ds"
    using ok by (simp add: byte_ok_def)
  have le: "ones8 d \<le> 8" for d by (simp add: ones8_def)
  have total: "sum_list (map ones8 ?ds) = card {i. i < 64 \<and> bit (unat v) i}"
    using sum_ones8_bits [OF v(2)] by simp
  have "card {i. i < 64 \<and> bit (unat v) i} \<le> card {i :: nat. i < 64}" by (intro card_mono) auto
  then have small: "sum_list (map ones8 ?ds) < 256" by (simp add: total)
  have "unat (drop_bit 56 (v3 * 0x0101010101010101)) = (unat v3 * 0x0101010101010101) mod 2 ^ 64 div 2 ^ 56"
    unfolding unat_drop_bit_eq unfolding drop_bit_eq_div by (simp add: unat_word_ariths)
  also have "\<dots> = sum_list (map ones8 ?ds)"
    unfolding v3 ones using small le_less_trans [OF le, of 32] by (intro digits_sum_top) auto
  finally have top: "unat (drop_bit 56 (v3 * 0x0101010101010101)) = sum_list (map ones8 ?ds)" .
  have "populationCount v = ucast (drop_bit 56 (v3 * 0x0101010101010101))"
    unfolding populationCount_def Let_def v1_def v2_def v3_def ..
  then have "unat (populationCount v) = sum_list (map ones8 ?ds)"
    using small by (simp only: unsigned_ucast_eq top) (simp add: take_bit_nat_eq_self)
  moreover have "{i. i < 64 \<and> bit (unat v) i} = {i. bit v i}"
    using bit_imp_le_length [of v] by (auto simp: bit_unsigned_iff)
  ultimately show ?thesis by (simp add: total)
qed

end
