(* ===== verification/Ewah.thy ===== *)
theory Ewah
  imports Popcount
begin

text \<open>
  The fixed-size bit set and its run-length (EWAH) encoding, \<^verbatim>\<open>replication/ewah.go\<close>. A loop
  over \<^verbatim>\<open>set.words\<close> from a cursor is a recursion on the words that are left. The decoder
  writes into the set as it goes, also before it fails; the model returns that set together
  with the error.
\<close>

section \<open>Bit set\<close>

record FixedBitSet =
  bs_words :: "u64 list"
  bs_length :: u64

definition NewFixedBitSet :: "u64 \<Rightarrow> FixedBitSet result" where
  "NewFixedBitSet len =
     (if len > MaxUint64 - 63 then Inl ErrInvalidConfiguration
      else let wordCount = (len + 63) div 64
      in if wordCount > MaxInt64 then Inl ErrInvalidConfiguration
      else Inr \<lparr>bs_words = replicate (unat wordCount) 0, bs_length = len\<rparr>)"

definition bitset_grow :: "FixedBitSet \<Rightarrow> u64 \<Rightarrow> FixedBitSet result" where
  "bitset_grow st len =
     (if len \<le> bs_length st then Inr st
      else if len > MaxUint64 - 63 then Inl ErrInvalidConfiguration
      else let wordCount = (len + 63) div 64
      in if wordCount > MaxInt64 then Inl ErrInvalidConfiguration
      else Inr \<lparr>bs_words = copy_at 0 (unat wordCount) (bs_words st) (replicate (unat wordCount) 0),
                bs_length = len\<rparr>)"

definition bitset_Test :: "FixedBitSet \<Rightarrow> u64 \<Rightarrow> bool" where
  "bitset_Test st index \<longleftrightarrow> index < bs_length st
     \<and> (bs_words st ! unat (index div 64)) AND push_bit (unat (index mod 64)) 1 \<noteq> 0"

definition bitset_Set :: "FixedBitSet \<Rightarrow> u64 \<Rightarrow> FixedBitSet \<times> bool" where
  "bitset_Set st index =
     (if index \<ge> bs_length st then (st, False)
      else let i = unat (index div 64)
      in (st\<lparr>bs_words := (bs_words st)[i := bs_words st ! i OR push_bit (unat (index mod 64)) 1]\<rparr>, True))"

definition bitset_Clear :: "FixedBitSet \<Rightarrow> u64 \<Rightarrow> FixedBitSet \<times> bool" where
  "bitset_Clear st index =
     (if index \<ge> bs_length st then (st, False)
      else let i = unat (index div 64)
      in (st\<lparr>bs_words := (bs_words st)[i := bs_words st ! i AND NOT (push_bit (unat (index mod 64)) 1)]\<rparr>, True))"

definition bitset_Count :: "FixedBitSet \<Rightarrow> u64" where
  "bitset_Count st = foldl (\<lambda>count w. count + ucast (populationCount w)) 0 (bs_words st)"

definition validTail :: "FixedBitSet \<Rightarrow> bool" where
  "validTail st =
     (if bs_length st = 0 \<or> bs_length st mod 64 = 0 then True
      else let msk = push_bit (unat (bs_length st mod 64)) 1 - 1
      in (bs_words st ! (length (bs_words st) - 1)) AND NOT msk = 0)"

section \<open>EWAH encoding\<close>

definition ewahFillMax :: u64 where "ewahFillMax = 0x7FFFFFFF"
definition ewahLiteralMax :: u64 where "ewahLiteralMax = 0xFFFFFFFF"

abbreviation is_fill :: "u64 \<Rightarrow> bool" where
  "is_fill w \<equiv> w = 0 \<or> w = MaxUint64"

text \<open>The two inner loops of the encoder: a run of one fill word, then a run of literals.\<close>

fun fill_loop :: "u64 \<Rightarrow> u64 \<Rightarrow> u64 list \<Rightarrow> u64 \<times> u64 list" where
  "fill_loop fillWord fill [] = (fill, [])"
| "fill_loop fillWord fill (w # ws) =
     (if w = fillWord \<and> fill < ewahFillMax then fill_loop fillWord (fill + 1) ws else (fill, w # ws))"

fun literal_loop :: "u64 \<Rightarrow> u64 list \<Rightarrow> u64 list \<times> u64 list" where
  "literal_loop count [] = ([], [])"
| "literal_loop count (w # ws) =
     (if count < ewahLiteralMax \<and> \<not> is_fill w
      then let (ls, rest) = literal_loop (count + 1) ws in (w # ls, rest)
      else ([], w # ws))"

definition ewah_marker :: "u64 \<Rightarrow> u64 \<Rightarrow> u64 \<Rightarrow> u64" where
  "ewah_marker fill fillWord literals =
     (let marker = push_bit 1 fill;
          marker = (if fillWord = MaxUint64 then marker OR 1 else marker)
      in marker OR push_bit 32 literals)"

text \<open>One round of the outer loop: the fill, the fill word, the literals and the words left.\<close>

definition ewah_round :: "u64 list \<Rightarrow> u64 \<times> u64 \<times> u64 list \<times> u64 list" where
  "ewah_round ws =
     (let (fill, fillWord, ws1) =
            (case ws of [] \<Rightarrow> (0, 0, ws)
             | w # _ \<Rightarrow> if is_fill w then (let (fill, rest) = fill_loop w 0 ws in (fill, w, rest))
                        else (0, 0, ws));
          (literals, ws2) = literal_loop 0 ws1
      in (fill, fillWord, literals, ws2))"

lemma fill_loop_length: "length (snd (fill_loop f n ws)) \<le> length ws"
  by (induction f n ws rule: fill_loop.induct) auto

lemma literal_loop_length: "length (snd (literal_loop n ws)) \<le> length ws"
  by (induction n ws rule: literal_loop.induct) (auto split: prod.splits)

lemma ewah_round_decreases:
  assumes "ws \<noteq> []" "ewah_round ws = (fill, fillWord, literals, ws')"
  shows "length ws' < length ws"
proof -
  obtain w rest where ws: "ws = w # rest" using assms(1) by (cases ws) auto
  show ?thesis
  proof (cases "is_fill w")
    case True
    have "length (snd (literal_loop 0 (snd (fill_loop w 1 rest)))) \<le> length rest"
      using literal_loop_length fill_loop_length le_trans by blast
    moreover have "fill_loop w 0 (w # rest) = fill_loop w 1 rest"
      by (simp add: ewahFillMax_def)
    ultimately show ?thesis
      using assms(2) True by (auto simp: ws ewah_round_def simp del: fill_loop.simps split: prod.splits)
  next
    case False
    then show ?thesis
      using assms(2) literal_loop_length [of 1 rest]
      by (auto simp: ws ewah_round_def ewahLiteralMax_def Let_def split: prod.splits)
  qed
qed

function encode_loop :: "u64 list \<Rightarrow> u64 list \<Rightarrow> nat \<Rightarrow> (u64 list \<times> nat) result" where
  "encode_loop ws destination written =
     (if ws = [] then Inr (destination, written)
      else let (fill, fillWord, lits, ws') = ewah_round ws
      in if fill = 0 \<and> lits = [] then encode_loop ws' destination written
      else if written \<ge> length destination \<or> length lits > length destination - written - 1
      then Inl ErrInvalidEWAH
      else let d = destination[written := ewah_marker fill fillWord (of_nat (length lits))];
               d = copy_at (written + 1) (written + 1 + length lits) lits d
      in encode_loop ws' d (written + 1 + length lits))"
  by pat_completeness auto
termination
  by (relation "measure (\<lambda>(ws, destination, written). length ws)")
     (simp_all, (metis ewah_round_decreases)+)

declare encode_loop.simps [simp del]

definition EncodeEWAH :: "FixedBitSet \<Rightarrow> u64 list \<Rightarrow> (u64 list \<times> nat) result" where
  "EncodeEWAH st destination =
     (if \<not> validTail st then Inl ErrInvalidEWAH
      else encode_loop (bs_words st) destination 0)"

section \<open>EWAH decoding\<close>

fun literal_copy :: "u64 list \<Rightarrow> u64 list \<Rightarrow> nat \<Rightarrow> u64 list \<times> bool" where
  "literal_copy [] ws cursor = (ws, True)"
| "literal_copy (l # ls) ws cursor =
     (if is_fill l then (ws, False) else literal_copy ls (ws[cursor := l]) (cursor + 1))"

text \<open>The outer loop; the option holds the cursor when every marker was accepted.\<close>

function decode_loop :: "u64 list \<Rightarrow> u64 list \<Rightarrow> nat \<Rightarrow> u64 list \<times> nat option" where
  "decode_loop encoded ws cursor =
     (case encoded of [] \<Rightarrow> (ws, Some cursor)
      | marker # rest \<Rightarrow>
        let fill = drop_bit 1 marker AND ewahFillMax; literals = drop_bit 32 marker
        in if fill = 0 \<and> literals = 0 then (ws, None)
        else if uint literals > int (length rest) \<or> uint fill > int (length ws - cursor) then (ws, None)
        else let fillWord = (if marker AND 1 \<noteq> 0 then MaxUint64 else 0);
                 ws1 = copy_at cursor (cursor + unat fill) (replicate (unat fill) fillWord) ws;
                 cursor1 = cursor + unat fill
        in if uint literals > int (length ws1 - cursor1) then (ws1, None)
        else let (ws2, ok) = literal_copy (take (unat literals) rest) ws1 cursor1
        in if \<not> ok then (ws2, None)
        else decode_loop (drop (unat literals) rest) ws2 (cursor1 + unat literals))"
  by pat_completeness auto
termination
  by (relation "measure (\<lambda>(encoded, ws, cursor). length encoded)") auto

declare decode_loop.simps [simp del]

definition DecodeEWAH :: "FixedBitSet \<Rightarrow> u64 list \<Rightarrow> FixedBitSet \<times> err option" where
  "DecodeEWAH st encoded =
     (let (ws, r) = decode_loop encoded (replicate (length (bs_words st)) 0) 0;
          st' = st\<lparr>bs_words := ws\<rparr>
      in case r of None \<Rightarrow> (st', Some ErrInvalidEWAH)
         | Some cursor \<Rightarrow>
           if cursor \<noteq> length ws \<or> \<not> validTail st' then (st', Some ErrInvalidEWAH) else (st', None))"

section \<open>Bit set laws\<close>

lemma bit_less64: "bit (w :: u64) n \<Longrightarrow> n < 64"
  using bit_imp_le_length [of w n] by simp

text \<open>What a client relies on: the indexes in the set after each operation.\<close>

locale bit_set =
  fixes ok :: "'s \<Rightarrow> bool"
    and len :: "'s \<Rightarrow> u64"
    and test :: "'s \<Rightarrow> u64 \<Rightarrow> bool"
    and put :: "'s \<Rightarrow> u64 \<Rightarrow> 's \<times> bool"
    and del :: "'s \<Rightarrow> u64 \<Rightarrow> 's \<times> bool"
  assumes test_range: "test s i \<Longrightarrow> i < len s"
    and put_out: "\<not> i < len s \<Longrightarrow> put s i = (s, False)"
    and del_out: "\<not> i < len s \<Longrightarrow> del s i = (s, False)"
    and put_in: "ok s \<Longrightarrow> i < len s \<Longrightarrow> snd (put s i) \<and> ok (fst (put s i))
      \<and> len (fst (put s i)) = len s \<and> (\<forall>j. test (fst (put s i)) j \<longleftrightarrow> j = i \<or> test s j)"
    and del_in: "ok s \<Longrightarrow> i < len s \<Longrightarrow> snd (del s i) \<and> ok (fst (del s i))
      \<and> len (fst (del s i)) = len s \<and> (\<forall>j. test (fst (del s i)) j \<longleftrightarrow> j \<noteq> i \<and> test s j)"
begin

definition members :: "'s \<Rightarrow> u64 set" where
  "members s = {i. test s i}"

lemma mem_members: "i \<in> members s \<longleftrightarrow> test s i"
  by (simp add: members_def)

lemma members_put: "ok s \<Longrightarrow> i < len s \<Longrightarrow> members (fst (put s i)) = insert i (members s)"
  using put_in by (auto simp: members_def)

lemma members_del: "ok s \<Longrightarrow> i < len s \<Longrightarrow> members (fst (del s i)) = members s - {i}"
  using del_in by (auto simp: members_def)

lemma ok_put: "ok s \<Longrightarrow> ok (fst (put s i))"
  using put_in put_out by (cases "i < len s") auto

lemma ok_del: "ok s \<Longrightarrow> ok (fst (del s i))"
  using del_in del_out by (cases "i < len s") auto

lemma len_put: "ok s \<Longrightarrow> len (fst (put s i)) = len s"
  using put_in put_out by (cases "i < len s") auto

lemma len_del: "ok s \<Longrightarrow> len (fst (del s i)) = len s"
  using del_in del_out by (cases "i < len s") auto

lemma snd_put: "ok s \<Longrightarrow> snd (put s i) \<longleftrightarrow> i < len s"
  using put_in put_out by (cases "i < len s") auto

lemma snd_del: "ok s \<Longrightarrow> snd (del s i) \<longleftrightarrow> i < len s"
  using del_in del_out by (cases "i < len s") auto

lemma members_range: "members s \<subseteq> {i. i < len s}"
  using test_range by (auto simp: members_def)

lemma finite_members: "finite (members s)"
  by (rule finite)

lemma del_put_id: "ok s \<Longrightarrow> i < len s \<Longrightarrow> \<not> test s i \<Longrightarrow>
    members (fst (del (fst (put s i)) i)) = members s"
  by (auto simp: members_put members_del ok_put len_put mem_members)

end

definition bitset_ok :: "FixedBitSet \<Rightarrow> bool" where
  "bitset_ok st \<longleftrightarrow> length (bs_words st) = (unat (bs_length st) + 63) div 64 \<and> validTail st"

lemma word_index:
  "unat ((i :: u64) div 64) = unat i div 64" "unat (i mod 64) = unat i mod 64"
  by (simp_all add: unat_div unat_mod)

lemma test_bit: "bitset_Test st i \<longleftrightarrow> i < bs_length st \<and> bit (bs_words st ! (unat i div 64)) (unat i mod 64)"
  by (simp add: bitset_Test_def word_index and_exp_eq_0_iff_not_bit)

lemma index_in_words:
  assumes "bitset_ok st" "i < bs_length st"
  shows "unat i div 64 < length (bs_words st)"
  using assms by (simp add: bitset_ok_def word_less_nat_alt)

lemma same_bit: "unat (i :: u64) div 64 = unat j div 64 \<Longrightarrow> unat i mod 64 = unat j mod 64 \<longleftrightarrow> i = j"
  by (metis div_mod_decomp word_unat_eq_iff)

lemma tail_bits:
  "validTail st \<longleftrightarrow> unat (bs_length st) mod 64 = 0
     \<or> (\<forall>n \<ge> unat (bs_length st) mod 64. \<not> bit (bs_words st ! (length (bs_words st) - 1)) n)"
proof -
  have "(w AND NOT (push_bit k 1 - 1) = 0) \<longleftrightarrow> (\<forall>n \<ge> k. \<not> bit w n)" for w :: u64 and k
    using bit_imp_le_length [of w]
    by (auto simp: bit_eq_iff bit_and_iff bit_not_iff bit_mask_iff not_less
        simp flip: mask_eq_exp_minus_1)
  moreover have "bs_length st = 0 \<or> bs_length st mod 64 = 0 \<longleftrightarrow> unat (bs_length st) mod 64 = 0"
    by (metis unat_eq_0 word_index(2) mod_0 unat_0)
  ultimately show ?thesis
    by (simp add: validTail_def Let_def word_index)
qed

lemma word_set_bit: "bit ((w :: u64) OR 2 ^ k) n \<longleftrightarrow> bit w n \<or> n = k \<and> k < 64"
  by (auto simp: bit_or_iff bit_exp_iff dest: bit_imp_le_length)

lemma word_clear_bit: "bit ((w :: u64) AND NOT (2 ^ k)) n \<longleftrightarrow> bit w n \<and> n \<noteq> k"
  by (auto simp: bit_and_iff bit_not_iff bit_exp_iff dest: bit_imp_le_length)

lemmas bit_updates = word_set_bit word_clear_bit

lemma in_last_word:
  fixes i l :: nat
  assumes "i < l" "i div 64 = (l + 63) div 64 - 1" "l mod 64 \<noteq> 0"
  shows "i mod 64 < l mod 64"
proof -
  define q r where "q = l div 64" and "r = l mod 64"
  have l: "l = q * 64 + r" and r: "r < 64" "0 < r"
    using assms(3) by (simp_all add: q_def r_def)
  have "(l + 63) div 64 = q + 1"
    by (rule div_nat_eqI) (use l r in simp_all)
  then have "i div 64 = q" using assms(2) by simp
  then have "i = q * 64 + i mod 64" by (metis div_mult_mod_eq)
  then have "i mod 64 < r" using assms(1) l by linarith
  then show ?thesis by (simp add: r_def)
qed

lemma set_result:
  assumes "bitset_ok st" "i < bs_length st"
  shows "snd (bitset_Set st i)" "bitset_ok (fst (bitset_Set st i))"
    "bs_length (fst (bitset_Set st i)) = bs_length st"
    "bitset_Test (fst (bitset_Set st i)) j \<longleftrightarrow> j = i \<or> bitset_Test st j"
proof -
  note idx = index_in_words [OF assms]
  let ?n = "length (bs_words st) - 1" and ?k = "unat (bs_length st) mod 64"
  have in_tail: "unat i mod 64 < ?k" if "unat i div 64 = ?n" "?k \<noteq> 0"
    using that assms by (intro in_last_word) (simp_all add: bitset_ok_def word_less_nat_alt)
  show "snd (bitset_Set st i)" "bs_length (fst (bitset_Set st i)) = bs_length st"
    using assms(2) by (simp_all add: bitset_Set_def Let_def not_le)
  show "bitset_ok (fst (bitset_Set st i))"
    using assms idx in_tail unfolding bitset_ok_def tail_bits
    by (auto simp: bitset_Set_def Let_def not_le word_index nth_list_update bit_updates)
  show "bitset_Test (fst (bitset_Set st i)) j \<longleftrightarrow> j = i \<or> bitset_Test st j"
    using assms idx same_bit [of i j] unfolding test_bit
    by (auto simp: bitset_Set_def Let_def not_le word_index nth_list_update bit_updates)
qed

lemma clear_result:
  assumes "bitset_ok st" "i < bs_length st"
  shows "snd (bitset_Clear st i)" "bitset_ok (fst (bitset_Clear st i))"
    "bs_length (fst (bitset_Clear st i)) = bs_length st"
    "bitset_Test (fst (bitset_Clear st i)) j \<longleftrightarrow> j \<noteq> i \<and> bitset_Test st j"
proof -
  note idx = index_in_words [OF assms]
  show "snd (bitset_Clear st i)" "bs_length (fst (bitset_Clear st i)) = bs_length st"
    using assms(2) by (simp_all add: bitset_Clear_def Let_def not_le)
  show "bitset_ok (fst (bitset_Clear st i))"
    using assms idx unfolding bitset_ok_def tail_bits
    by (auto simp: bitset_Clear_def Let_def not_le word_index nth_list_update bit_updates)
  show "bitset_Test (fst (bitset_Clear st i)) j \<longleftrightarrow> j \<noteq> i \<and> bitset_Test st j"
    using assms idx same_bit [of i j] unfolding test_bit
    by (auto simp: bitset_Clear_def Let_def not_le word_index nth_list_update bit_updates)
qed

interpretation bs: bit_set bitset_ok bs_length bitset_Test bitset_Set bitset_Clear
proof unfold_locales
  fix s :: FixedBitSet and i
  show "bitset_Test s i \<Longrightarrow> i < bs_length s" by (simp add: bitset_Test_def)
  show "\<not> i < bs_length s \<Longrightarrow> bitset_Set s i = (s, False)" by (simp add: bitset_Set_def not_less)
  show "\<not> i < bs_length s \<Longrightarrow> bitset_Clear s i = (s, False)" by (simp add: bitset_Clear_def not_less)
qed (simp_all add: set_result clear_result)

section \<open>Construction and counting\<close>

lemma max_minus_63: "unat (MaxUint64 - 63) = 18446744073709551552"
  by simp

lemma word_count:
  assumes "\<not> (MaxUint64 - 63 < (len :: u64))"
  shows "unat ((len + 63) div 64) = (unat len + 63) div 64" "\<not> (MaxInt64 < (len + 63) div 64)"
proof -
  have l: "unat len \<le> 18446744073709551552"
    using assms by (simp add: word_less_nat_alt not_less max_minus_63)
  then have "unat (len + 63) = unat len + 63"
    by (subst unat_add_noof) simp_all
  then show u: "unat ((len + 63) div 64) = (unat len + 63) div 64" by (simp add: unat_div)
  show "\<not> (MaxInt64 < (len + 63) div 64)"
    unfolding word_less_nat_alt u using l by simp
qed

lemma NewFixedBitSet_ok:
  "NewFixedBitSet len = (if MaxUint64 - 63 < len then Inl ErrInvalidConfiguration
     else Inr \<lparr>bs_words = replicate ((unat len + 63) div 64) 0, bs_length = len\<rparr>)"
  using word_count [of len] by (simp add: NewFixedBitSet_def)

lemma new_bitset:
  assumes "NewFixedBitSet len = Inr st"
  shows "bitset_ok st" "bs_length st = len" "\<not> bitset_Test st i"
proof -
  have st: "st = \<lparr>bs_words = replicate ((unat len + 63) div 64) 0, bs_length = len\<rparr>"
    using assms by (auto simp: NewFixedBitSet_ok split: if_splits)
  show "bs_length st = len" by (simp add: st)
  show "bitset_ok st"
    by (auto simp: bitset_ok_def st tail_bits nth_replicate)
  show "\<not> bitset_Test st i"
    by (auto simp: test_bit st word_less_nat_alt)
qed

lemma words_needed:
  fixes l :: nat
  shows "(l + 63) div 64 = (if l mod 64 = 0 then l div 64 else l div 64 + 1)"
proof -
  define q r where "q = l div 64" and "r = l mod 64"
  have l: "l = q * 64 + r" "r < 64" by (simp_all add: q_def r_def)
  have "(l + 63) div 64 = (if r = 0 then q else q + 1)"
    by (rule div_nat_eqI) (use l in \<open>auto split: if_splits\<close>)
  then show ?thesis by (simp add: q_def r_def)
qed

text \<open>Every set bit lies below the length.\<close>

lemma bitset_ok_iff:
  "bitset_ok st \<longleftrightarrow> length (bs_words st) = (unat (bs_length st) + 63) div 64
     \<and> (\<forall>k n. k < length (bs_words st) \<and> bit (bs_words st ! k) n \<longrightarrow> 64 * k + n < unat (bs_length st))"
proof -
  let ?l = "unat (bs_length st)" and ?w = "bs_words st"
  define q r where "q = ?l div 64" and "r = ?l mod 64"
  have l: "?l = 64 * q + r" "r < 64" by (simp_all add: q_def r_def)
  have len: "(?l + 63) div 64 = (if r = 0 then q else q + 1)"
    by (simp add: words_needed q_def r_def)
  have bits: "bit (?w ! k) n \<Longrightarrow> n < 64" for k n using bit_imp_le_length [of "?w ! k" n] by simp
  have "validTail st \<longleftrightarrow> (\<forall>k n. k < length ?w \<and> bit (?w ! k) n \<longrightarrow> 64 * k + n < ?l)"
    if n: "length ?w = (?l + 63) div 64"
  proof (cases "r = 0")
    case True
    have "64 * k + n < ?l" if "k < length ?w" "bit (?w ! k) n" for k n
      using bits [OF that(2)] that(1) l True len n by simp
    then show ?thesis using True by (auto simp: tail_bits r_def)
  next
    case False
    then have n': "length ?w = q + 1" using n len by simp
    have "validTail st \<longleftrightarrow> (\<forall>n. bit (?w ! q) n \<longrightarrow> n < r)"
      using False n' by (simp add: tail_bits flip: r_def) (metis linorder_not_less)
    also have "\<dots> \<longleftrightarrow> (\<forall>k n. k < length ?w \<and> bit (?w ! k) n \<longrightarrow> 64 * k + n < ?l)"
    proof (intro iffI allI impI)
      fix k n assume "\<forall>n. bit (?w ! q) n \<longrightarrow> n < r" and k: "k < length ?w \<and> bit (?w ! k) n"
      then show "64 * k + n < ?l"
        using bits [of k n] l n' by (cases "k = q") auto
    next
      fix n assume "\<forall>k n. k < length ?w \<and> bit (?w ! k) n \<longrightarrow> 64 * k + n < ?l" "bit (?w ! q) n"
      then have "64 * q + n < ?l" using n' by simp
      then show "n < r" using l by simp
    qed
    finally show ?thesis .
  qed
  then show ?thesis by (auto simp: bitset_ok_def)
qed

lemma test_pos: "64 * (unat i div 64) + unat i mod 64 = unat (i :: u64)"
  by simp

text \<open>Growing keeps the members.\<close>

lemma grow_result:
  assumes "bitset_ok st" "bitset_grow st len = Inr st'"
  shows "bitset_ok st'" "bs_length st' = max (bs_length st) len" "bitset_Test st' i \<longleftrightarrow> bitset_Test st i"
proof -
  consider (same) "len \<le> bs_length st" "st' = st"
    | (more) "bs_length st < len" "\<not> (MaxUint64 - 63 < len)"
        "st' = \<lparr>bs_words = copy_at 0 ((unat len + 63) div 64) (bs_words st) (replicate ((unat len + 63) div 64) 0),
                bs_length = len\<rparr>"
    using assms(2) word_count [of len] by (auto simp: bitset_grow_def split: if_splits)
  then have "bitset_ok st' \<and> bs_length st' = max (bs_length st) len \<and> (bitset_Test st' i \<longleftrightarrow> bitset_Test st i)"
  proof cases
    case same
    then show ?thesis using assms(1) by (simp add: max_def)
  next
    case more
    let ?n = "(unat len + 63) div 64" and ?k = "length (bs_words st)"
    note ok = assms(1) [unfolded bitset_ok_iff]
    have lt: "unat (bs_length st) < unat len" using more(1) by (simp add: word_less_nat_alt)
    have kn: "?k \<le> ?n" using ok lt by (simp add: div_le_mono)
    have ws: "bs_words st' = bs_words st @ replicate (?n - ?k) 0" "bs_length st' = len"
      unfolding more(3) using kn by (simp_all add: copy_at_def Let_def min_def)
    have bits: "j < ?n \<and> bit (bs_words st' ! j) m \<longleftrightarrow> j < ?k \<and> bit (bs_words st ! j) m" for j m
      using kn by (auto simp: ws nth_append)
    have "bitset_ok st'"
      unfolding bitset_ok_iff using bits ok lt kn by (fastforce simp: ws)
    moreover have "bitset_Test st' i \<longleftrightarrow> bitset_Test st i"
    proof -
      have "unat i div 64 < ?k \<Longrightarrow> bit (bs_words st ! (unat i div 64)) (unat i mod 64) \<Longrightarrow>
          unat i < unat (bs_length st)"
        using ok test_pos [of i] by metis
      moreover have "unat i < unat len \<Longrightarrow> unat i div 64 < ?n" by simp
      ultimately show ?thesis
        using bits [of "unat i div 64" "unat i mod 64"] lt index_in_words [OF assms(1), of i]
        by (auto simp: test_bit ws(2) word_less_nat_alt)
    qed
    ultimately show ?thesis using ws(2) more(1) by (simp add: max.absorb2)
  qed
  then show "bitset_ok st'" "bs_length st' = max (bs_length st) len" "bitset_Test st' i \<longleftrightarrow> bitset_Test st i"
    by auto
qed

text \<open>The number of members.\<close>

lemma foldl_count: "foldl (\<lambda>count w. count + ucast (populationCount w)) (of_nat c) ws
    = (of_nat (c + sum_list (map (\<lambda>w. card {n. bit w n}) ws)) :: u64)"
proof (induction ws arbitrary: c)
  case (Cons w ws)
  have "(ucast (populationCount w) :: u64) = of_nat (card {n. bit w n})"
    by (simp add: populationCount_bits [symmetric] word_unat_eq_iff unsigned_ucast_eq
        unsigned_of_nat)
  then show ?case using Cons [of "c + card {n. bit w n}"] by (simp add: ac_simps)
qed simp

lemma card_members:
  assumes "bitset_ok st"
  shows "sum_list (map (\<lambda>w. card {n. bit w n}) (bs_words st)) = card {i. bitset_Test st i}"
proof -
  let ?w = "bs_words st"
  let ?S = "SIGMA k : {..<length ?w}. {n. bit (?w ! k) n}"
  define at :: "nat \<times> nat \<Rightarrow> u64" where "at p = of_nat (64 * fst p + snd p)" for p
  have fin: "finite {n. bit (w :: u64) n}" for w
    by (rule finite_subset [of _ "{..<64}"]) (auto dest: bit_less64)
  have "sum_list (map (\<lambda>w. card {n. bit w n}) ?w) = (\<Sum>k < length ?w. card {n. bit (?w ! k) n})"
    by (simp add: sum_list_sum_nth atLeast0LessThan)
  also have "\<dots> = card ?S" by (simp add: card_SigmaI fin)
  also have "\<dots> = card {i. bitset_Test st i}"
  proof (rule bij_betw_same_card [where f = at])
    have pos: "unat (at (k, n)) = 64 * k + n" "n < 64"
      if "k < length ?w" "bit (?w ! k) n" for k n
    proof -
      have "64 * k + n < unat (bs_length st)" using assms that by (auto simp: bitset_ok_iff)
      then show "unat (at (k, n)) = 64 * k + n"
        unfolding at_def fst_conv snd_conv by (intro unat_of_nat64) (rule less_trans [OF _ unat_less64])
      show "n < 64" using that bit_less64 by blast
    qed
    show "bij_betw at ?S {i. bitset_Test st i}"
    proof (rule bij_betwI')
      fix x y assume "x \<in> ?S" "y \<in> ?S"
      then obtain k n j m where xy: "x = (k, n)" "y = (j, m)" "k < length ?w" "bit (?w ! k) n"
        "j < length ?w" "bit (?w ! j) m" by auto
      have "k = j \<and> n = m" if "64 * k + n = 64 * j + m"
        using that pos(2) [OF xy(3,4)] pos(2) [OF xy(5,6)] by presburger
      then show "(at x = at y) = (x = y)"
        using pos(1) [OF xy(3,4)] pos(1) [OF xy(5,6)] xy(1,2) by metis
    next
      fix x assume "x \<in> ?S"
      then obtain k n where x: "x = (k, n)" "k < length ?w" "bit (?w ! k) n" by auto
      have "64 * k + n < unat (bs_length st)" using assms x by (auto simp: bitset_ok_iff)
      then show "at x \<in> {i. bitset_Test st i}"
        using pos [OF x(2,3)] x by (simp add: test_bit word_less_nat_alt)
    next
      fix i assume "i \<in> {i. bitset_Test st i}"
      then have i: "bit (?w ! (unat i div 64)) (unat i mod 64)" "i < bs_length st" by (auto simp: test_bit)
      show "\<exists>x \<in> ?S. i = at x"
        by (rule bexI [of _ "(unat i div 64, unat i mod 64)"])
           (use i index_in_words [OF assms] in \<open>auto simp: at_def test_pos simp del: of_nat_add of_nat_mult\<close>)
    qed
  qed
  finally show ?thesis .
qed

lemma members_less:
  "card {i. bitset_Test st i} \<le> unat (bs_length st)"
proof -
  have "card {i. bitset_Test st i} = card (unat ` {i. bitset_Test st i})"
    by (intro card_image [symmetric] inj_onI) (simp add: word_unat_eq_iff)
  also have "\<dots> \<le> card {..<unat (bs_length st)}"
    by (intro card_mono) (auto simp: test_bit word_less_nat_alt)
  finally show ?thesis by simp
qed

lemma Count_members:
  assumes "bitset_ok st"
  shows "unat (bitset_Count st) = card {i. bitset_Test st i}"
proof -
  have "bitset_Count st = of_nat (card {i. bitset_Test st i})"
    using foldl_count [of 0 "bs_words st"] card_members [OF assms] by (simp add: bitset_Count_def)
  moreover have "card {i. bitset_Test st i} < 2 ^ 64"
    using members_less [of st] unat_less64 [of "bs_length st"] by simp
  ultimately show ?thesis
    by (simp add: unat_of_nat64)
qed

section \<open>EWAH round trip\<close>

text \<open>The encoding as a list, without the destination buffer.\<close>

function ewah_out :: "u64 list \<Rightarrow> u64 list" where
  "ewah_out ws =
     (if ws = [] then []
      else let (fill, fillWord, lits, ws') = ewah_round ws
      in ewah_marker fill fillWord (of_nat (length lits)) # lits @ ewah_out ws')"
  by pat_completeness auto
termination
  by (relation "measure length") (simp_all, metis ewah_round_decreases)

declare ewah_out.simps [simp del]

lemma unat_Suc64: "(n :: u64) < m \<Longrightarrow> unat (n + 1) = Suc (unat n)"
  using unat_add_noof [of n 1] unat_less64 [of m] by (simp add: word_less_nat_alt)

lemma fill_loop_run:
  "fill_loop f n ws = (m, rest) \<Longrightarrow> n \<le> ewahFillMax \<Longrightarrow>
     ws = replicate (unat m - unat n) f @ rest \<and> n \<le> m \<and> m \<le> ewahFillMax"
proof (induction f n ws arbitrary: m rest rule: fill_loop.induct)
  case (2 f n w ws)
  show ?case
  proof (cases "w = f \<and> n < ewahFillMax")
    case True
    then have n1: "unat (n + 1) = Suc (unat n)" "n + 1 \<le> ewahFillMax" "n \<le> n + 1"
      using unat_Suc64 [of n ewahFillMax] by (auto simp: word_le_nat_alt word_less_nat_alt)
    then have ih: "ws = replicate (unat m - unat (n + 1)) f @ rest" "n + 1 \<le> m" "m \<le> ewahFillMax"
      using 2 True by auto
    then have "unat m - unat n = Suc (unat m - unat (n + 1))"
      using n1(1) by (simp add: word_le_nat_alt)
    then show ?thesis using ih n1 True by auto
  qed (use 2 in auto)
qed simp

lemma literal_loop_run:
  "literal_loop n ws = (ls, rest) \<Longrightarrow> n \<le> ewahLiteralMax \<Longrightarrow>
     ws = ls @ rest \<and> (\<forall>l \<in> set ls. \<not> is_fill l) \<and> unat n + length ls \<le> unat ewahLiteralMax"
proof (induction n ws arbitrary: ls rest rule: literal_loop.induct)
  case (2 n w ws)
  show ?case
  proof (cases "n < ewahLiteralMax \<and> \<not> is_fill w")
    case True
    then have n1: "unat (n + 1) = Suc (unat n)" "n + 1 \<le> ewahLiteralMax"
      using unat_Suc64 [of n ewahLiteralMax] by (auto simp: word_le_nat_alt word_less_nat_alt)
    obtain ls' where ls: "ls = w # ls'" "literal_loop (n + 1) ws = (ls', rest)"
      using 2(2) True by (auto split: prod.splits)
    then have "ws = ls' @ rest \<and> (\<forall>l \<in> set ls'. \<not> is_fill l)
        \<and> unat (n + 1) + length ls' \<le> unat ewahLiteralMax"
      using 2(1) n1 True by blast
    then show ?thesis using ls(1) n1(1) True by simp
  next
    case False
    then have "ls = []" "rest = w # ws"
      using 2(2) by (simp_all only: literal_loop.simps if_False prod.inject)
    then show ?thesis using 2(3) by (simp add: word_le_nat_alt)
  qed
qed (simp add: word_le_nat_alt)

lemma literal_max: "unat ewahLiteralMax = 4294967295"
  by (simp add: ewahLiteralMax_def)

lemma ewah_round_run:
  assumes "ewah_round ws = (fill, fw, lits, ws')" "ws \<noteq> []"
  shows "ws = replicate (unat fill) fw @ lits @ ws'" "is_fill fw" "fill \<le> ewahFillMax"
    "length lits \<le> 4294967295" "\<forall>l \<in> set lits. \<not> is_fill l" "fill \<noteq> 0 \<or> lits \<noteq> []"
proof -
  obtain ws1 where lit: "literal_loop 0 ws1 = (lits, ws')"
    and pre: "ws = replicate (unat fill) fw @ ws1" "is_fill fw" "fill \<le> ewahFillMax"
  proof (cases "is_fill (hd ws)")
    case True
    then obtain ws1 where "fill_loop (hd ws) 0 ws = (fill, ws1)" "fw = hd ws" "literal_loop 0 ws1 = (lits, ws')"
      using assms by (cases ws) (auto simp: ewah_round_def Let_def simp del: fill_loop.simps split: prod.splits)
    then show thesis
      using that fill_loop_run [of "hd ws" 0 ws fill ws1] True by simp
  next
    case False
    then have "fill = 0" "fw = 0" "literal_loop 0 ws = (lits, ws')"
      using assms by (cases ws, auto simp: ewah_round_def Let_def simp del: literal_loop.simps split: prod.splits)+
    then show thesis using that [of ws] by simp
  qed
  note run = literal_loop_run [OF lit]
  show "ws = replicate (unat fill) fw @ lits @ ws'" "is_fill fw" "fill \<le> ewahFillMax"
    "length lits \<le> 4294967295" "\<forall>l \<in> set lits. \<not> is_fill l"
    using pre run by (auto simp: literal_max)
  then show "fill \<noteq> 0 \<or> lits \<noteq> []"
    using ewah_round_decreases [OF assms(2,1)] by auto
qed

lemma encode_loop_out:
  "written \<le> length d \<Longrightarrow> encode_loop ws d written =
     (if written + length (ewah_out ws) \<le> length d
      then Inr (take written d @ ewah_out ws @ drop (written + length (ewah_out ws)) d,
                written + length (ewah_out ws))
      else Inl ErrInvalidEWAH)"
proof (induction ws d written rule: encode_loop.induct)
  case (1 ws d written)
  show ?case
  proof (cases "ws = []")
    case True
    then show ?thesis using 1(3) by (subst encode_loop.simps, subst (1 2 3 4) ewah_out.simps) simp
  next
    case False
    obtain fill fw lits ws' where r: "ewah_round ws = (fill, fw, lits, ws')" by (metis prod_cases4)
    note run = ewah_round_run [OF r False]
    let ?m = "ewah_marker fill fw (of_nat (length lits))"
    let ?d = "copy_at (written + 1) (written + 1 + length lits) lits (d[written := ?m])"
    have out: "ewah_out ws = ?m # lits @ ewah_out ws'"
      using False r by (subst ewah_out.simps) simp
    show ?thesis
    proof (cases "written \<ge> length d \<or> length lits > length d - written - 1")
      case True
      then show ?thesis
        using False r run(6) 1(3) by (subst encode_loop.simps) (auto simp: out)
    next
      case fits: False
      have d: "?d = take written d @ (?m # lits) @ drop (written + 1 + length lits) d"
        using fits 1(3)
        by (intro nth_equalityI) (auto simp: nth_copy_at nth_append nth_Cons' nth_list_update not_less)
      have "encode_loop ws d written = encode_loop ws' ?d (written + 1 + length lits)"
        using False r run(6) fits by (subst encode_loop.simps) auto
      also have "\<dots> = (if written + length (ewah_out ws) \<le> length d
          then Inr (take (written + 1 + length lits) ?d @ ewah_out ws'
                 @ drop (written + length (ewah_out ws)) ?d, written + length (ewah_out ws))
          else Inl ErrInvalidEWAH)"
        using fits by (subst 1(2) [OF False r [symmetric] refl refl refl _ fits refl refl])
          (use run(6) in \<open>auto simp: out add.assoc\<close>)
      also have "take (written + 1 + length lits) ?d = take written d @ ?m # lits"
        unfolding d using fits 1(3) by simp
      also have "drop (written + length (ewah_out ws)) ?d = drop (written + length (ewah_out ws)) d"
        by (simp add: out drop_copy_at)
      finally show ?thesis by (simp add: out)
    qed
  qed
qed

lemma less_pow_bits:
  assumes "(w :: u64) < 2 ^ k" "k < 64"
  shows "bit w n \<Longrightarrow> n < k"
proof -
  have "take_bit k w = w"
    using assms by (simp add: word_less_nat_alt unat_pow2 take_bit_nat_eq_self_iff
        unsigned_take_bit_eq word_unat_eq_iff)
  then show "bit w n \<Longrightarrow> n < k" by (metis bit_take_bit_iff)
qed

lemma marker_fields:
  assumes "fill \<le> ewahFillMax" "literals \<le> ewahLiteralMax" "is_fill fw"
  defines "m \<equiv> ewah_marker fill fw literals"
  shows "drop_bit 1 m AND ewahFillMax = fill" "drop_bit 32 m = literals"
    "(m AND 1 \<noteq> 0) \<longleftrightarrow> fw = MaxUint64"
proof -
  have f: "bit fill n \<Longrightarrow> n < 31" and l: "bit literals n \<Longrightarrow> n < 32" for n
    using assms less_pow_bits [of fill 31 n] less_pow_bits [of literals 32 n]
    by (simp_all add: ewahFillMax_def ewahLiteralMax_def word_le_nat_alt word_less_nat_alt)
  have mx: "bit ewahFillMax n \<longleftrightarrow> n < 31" for n
    using bit_mask_iff [of 31 n, where 'a = "64 word"] by (auto simp: ewahFillMax_def mask_eq_exp_minus_1)
  have m: "bit m n \<longleftrightarrow> n < 64 \<and> (1 \<le> n \<and> bit fill (n - 1) \<or> n = 0 \<and> fw = MaxUint64 \<or> 32 \<le> n \<and> bit literals (n - 32))" for n
  proof -
    have "bit (push_bit 1 fill) n \<longleftrightarrow> 1 \<le> n \<and> n < 64 \<and> bit fill (n - 1)"
      "bit (push_bit 32 literals) n \<longleftrightarrow> 32 \<le> n \<and> n < 64 \<and> bit literals (n - 32)"
      by (simp_all only: bit_push_bit_iff possible_bit_word) simp_all
    then show ?thesis
      by (auto simp: m_def ewah_marker_def Let_def bit_or_iff bit_1_iff simp del: One_nat_def)
  qed
  show "drop_bit 1 m AND ewahFillMax = fill"
    using f by (intro bit_word_eqI) (fastforce simp: bit_and_iff bit_drop_bit_eq m mx)
  show "drop_bit 32 m = literals"
    using l by (intro bit_word_eqI) (auto simp: bit_drop_bit_eq m dest: f)
  show "(m AND 1 \<noteq> 0) \<longleftrightarrow> fw = MaxUint64"
    using m [of 0] by (simp add: and_one_eq odd_iff_mod_2_eq_one bit_0 of_bool_def)
qed

lemma lits_nonzero: "unat (of_nat (length xs) :: u64) = length xs \<Longrightarrow> (of_nat (length xs) :: u64) = 0 \<longleftrightarrow> xs = []"
  by (metis length_0_conv unat_eq_0)

lemma literal_copy_ok:
  "\<forall>l \<in> set ls. \<not> is_fill l \<Longrightarrow> c + length ls \<le> length ws \<Longrightarrow>
     literal_copy ls ws c = (take c ws @ ls @ drop (c + length ls) ws, True)"
proof (induction ls ws c rule: literal_copy.induct)
  case (2 l ls ws c)
  then have "literal_copy (l # ls) ws c = literal_copy ls (ws[c := l]) (c + 1)" by simp
  also have "\<dots> = (take (c + 1) (ws[c := l]) @ ls @ drop (c + 1 + length ls) (ws[c := l]), True)"
    using 2 by (intro 2(1)) auto
  finally show ?case
    using 2(3) by (simp add: take_Suc_conv_app_nth)
qed simp

lemma decode_loop_out:
  "length ws' = c + length ws \<Longrightarrow> decode_loop (ewah_out ws) ws' c = (take c ws' @ ws, Some (length ws'))"
proof (induction ws arbitrary: ws' c rule: ewah_out.induct)
  case (1 ws)
  show ?case
  proof (cases "ws = []")
    case True
    then show ?thesis using 1 by (subst ewah_out.simps, subst decode_loop.simps) simp
  next
    case False
    obtain fill fw lits rest where r: "ewah_round ws = (fill, fw, lits, rest)" by (metis prod_cases4)
    note run = ewah_round_run [OF r False]
    let ?m = "ewah_marker fill fw (of_nat (length lits))"
    have out: "ewah_out ws = ?m # lits @ ewah_out rest"
      using False r by (subst ewah_out.simps) simp
    have lit: "unat (of_nat (length lits) :: u64) = length lits"
      using run(4) by (simp add: unsigned_of_nat take_bit_nat_eq_self)
    have "of_nat (length lits) \<le> ewahLiteralMax"
      unfolding word_le_nat_alt lit literal_max by (rule run(4))
    note m = marker_fields [OF run(3) this run(2)]
    have fw: "(if ?m AND 1 \<noteq> 0 then MaxUint64 else 0) = fw"
      unfolding m(3) using run(2) by auto
    have len: "length ws' = c + unat fill + length lits + length rest"
      using 1(2) arg_cong [OF run(1), of length] by simp
    have guards: "\<not> int (length ws' - c) < uint fill" "uint (of_nat (length lits) :: u64) = int (length lits)"
      "\<not> length ws' - (c + unat fill) < length lits"
      unfolding uint_nat of_nat_less_iff lit using len by simp_all
    let ?w1 = "copy_at c (c + unat fill) (replicate (unat fill) fw) ws'"
    have w1: "?w1 = take c ws' @ replicate (unat fill) fw @ drop (c + unat fill) ws'"
      using len by (simp add: copy_at_def Let_def)
    have lc: "literal_copy lits ?w1 (c + unat fill)
        = (take (c + unat fill) ?w1 @ lits @ drop (c + unat fill + length lits) ?w1, True)"
      using len by (intro literal_copy_ok run(5)) simp
    let ?w2 = "take (c + unat fill) ?w1 @ lits @ drop (c + unat fill + length lits) ?w1"
    have "decode_loop (ewah_out ws) ws' c = decode_loop (ewah_out rest) ?w2 (c + unat fill + length lits)"
      using run(6) unfolding out
      by (subst decode_loop.simps) (auto simp add: Let_def m(1,2) fw lit lc guards lits_nonzero [OF lit] simp del: One_nat_def)
    also have "\<dots> = (take (c + unat fill + length lits) ?w2 @ rest, Some (length ?w2))"
      using len by (intro 1(1) [OF False r [symmetric] refl refl refl]) simp
    also have "take (c + unat fill + length lits) ?w2 @ rest
        = take c ws' @ (replicate (unat fill) fw @ lits @ rest)"
      using len by (simp add: w1)
    also have "replicate (unat fill) fw @ lits @ rest = ws"
      by (rule run(1) [symmetric])
    finally show ?thesis using len by simp
  qed
qed

section \<open>Encoded length\<close>

lemma literal_loop_stop:
  "literal_loop n ws = (ls, rest) \<Longrightarrow> n \<le> ewahLiteralMax \<Longrightarrow> rest \<noteq> [] \<Longrightarrow>
     is_fill (hd rest) \<or> unat n + length ls = unat ewahLiteralMax"
proof (induction n ws arbitrary: ls rest rule: literal_loop.induct)
  case (2 n w ws)
  show ?case
  proof (cases "n < ewahLiteralMax \<and> \<not> is_fill w")
    case True
    then have n1: "unat (n + 1) = Suc (unat n)" "n + 1 \<le> ewahLiteralMax"
      using unat_Suc64 [of n ewahLiteralMax] by (auto simp: word_le_nat_alt word_less_nat_alt)
    obtain ls' where ls: "ls = w # ls'" "literal_loop (n + 1) ws = (ls', rest)"
      using 2(2) True by (auto split: prod.splits)
    then have "is_fill (hd rest) \<or> unat (n + 1) + length ls' = unat ewahLiteralMax"
      using 2(1,4) n1 True by blast
    then show ?thesis using ls(1) n1(1) by simp
  next
    case False
    then have "ls = []" "rest = w # ws"
      using 2(2) by (simp_all only: literal_loop.simps if_False prod.inject)
    moreover have "n = ewahLiteralMax \<or> is_fill w" using False 2(3) by auto
    ultimately show ?thesis by auto
  qed
qed simp

lemma ewah_round_stop:
  assumes "ewah_round ws = (fill, fw, lits, ws')" "ws \<noteq> []" "ws' \<noteq> []"
  shows "is_fill (hd ws') \<or> length lits = 4294967295"
proof -
  obtain ws1 where "literal_loop 0 ws1 = (lits, ws')"
    using assms(1) by (auto simp: ewah_round_def split: prod.splits)
  then show "is_fill (hd ws') \<or> length lits = 4294967295"
    using literal_loop_stop [of 0 ws1 lits ws'] assms(3) by (simp add: literal_max)
qed

lemma ewah_round_fill:
  assumes "ewah_round ws = (fill, fw, lits, ws')" "ws \<noteq> []" "is_fill (hd ws)"
  shows "0 < unat fill"
proof (rule ccontr)
  assume "\<not> 0 < unat fill"
  then have "ws = lits @ ws'" "lits \<noteq> []"
    using ewah_round_run(1,6) [OF assms(1,2)] by (auto simp: unat_gt_0)
  then show False
    using ewah_round_run(5) [OF assms(1,2)] assms(3) by (cases lits) auto
qed

lemma ewah_out_Cons:
  "ewah_round ws = (fill, fw, lits, ws') \<Longrightarrow> ws \<noteq> [] \<Longrightarrow>
     length (ewah_out ws) = 1 + length lits + length (ewah_out ws')"
  by (subst ewah_out.simps) simp

lemma ewah_out_fill_bound:
  "ws = [] \<or> is_fill (hd ws) \<Longrightarrow> length ws \<le> 4294967295 \<Longrightarrow> length (ewah_out ws) \<le> length ws"
proof (induction ws rule: ewah_out.induct)
  case (1 ws)
  show ?case
  proof (cases "ws = []")
    case True
    then show ?thesis by (subst ewah_out.simps) simp
  next
    case False
    obtain fill fw lits ws' where r: "ewah_round ws = (fill, fw, lits, ws')" by (metis prod_cases4)
    have len: "length ws = unat fill + length lits + length ws'"
      using arg_cong [OF ewah_round_run(1) [OF r False], of length] by simp
    have "0 < unat fill" using ewah_round_fill [OF r False] 1(2) False by simp
    moreover have "ws' = [] \<or> is_fill (hd ws')"
      using ewah_round_stop [OF r False] len 1(3) calculation by (cases "ws' = []") auto
    then have "length (ewah_out ws') \<le> length ws'"
      using 1(3) len by (intro 1(1) [OF False r [symmetric] refl refl refl]) simp_all
    ultimately show ?thesis
      using ewah_out_Cons [OF r False] len by simp
  qed
qed

lemma ewah_out_bound:
  assumes "length ws \<le> 4294967295"
  shows "length (ewah_out ws) \<le> length ws + 1"
proof (cases "ws = [] \<or> is_fill (hd ws)")
  case True
  then show ?thesis using ewah_out_fill_bound [OF _ assms] by simp
next
  case False
  then have ne: "ws \<noteq> []" by simp
  obtain fill fw lits ws' where r: "ewah_round ws = (fill, fw, lits, ws')" by (metis prod_cases4)
  have len: "length ws = unat fill + length lits + length ws'"
    using arg_cong [OF ewah_round_run(1) [OF r ne], of length] by simp
  have "ws' = [] \<or> is_fill (hd ws')"
    using ewah_round_stop [OF r ne] len assms by (cases "ws' = []") auto
  then have "length (ewah_out ws') \<le> length ws'"
    using assms len by (intro ewah_out_fill_bound) simp_all
  then show ?thesis
    using ewah_out_Cons [OF r ne] len by simp
qed

section \<open>Properties of the encoding\<close>

text \<open>
  C16: Encoding a bit set with a clean tail succeeds whenever the destination has one word more
  than the set, uses at most that many words, and decoding the written words into any bit set
  of the same size gives the original set back, without an error.
\<close>

theorem EWAH_round_trip:
  assumes "validTail st" "length (bs_words st) \<le> 4294967295"
    and "length (bs_words st) + 1 \<le> length destination"
    and "bs_length st0 = bs_length st" "length (bs_words st0) = length (bs_words st)"
  shows "\<exists>d n. EncodeEWAH st destination = Inr (d, n) \<and> n \<le> length (bs_words st) + 1
    \<and> DecodeEWAH st0 (take n d) = (st, None)"
proof -
  let ?out = "ewah_out (bs_words st)"
  have fits: "length ?out \<le> length (bs_words st) + 1"
    by (rule ewah_out_bound) (rule assms(2))
  have enc: "EncodeEWAH st destination = Inr (?out @ drop (length ?out) destination, length ?out)"
    using encode_loop_out [of 0 destination "bs_words st"] fits assms(1,3) by (simp add: EncodeEWAH_def)
  have st: "st0\<lparr>bs_words := bs_words st\<rparr> = st"
    using assms(4) by simp
  have "DecodeEWAH st0 ?out = (st, None)"
    using decode_loop_out [of "replicate (length (bs_words st)) 0" 0 "bs_words st"] assms(1,5)
    by (simp add: DecodeEWAH_def st)
  then show ?thesis
    using enc fits by auto
qed

theorem EWAH_round_trip_witness:
  "\<exists>d n. EncodeEWAH \<lparr>bs_words = [0, 0, 5, MaxUint64, 3], bs_length = 260\<rparr> (replicate 6 0) = Inr (d, n) \<and> n \<le> 6
    \<and> DecodeEWAH \<lparr>bs_words = [1, 2, 3, 4, 5], bs_length = 260\<rparr> (take n d)
        = (\<lparr>bs_words = [0, 0, 5, MaxUint64, 3], bs_length = 260\<rparr>, None)"
proof -
  let ?st = "\<lparr>bs_words = [0, 0, 5, MaxUint64, 3], bs_length = 260\<rparr>"
  have "\<exists>d n. EncodeEWAH ?st (replicate 6 0) = Inr (d, n) \<and> n \<le> length (bs_words ?st) + 1
    \<and> DecodeEWAH \<lparr>bs_words = [1, 2, 3, 4, 5], bs_length = 260\<rparr> (take n d) = (?st, None)"
    by (rule EWAH_round_trip) (simp_all add: validTail_def Let_def)
  moreover have "length (bs_words ?st) + 1 = 6" by simp
  ultimately show ?thesis by (simp only:)
qed

lemma literal_copy_length: "length (fst (literal_copy ls ws c)) = length ws"
  by (induction ls ws c rule: literal_copy.induct) auto

lemma decode_loop_length: "length (fst (decode_loop enc ws c)) = length ws"
proof (induction enc arbitrary: ws c rule: length_induct)
  case (1 enc)
  show ?case
  proof (cases enc)
    case Nil
    then show ?thesis by (subst decode_loop.simps) simp
  next
    case (Cons m rest)
    let ?fill = "drop_bit 1 m AND ewahFillMax" and ?lits = "unat (drop_bit 32 m)"
    define fw where "fw = (if m AND 1 \<noteq> 0 then MaxUint64 else 0 :: u64)"
    define w1 where "w1 = copy_at c (c + unat ?fill) (replicate (unat ?fill) fw) ws"
    obtain w2 ok where lc: "literal_copy (take ?lits rest) w1 (c + unat ?fill) = (w2, ok)"
      by fastforce
    have len: "length w1 = length ws" "length w2 = length ws"
      using literal_copy_length [of "take ?lits rest" w1 "c + unat ?fill"] lc by (simp_all add: w1_def)
    have "decode_loop enc ws c \<in> {(ws, None), (w1, None), (w2, None),
        decode_loop (drop ?lits rest) w2 (c + unat ?fill + ?lits)}"
      unfolding Cons by (subst decode_loop.simps)
        (simp add: Let_def lc len fw_def [symmetric] w1_def [symmetric] del: One_nat_def)
    moreover have "length (fst (decode_loop (drop ?lits rest) w2 (c + unat ?fill + ?lits))) = length w2"
      using 1 Cons by simp
    ultimately show ?thesis using len by auto
  qed
qed

lemma DecodeEWAH_ok:
  assumes "bitset_ok st" "DecodeEWAH st enc = (st', None)"
  shows "bitset_ok st'" "bs_length st' = bs_length st"
  using assms decode_loop_length [of enc "replicate (length (bs_words st)) 0" 0]
  by (auto simp: DecodeEWAH_def bitset_ok_def Let_def split: prod.splits option.splits if_splits)



end
