(* ===== verification/Config.thy ===== *)
theory Config
  imports Checked_Arith Frame
begin

text \<open>
  Cluster and process configuration, \<^verbatim>\<open>replication/config.go\<close> and \<^verbatim>\<open>membership.go\<close>, and the
  checkpoint schedule of \<^verbatim>\<open>replica_checkpoint.go\<close>: validation, quorum sizes, the derived
  storage layout and the fingerprint. A \<^verbatim>\<open>time.Duration\<close> is only compared here and is an
  integer.
\<close>

section \<open>Cluster configuration\<close>

abbreviation (input) ActiveMax :: u8 where "ActiveMax \<equiv> 6"
abbreviation (input) StandbyMax :: u8 where "StandbyMax \<equiv> 6"
abbreviation (input) MembersMax :: nat where "MembersMax \<equiv> 12"
abbreviation (input) SectorSize :: u64 where "SectorSize \<equiv> 4096"
abbreviation (input) SuperblockBytes :: u64 where "SuperblockBytes \<equiv> 8192"
abbreviation (input) HeaderBytes :: u64 where "HeaderBytes \<equiv> 256"

record ClusterConfig =
  CacheLineSize :: u64
  ClientsMax :: u64
  cfg_PipelineMax :: u64
  ViewChangeHeadersSuffixMax :: u64
  ReplicationQuorumMax :: u64
  JournalSlots :: u64
  cfg_MessageSizeMax :: u64
  cfg_ApplicationBatchSizeMax :: u64
  cfg_ApplicationReplySizeMax :: u64
  SuperblockCopies :: u64
  BlockSize :: u64
  StorageLevels :: u64
  StorageGrowthFactor :: u64
  CompactionOps :: u64
  StorageSnapshotsMax :: u64
  ManifestCompactExtraBlocks :: u64
  TableCoalescingThresholdPercent :: u64
  cfg_ReleaseHistoryMax :: u64
  StorageScansMax :: u64

definition DefaultClusterConfig :: ClusterConfig where
  "DefaultClusterConfig = \<lparr>CacheLineSize = 64, ClientsMax = 64, cfg_PipelineMax = 8,
     ViewChangeHeadersSuffixMax = 9, ReplicationQuorumMax = 3, JournalSlots = 1024,
     cfg_MessageSizeMax = 1048576, cfg_ApplicationBatchSizeMax = 1048576 - HeaderBytes,
     cfg_ApplicationReplySizeMax = 1048576 - HeaderBytes, SuperblockCopies = 4, BlockSize = 524288,
     StorageLevels = 7, StorageGrowthFactor = 8, CompactionOps = 32, StorageSnapshotsMax = 32,
     ManifestCompactExtraBlocks = 1, TableCoalescingThresholdPercent = 50, cfg_ReleaseHistoryMax = 64,
     StorageScansMax = 6\<rparr>"

record Quorums =
  Replication :: u8
  ViewChange :: u8
  Negative :: u8
  Majority :: u8
  Upgrade :: u8

definition QuorumsFor :: "u8 \<Rightarrow> u8 \<Rightarrow> Quorums option" where
  "QuorumsFor activeCount replicationQuorumMax =
     (if activeCount = 0 \<or> activeCount > ActiveMax \<or> replicationQuorumMax = 0 then None
      else let replication = min replicationQuorumMax ((activeCount + 1) div 2);
               replication = (if activeCount = 2 then 2 else replication);
               viewChange = activeCount - replication + 1;
               viewChange = (if activeCount = 2 then 2 else viewChange)
      in Some \<lparr>Replication = replication, ViewChange = viewChange,
               Negative = activeCount - replication + 1, Majority = activeCount div 2 + 1,
               Upgrade = activeCount\<rparr>)"

definition CheckpointInterval :: "ClusterConfig \<Rightarrow> u64 option" where
  "CheckpointInterval cfg = do {
     twicePipeline \<leftarrow> checkedMul 2 (cfg_PipelineMax cfg);
     rounded \<leftarrow> checkedRoundUp twicePipeline (CompactionOps cfg);
     subtrahend \<leftarrow> checkedAdd (CompactionOps cfg) rounded;
     (if JournalSlots cfg \<le> subtrahend then None else Some (JournalSlots cfg - subtrahend))
   }"

definition BlockBase :: "ClusterConfig \<Rightarrow> u64 option" where
  "BlockBase cfg = do {
     superblockSize \<leftarrow> checkedMul (SuperblockCopies cfg) SuperblockBytes;
     headerBytes \<leftarrow> checkedMul (JournalSlots cfg) HeaderBytes;
     headerSize \<leftarrow> checkedAlignUp headerBytes SectorSize;
     prepareBase \<leftarrow> checkedAdd superblockSize headerSize;
     prepareStride \<leftarrow> checkedAlignUp (cfg_MessageSizeMax cfg) SectorSize;
     prepareSize \<leftarrow> checkedMul (JournalSlots cfg) prepareStride;
     replyBase \<leftarrow> checkedAdd prepareBase prepareSize;
     replySize \<leftarrow> checkedMul (ClientsMax cfg) prepareStride;
     endOffset \<leftarrow> checkedAdd replyBase replySize;
     checkedAlignUp endOffset (BlockSize cfg)
   }"

definition BlockOffset :: "ClusterConfig \<Rightarrow> u64 \<Rightarrow> u64 option" where
  "BlockOffset cfg address =
     (if address = 0 \<or> BlockSize cfg = 0 then None
      else do {
        base \<leftarrow> BlockBase cfg;
        delta \<leftarrow> checkedMul (address - 1) (BlockSize cfg);
        checkedAdd base delta
      })"

text \<open>The guards of \<^verbatim>\<open>ClusterConfig.Validate\<close> in their order, each with the error it returns.\<close>

definition cluster_guards :: "ClusterConfig \<Rightarrow> u8 \<Rightarrow> u8 \<Rightarrow> (bool \<times> string \<times> string) list" where
  "cluster_guards cfg activeCount standbyCount =
     (let maximumBody = cfg_MessageSizeMax cfg - HeaderBytes
      in
     [(activeCount = 0 \<or> activeCount > ActiveMax, ''ActiveCount'', ''must be between 1 and 6''),
      (standbyCount > StandbyMax \<or> (ucast activeCount + ucast standbyCount :: u16) > 12,
         ''StandbyCount'', ''active and standby members exceed 12''),
      (CacheLineSize cfg \<noteq> 64, ''CacheLineSize'', ''format 1 requires 64''),
      (ClientsMax cfg = 0, ''ClientsMax'', ''must be positive''),
      (cfg_PipelineMax cfg = 0 \<or> cfg_PipelineMax cfg > 15, ''PipelineMax'', ''must be between 1 and 15''),
      (ViewChangeHeadersSuffixMax cfg \<noteq> cfg_PipelineMax cfg + 1,
         ''ViewChangeHeadersSuffixMax'', ''must equal PipelineMax+1''),
      (ReplicationQuorumMax cfg = 0, ''ReplicationQuorumMax'', ''must be positive''),
      (JournalSlots cfg \<le> cfg_PipelineMax cfg, ''JournalSlots'', ''must exceed PipelineMax''),
      (case checkedMul (JournalSlots cfg) HeaderBytes of None \<Rightarrow> True | Some headerSize \<Rightarrow> headerSize < 2 * SectorSize,
         ''JournalSlots'', ''header ring must span at least two sectors''),
      (cfg_MessageSizeMax cfg mod SectorSize \<noteq> 0, ''MessageSizeMax'', ''must be a sector multiple''),
      (case Option.bind (checkedMul (cfg_PipelineMax cfg + 1) HeaderBytes)
              (\<lambda>minimum. checkedAdd minimum (HeaderBytes + 1024)) of
         None \<Rightarrow> True | Some minimumMessageSize \<Rightarrow> cfg_MessageSizeMax cfg < minimumMessageSize,
         ''MessageSizeMax'', ''cannot hold a view and checkpoint''),
      (cfg_ApplicationBatchSizeMax cfg = 0 \<or> cfg_ApplicationBatchSizeMax cfg > maximumBody,
         ''ApplicationBatchSizeMax'', ''must fit a frame body''),
      (cfg_ApplicationReplySizeMax cfg < 64 \<or> cfg_ApplicationReplySizeMax cfg > maximumBody,
         ''ApplicationReplySizeMax'', ''must be between 64 and the maximum frame body''),
      (SuperblockCopies cfg \<noteq> 4 \<and> SuperblockCopies cfg \<noteq> 6 \<and> SuperblockCopies cfg \<noteq> 8,
         ''SuperblockCopies'', ''must be 4, 6, or 8''),
      (BlockSize cfg = 0 \<or> BlockSize cfg mod SectorSize \<noteq> 0 \<or> BlockSize cfg > cfg_MessageSizeMax cfg,
         ''BlockSize'', ''must be a sector multiple no larger than MessageSizeMax''),
      (StorageLevels cfg = 0 \<or> StorageLevels cfg > 64, ''StorageLevels'', ''must be between 1 and 64''),
      (StorageGrowthFactor cfg < 2, ''StorageGrowthFactor'', ''must be at least 2''),
      (CompactionOps cfg = 0 \<or> CompactionOps cfg AND (CompactionOps cfg - 1) \<noteq> 0,
         ''CompactionOps'', ''must be a power of two''),
      (StorageSnapshotsMax cfg = 0, ''StorageSnapshotsMax'', ''must be positive''),
      (ManifestCompactExtraBlocks cfg = 0, ''ManifestCompactExtraBlocks'', ''must be positive''),
      (TableCoalescingThresholdPercent cfg = 0 \<or> TableCoalescingThresholdPercent cfg > 100,
         ''TableCoalescingThresholdPercent'', ''must be between 1 and 100''),
      (cfg_ReleaseHistoryMax cfg = 0 \<or> cfg_ReleaseHistoryMax cfg > 0xFFFF
         \<or> cfg_ReleaseHistoryMax cfg * 4 > maximumBody,
         ''ReleaseHistoryMax'', ''must fit the Ping body and uint16 count''),
      (StorageScansMax cfg = 0, ''StorageScansMax'', ''must be positive''),
      (case CheckpointInterval cfg of None \<Rightarrow> True
         | Some interval \<Rightarrow> interval = 0 \<or> interval mod CompactionOps cfg \<noteq> 0,
         ''JournalSlots'', ''derived checkpoint interval is invalid''),
      (case QuorumsFor activeCount (ucast (min (ReplicationQuorumMax cfg) 0xFF)) of None \<Rightarrow> True
         | Some quorums \<Rightarrow>
             (ucast (Replication quorums) + ucast (ViewChange quorums) :: u16) \<le> ucast activeCount
             \<or> (ucast (Replication quorums) + ucast (Negative quorums) :: u16) \<le> ucast activeCount,
         ''ReplicationQuorumMax'', ''derived quorums do not intersect''),
      (BlockBase cfg = None, ''storage layout'', ''derived offsets overflow'')])"

text \<open>The first guard that holds decides the error.\<close>

primrec check_guards :: "(bool \<times> string \<times> string) list \<Rightarrow> unit result" where
  "check_guards [] = Inr ()"
| "check_guards (g # gs) =
     (if fst g then Inl (ConfigError (fst (snd g)) (snd (snd g))) else check_guards gs)"

definition cluster_Validate :: "ClusterConfig \<Rightarrow> u8 \<Rightarrow> u8 \<Rightarrow> unit result" where
  "cluster_Validate cfg activeCount standbyCount = check_guards (cluster_guards cfg activeCount standbyCount)"

definition FingerprintEncoding :: "ClusterConfig \<Rightarrow> bytes" where
  "FingerprintEncoding cfg =
     foldl (\<lambda>encoded (index, val). copy_at (index * 8) 136 (put64 val) encoded) (replicate 136 0)
       (enumerate 0 [CacheLineSize cfg, ClientsMax cfg, cfg_PipelineMax cfg, ViewChangeHeadersSuffixMax cfg,
          ReplicationQuorumMax cfg, JournalSlots cfg, cfg_MessageSizeMax cfg, SuperblockCopies cfg,
          BlockSize cfg, StorageLevels cfg, StorageGrowthFactor cfg, CompactionOps cfg,
          StorageSnapshotsMax cfg, ManifestCompactExtraBlocks cfg, TableCoalescingThresholdPercent cfg,
          cfg_ReleaseHistoryMax cfg, StorageScansMax cfg])"

definition Fingerprint :: "ClusterConfig \<Rightarrow> Checksum" where
  "Fingerprint cfg = ChecksumBytes (FingerprintEncoding cfg)"

definition checkpointAfter :: "ClusterConfig \<Rightarrow> Op \<Rightarrow> Op option" where
  "checkpointAfter cluster current =
     (case CheckpointInterval cluster of None \<Rightarrow> None
      | Some interval \<Rightarrow>
        if interval = 0 then None
        else if current = 0 then Some (interval - 1)
        else checkedAdd current interval)"

definition checkpointTrigger :: "ClusterConfig \<Rightarrow> Op \<Rightarrow> Op option" where
  "checkpointTrigger cluster checkpoint = checkedAdd checkpoint (CompactionOps cluster)"

section \<open>Process configuration\<close>

record ProcessConfig =
  Tick :: int
  InitialRTT :: int
  MaximumRTT :: int
  RTTMultiplier :: u32
  BackoffMin :: int
  BackoffMax :: int
  PrimaryRequestQueueMax :: u32
  JournalReadConcurrency :: u32
  JournalWriteConcurrency :: u32
  ReplyReadConcurrency :: u32
  ReplyWriteConcurrency :: u32
  BlockReadConcurrency :: u32
  BlockWriteConcurrency :: u32
  StorageSizeLimit :: u64
  cfg_RepairRequestsMax :: u32
  RepairReadsMax :: u32
  ScrubReadConcurrency :: u32
  ScrubWriteConcurrency :: u32
  ScrubCycle :: int
  ScrubIntervalMin :: int
  ScrubIntervalMax :: int
  ClockOffsetToleranceMax :: int
  ClockEpochMax :: int
  ClockWindowMin :: int
  ClockWindowMax :: int

abbreviation (input) Millisecond :: int where "Millisecond \<equiv> 1000000"
abbreviation (input) Second :: int where "Second \<equiv> 1000000000"

definition DefaultProcessConfig :: ProcessConfig where
  "DefaultProcessConfig = \<lparr>Tick = 10 * Millisecond, InitialRTT = 300 * Millisecond, MaximumRTT = 60 * Second,
     RTTMultiplier = 2, BackoffMin = 10 * Millisecond, BackoffMax = 10 * Second,
     PrimaryRequestQueueMax = 2, JournalReadConcurrency = 8, JournalWriteConcurrency = 32,
     ReplyReadConcurrency = 1, ReplyWriteConcurrency = 2, BlockReadConcurrency = 32,
     BlockWriteConcurrency = 32, StorageSizeLimit = push_bit 40 16, cfg_RepairRequestsMax = 4,
     RepairReadsMax = 4, ScrubReadConcurrency = 1, ScrubWriteConcurrency = 1,
     ScrubCycle = 180 * 24 * 3600 * Second, ScrubIntervalMin = 50 * Millisecond,
     ScrubIntervalMax = 10 * Second, ClockOffsetToleranceMax = 10 * Second, ClockEpochMax = 60 * Second,
     ClockWindowMin = 2 * Second, ClockWindowMax = 20 * Second\<rparr>"

definition concurrencyPositive :: "ProcessConfig \<Rightarrow> bool" where
  "concurrencyPositive cfg \<longleftrightarrow> PrimaryRequestQueueMax cfg > 0 \<and> JournalReadConcurrency cfg > 0
     \<and> JournalWriteConcurrency cfg > 0 \<and> ReplyReadConcurrency cfg > 0 \<and> ReplyWriteConcurrency cfg > 0
     \<and> BlockReadConcurrency cfg > 0 \<and> BlockWriteConcurrency cfg > 0 \<and> cfg_RepairRequestsMax cfg > 0
     \<and> RepairReadsMax cfg > 0 \<and> ScrubReadConcurrency cfg > 0 \<and> ScrubWriteConcurrency cfg > 0"

definition process_guards :: "ProcessConfig \<Rightarrow> ClusterConfig \<Rightarrow> (bool \<times> string \<times> string) list" where
  "process_guards cfg cluster =
     [(Tick cfg \<le> 0 \<or> InitialRTT cfg < Tick cfg \<or> MaximumRTT cfg < InitialRTT cfg,
         ''RTT'', ''require 0 < Tick <= InitialRTT <= MaximumRTT''),
      (Tick cfg \<ge> 50 * Millisecond, ''Tick'', ''must be less than half the 100ms failure-detector minimum''),
      (RTTMultiplier cfg = 0, ''RTTMultiplier'', ''must be positive''),
      (BackoffMin cfg \<le> 0 \<or> BackoffMax cfg < BackoffMin cfg, ''Backoff'', ''require 0 < BackoffMin <= BackoffMax''),
      (\<not> concurrencyPositive cfg, ''concurrency'', ''queue and concurrency values must be positive''),
      (ScrubIntervalMin cfg \<le> 0 \<or> ScrubIntervalMax cfg < ScrubIntervalMin cfg \<or> ScrubCycle cfg < ScrubIntervalMax cfg,
         ''ScrubInterval'', ''require 0 < minimum <= maximum <= cycle''),
      (ClockWindowMin cfg \<le> 0 \<or> ClockWindowMax cfg < ClockWindowMin cfg \<or> ClockEpochMax cfg < ClockWindowMax cfg,
         ''ClockWindow'', ''require 0 < minimum <= maximum <= epoch''),
      (case BlockBase cluster of None \<Rightarrow> True
         | Some blockBase \<Rightarrow> StorageSizeLimit cfg < blockBase
             \<or> (StorageSizeLimit cfg - blockBase) mod BlockSize cluster \<noteq> 0,
         ''StorageSizeLimit'', ''must cover BlockBase in whole block extents'')]"

definition process_Validate :: "ProcessConfig \<Rightarrow> ClusterConfig \<Rightarrow> unit result" where
  "process_Validate cfg cluster = check_guards (process_guards cfg cluster)"

section \<open>Membership\<close>

record Membership =
  Members :: "MemberID list"
  mem_ActiveCount :: u8
  StandbyCount :: u8
  LocalMember :: MemberID

definition zeroID :: bytes where
  "zeroID = replicate 16 0"

fun members_loop :: "Membership \<Rightarrow> nat \<Rightarrow> nat list \<Rightarrow> nat \<Rightarrow> nat option" where
  "members_loop membership tot [] localMatches = Some localMatches"
| "members_loop membership tot (index # rest) localMatches =
     (let member = Members membership ! index
      in if index < tot
         then if member = zeroID then None
              else let localMatches = (if member = LocalMember membership then localMatches + 1 else localMatches)
              in if list_ex (\<lambda>previous. member = Members membership ! previous) [0..<index] then None
              else members_loop membership tot rest localMatches
         else if member \<noteq> zeroID then None
         else members_loop membership tot rest localMatches)"

definition membership_Validate :: "Membership \<Rightarrow> unit result" where
  "membership_Validate membership =
     (let tot = unat (mem_ActiveCount membership) + unat (StandbyCount membership)
      in if mem_ActiveCount membership = 0 \<or> mem_ActiveCount membership > ActiveMax
            \<or> StandbyCount membership > StandbyMax \<or> tot > MembersMax
         then Inl ErrInvalidMembership
         else case members_loop membership tot [0..<length (Members membership)] 0 of
           None \<Rightarrow> Inl ErrInvalidMembership
         | Some localMatches \<Rightarrow>
             if LocalMember membership = zeroID \<or> localMatches \<noteq> 1 then Inl ErrInvalidMembership else Inr ())"

fun LocalIndex_from :: "MemberID \<Rightarrow> nat \<Rightarrow> MemberID list \<Rightarrow> ReplicaIndex option" where
  "LocalIndex_from localMember index [] = None"
| "LocalIndex_from localMember index (member # rest) =
     (if member = localMember then Some (of_nat index) else LocalIndex_from localMember (index + 1) rest)"

definition LocalIndex :: "Membership \<Rightarrow> ReplicaIndex option" where
  "LocalIndex membership = LocalIndex_from (LocalMember membership) 0 (Members membership)"

text \<open>\<^verbatim>\<open>Primary\<close> panics without active members; the model then has no result.\<close>

definition Primary :: "Membership \<Rightarrow> View \<Rightarrow> ReplicaIndex option" where
  "Primary membership view =
     (if mem_ActiveCount membership = 0 then None
      else Some (ucast (view mod ucast (mem_ActiveCount membership))))"

record Config =
  cfg_Group :: GroupID
  cfg_Membership :: Membership
  Cluster :: ClusterConfig
  Process :: ProcessConfig
  cfg_CurrentRelease :: Release
  cfg_ClientReleaseMin :: Release

definition config_Validate :: "Config \<Rightarrow> unit result" where
  "config_Validate cfg =
     (if cfg_Group cfg = zeroID then Inl (ConfigError ''Group'' ''must be nonzero'')
      else case membership_Validate (cfg_Membership cfg) of
        Inl e \<Rightarrow> Inl (ErrJoin ErrInvalidConfiguration e)
      | Inr _ \<Rightarrow> bind_result
          (cluster_Validate (Cluster cfg) (mem_ActiveCount (cfg_Membership cfg)) (StandbyCount (cfg_Membership cfg)))
          (\<lambda>_. bind_result (process_Validate (Process cfg) (Cluster cfg))
            (\<lambda>_. if cfg_ClientReleaseMin cfg = 0 \<or> cfg_CurrentRelease cfg < cfg_ClientReleaseMin cfg
                 then Inl (ConfigError ''release'' ''require 0 < ClientReleaseMin <= CurrentRelease'')
                 else Inr ())))"

section \<open>Quorums\<close>

text \<open>
  What the protocol needs of the quorum sizes of a cluster, stated for whatever function
  computes them: any replication quorum meets any view-change quorum and any set of replicas
  that may answer negatively, and two view-change quorums meet.
\<close>

locale quorum_system =
  fixes quorums :: "u8 \<Rightarrow> u8 \<Rightarrow> Quorums option"
  assumes replication_view: "quorums n m = Some q \<Longrightarrow> unat n < unat (Replication q) + unat (ViewChange q)"
    and replication_negative: "quorums n m = Some q \<Longrightarrow> unat n < unat (Replication q) + unat (Negative q)"
    and view_view: "quorums n m = Some q \<Longrightarrow> unat n < 2 * unat (ViewChange q)"
    and in_cluster: "quorums n m = Some q \<Longrightarrow> 0 < unat (Replication q) \<and> unat (Replication q) \<le> unat n
      \<and> unat (ViewChange q) \<le> unat n \<and> unat (Negative q) \<le> unat n"
begin

lemma sets_meet:
  fixes A B :: "nat set"
  assumes "A \<subseteq> {..<n}" "B \<subseteq> {..<n}" "n < a + b" "a \<le> card A" "b \<le> card B"
  shows "A \<inter> B \<noteq> {}"
proof
  assume "A \<inter> B = {}"
  moreover have "finite A" "finite B" using assms(1,2) finite_subset by blast+
  ultimately have "card A + card B = card (A \<union> B)" by (simp add: card_Un_disjoint)
  also have "\<dots> \<le> card {..<n}" using assms(1,2) by (intro card_mono) auto
  finally show False using assms by simp
qed

lemma commit_survives:
  assumes "quorums n m = Some q" "R \<subseteq> {..<unat n}" "V \<subseteq> {..<unat n}"
    and "unat (Replication q) \<le> card R" "unat (ViewChange q) \<le> card V"
  shows "R \<inter> V \<noteq> {}"
  using sets_meet [OF assms(2,3) replication_view [OF assms(1)] assms(4,5)] .

lemma nack_excludes_commit:
  assumes "quorums n m = Some q" "R \<subseteq> {..<unat n}" "N \<subseteq> {..<unat n}"
    and "unat (Replication q) \<le> card R" "unat (Negative q) \<le> card N"
  shows "R \<inter> N \<noteq> {}"
  using sets_meet [OF assms(2,3) replication_negative [OF assms(1)] assms(4,5)] .

lemma views_meet:
  assumes "quorums n m = Some q" "V \<subseteq> {..<unat n}" "W \<subseteq> {..<unat n}"
    and "unat (ViewChange q) \<le> card V" "unat (ViewChange q) \<le> card W"
  shows "V \<inter> W \<noteq> {}"
  using sets_meet [of V "unat n" W "unat (ViewChange q)" "unat (ViewChange q)"] view_view [OF assms(1)] assms
  by simp

end

lemma active_cases:
  assumes "(n :: u8) \<noteq> 0" "\<not> (6 < n)"
  obtains "n = 1" | "n = 2" | "n = 3" | "n = 4" | "n = 5" | "n = 6"
proof -
  have "unat n \<noteq> 0" "unat n \<le> 6"
    using assms by (simp_all add: unat_eq_0 word_less_nat_alt)
  then have "unat n \<in> {1, 2, 3, 4, 5, 6}" by auto
  then have "n \<in> {1, 2, 3, 4, 5, 6}"
    by (auto simp: word_unat_eq_iff)
  then show thesis using that by auto
qed

lemma small_min:
  assumes "(m :: u8) \<noteq> 0" "1 \<le> unat k"
  shows "1 \<le> unat (min m k)" "unat (min m k) \<le> unat k"
  using assms by (auto simp: min_def word_le_nat_alt unat_gt_0 Suc_le_eq)

lemma QuorumsFor_sizes:
  assumes "QuorumsFor n m = Some q"
  shows "unat n \<in> {1, 2, 3, 4, 5, 6}"
    "1 \<le> unat (Replication q)" "2 * unat (Replication q) \<le> unat n + 1 + (if n = 2 then 1 else 0)"
    "unat (ViewChange q) = (if n = 2 then 2 else unat n - unat (Replication q) + 1)"
    "unat (Negative q) = unat n - unat (Replication q) + 1"
    "unat (Majority q) = unat n div 2 + 1" "Upgrade q = n"
proof -
  have n: "n \<noteq> 0" "\<not> (6 < n)" "m \<noteq> 0"
    using assms by (auto simp: QuorumsFor_def split: if_splits)
  from active_cases [OF n(1,2)] have
    "unat n \<in> {1, 2, 3, 4, 5, 6} \<and> 1 \<le> unat (Replication q)
      \<and> 2 * unat (Replication q) \<le> unat n + 1 + (if n = 2 then 1 else 0)
      \<and> unat (ViewChange q) = (if n = 2 then 2 else unat n - unat (Replication q) + 1)
      \<and> unat (Negative q) = unat n - unat (Replication q) + 1
      \<and> unat (Majority q) = unat n div 2 + 1 \<and> Upgrade q = n"
  proof cases
    case 2
    then show ?thesis using assms n by (auto simp: QuorumsFor_def Let_def)
  qed (use assms n small_min [of m 1] small_min [of m 2] small_min [of m 3] in
        \<open>auto simp: QuorumsFor_def Let_def unat_sub word_le_nat_alt\<close>)
  then show "unat n \<in> {1, 2, 3, 4, 5, 6}"
    "1 \<le> unat (Replication q)" "2 * unat (Replication q) \<le> unat n + 1 + (if n = 2 then 1 else 0)"
    "unat (ViewChange q) = (if n = 2 then 2 else unat n - unat (Replication q) + 1)"
    "unat (Negative q) = unat n - unat (Replication q) + 1"
    "unat (Majority q) = unat n div 2 + 1" "Upgrade q = n"
    by auto
qed

lemma unat_eq_2: "(n :: u8) = 2 \<longleftrightarrow> unat n = 2"
  by (simp add: word_unat_eq_iff)

interpretation qs: quorum_system QuorumsFor
proof unfold_locales
  fix n m q assume q: "QuorumsFor n m = Some q"
  note sz = QuorumsFor_sizes [OF q, unfolded unat_eq_2]
  show "unat n < unat (Replication q) + unat (ViewChange q)"
    "unat n < unat (Replication q) + unat (Negative q)" "unat n < 2 * unat (ViewChange q)"
    "0 < unat (Replication q) \<and> unat (Replication q) \<le> unat n \<and> unat (ViewChange q) \<le> unat n
      \<and> unat (Negative q) \<le> unat n"
    using sz by (auto split: if_splits)
qed

section \<open>Validated configurations\<close>

lemma unat_numeral_4096: "unat (4096 :: u64) = 4096"
  by simp

lemma check_guards_ok: "check_guards gs = Inr () \<longleftrightarrow> list_all (\<lambda>g. \<not> fst g) gs"
  by (induction gs) auto

lemma ceil_mult_ge: "0 < (c :: nat) \<Longrightarrow> v \<le> (v + (c - 1)) div c * c"
  using div_mult_mod_eq [of "v + (c - 1)" c] mod_less_divisor [of c "v + (c - 1)"] by linarith

lemma ceil_mult_less: "0 < (c :: nat) \<Longrightarrow> (v + (c - 1)) div c * c < v + c"
  using div_mult_mod_eq [of "v + (c - 1)" c] by linarith

text \<open>The checkpoint interval over natural numbers.\<close>

lemma CheckpointInterval_Some:
  assumes "CheckpointInterval cfg = Some interval"
  defines "c \<equiv> unat (CompactionOps cfg)" and "p \<equiv> unat (cfg_PipelineMax cfg)"
    and "s \<equiv> unat (JournalSlots cfg)"
  defines "r \<equiv> (2 * p + (c - 1)) div c * c"
  shows "0 < c" "c + r < s" "unat interval = s - (c + r)" "2 * p \<le> r"
proof -
  obtain two rounded sub where
    "checkedMul 2 (cfg_PipelineMax cfg) = Some two" "checkedRoundUp two (CompactionOps cfg) = Some rounded"
    "checkedAdd (CompactionOps cfg) rounded = Some sub"
    "\<not> JournalSlots cfg \<le> sub" "interval = JournalSlots cfg - sub"
    using assms(1) by (auto simp: CheckpointInterval_def bind_eq_Some_conv split: if_splits)
  moreover from this have "unat interval = s - unat sub"
    by (simp add: unat_sub s_def)
  ultimately show cs: "0 < c" "c + r < s" "unat interval = s - (c + r)"
    by (auto simp: checkedMul_eq_Some checkedRoundUp_eq_Some checkedAdd_eq_Some c_def p_def s_def r_def
        unat_gt_0 word_le_nat_alt)
  show "2 * p \<le> r" unfolding r_def by (rule ceil_mult_ge) (rule cs)
qed

lemma cluster_ok:
  assumes "cluster_Validate cfg a s = Inr ()"
  shows "a \<noteq> 0" "\<not> ActiveMax < a" "0 < unat (cfg_PipelineMax cfg)" "unat (cfg_PipelineMax cfg) \<le> 15"
    "32 \<le> unat (JournalSlots cfg)" "0 < unat (BlockSize cfg)" "0 < unat (ClientsMax cfg)"
    "SuperblockCopies cfg \<in> {4, 6, 8}" "unat (cfg_MessageSizeMax cfg) mod 4096 = 0"
    "\<exists>q. QuorumsFor a (ucast (min (ReplicationQuorumMax cfg) 0xFF)) = Some q"
    "\<exists>i. CheckpointInterval cfg = Some i \<and> 0 < unat i \<and> unat i mod unat (CompactionOps cfg) = 0"
    "\<exists>b. BlockBase cfg = Some b"
proof -
  note g = assms [unfolded cluster_Validate_def check_guards_ok cluster_guards_def Let_def, simplified]
  show "a \<noteq> 0" "\<not> ActiveMax < a" using g by simp_all
  show "0 < unat (cfg_PipelineMax cfg)" "unat (cfg_PipelineMax cfg) \<le> 15"
    using g by (simp_all add: unat_gt_0 word_less_nat_alt not_less)
  obtain hs where "checkedMul (JournalSlots cfg) HeaderBytes = Some hs" "\<not> hs < 8192"
    using g by (auto split: option.splits)
  then show "32 \<le> unat (JournalSlots cfg)"
    by (simp add: checkedMul_eq_Some word_less_nat_alt)
  show "0 < unat (BlockSize cfg)" "0 < unat (ClientsMax cfg)" using g by (simp_all add: unat_gt_0)
  show "SuperblockCopies cfg \<in> {4, 6, 8}" using g by auto
  have "cfg_MessageSizeMax cfg mod 4096 = 0" using g by simp
  then show "unat (cfg_MessageSizeMax cfg) mod 4096 = 0"
    by (metis unat_mod unsigned_0 unat_numeral_4096)
  show "\<exists>q. QuorumsFor a (ucast (min (ReplicationQuorumMax cfg) 0xFF)) = Some q"
    using g by (auto split: option.splits)
  show "\<exists>i. CheckpointInterval cfg = Some i \<and> 0 < unat i \<and> unat i mod unat (CompactionOps cfg) = 0"
    using g by (auto simp: unat_gt_0 unat_mod [symmetric] split: option.splits)
  show "\<exists>b. BlockBase cfg = Some b" using g by auto
qed

section \<open>Storage layout\<close>

definition align_up :: "nat \<Rightarrow> nat \<Rightarrow> nat" where
  "align_up v a = (v + (a - 1)) div a * a"

lemma align_up_ge: "0 < a \<Longrightarrow> v \<le> align_up v a"
  unfolding align_up_def by (rule ceil_mult_ge)

lemma align_up_less: "0 < a \<Longrightarrow> align_up v a < v + a"
  unfolding align_up_def by (rule ceil_mult_less)

lemma align_up_dvd: "a dvd align_up v a"
  by (simp add: align_up_def)

text \<open>The offsets of the regions of the file, in the order of the file.\<close>

definition prepare_base :: "ClusterConfig \<Rightarrow> nat" where
  "prepare_base cfg = unat (SuperblockCopies cfg) * 8192 + align_up (unat (JournalSlots cfg) * 256) 4096"

definition prepare_stride :: "ClusterConfig \<Rightarrow> nat" where
  "prepare_stride cfg = align_up (unat (cfg_MessageSizeMax cfg)) 4096"

definition reply_base :: "ClusterConfig \<Rightarrow> nat" where
  "reply_base cfg = prepare_base cfg + unat (JournalSlots cfg) * prepare_stride cfg"

definition reply_end :: "ClusterConfig \<Rightarrow> nat" where
  "reply_end cfg = reply_base cfg + unat (ClientsMax cfg) * prepare_stride cfg"

lemma BlockBase_Some:
  assumes "BlockBase cfg = Some b"
  shows "unat b = align_up (reply_end cfg) (unat (BlockSize cfg))" "\<exists>k < 64. unat (BlockSize cfg) = 2 ^ k"
proof -
  obtain sb hb hs pb stride ps rb rs en where steps:
    "checkedMul (SuperblockCopies cfg) SuperblockBytes = Some sb"
    "checkedMul (JournalSlots cfg) HeaderBytes = Some hb" "checkedAlignUp hb SectorSize = Some hs"
    "checkedAdd sb hs = Some pb" "checkedAlignUp (cfg_MessageSizeMax cfg) SectorSize = Some stride"
    "checkedMul (JournalSlots cfg) stride = Some ps" "checkedAdd pb ps = Some rb"
    "checkedMul (ClientsMax cfg) stride = Some rs" "checkedAdd rb rs = Some en"
    "checkedAlignUp en (BlockSize cfg) = Some b"
    using assms unfolding BlockBase_def bind_eq_Some_conv by blast
  note vals = steps [unfolded checkedMul_eq_Some checkedAdd_eq_Some checkedAlignUp_eq_Some]
  have "unat pb = prepare_base cfg" "unat stride = prepare_stride cfg"
    using vals(1-5) by (simp_all add: prepare_base_def prepare_stride_def align_up_def)
  then have "unat en = reply_end cfg"
    using vals(6-9) by (simp add: reply_base_def reply_end_def)
  then show "unat b = align_up (reply_end cfg) (unat (BlockSize cfg))" "\<exists>k < 64. unat (BlockSize cfg) = 2 ^ k"
    using vals(10) by (simp_all add: align_up_def)
qed

lemma BlockOffset_Some:
  assumes "BlockOffset cfg address = Some off"
  shows "0 < unat address"
    "\<exists>b. BlockBase cfg = Some b \<and> unat off = unat b + (unat address - 1) * unat (BlockSize cfg)"
proof -
  have nz: "address \<noteq> 0" using assms by (auto simp: BlockOffset_def split: if_splits)
  then show "0 < unat address" by (simp add: unat_gt_0)
  have "unat (address - 1) = unat address - 1" using nz by (simp add: unat_minus_one)
  then show "\<exists>b. BlockBase cfg = Some b \<and> unat off = unat b + (unat address - 1) * unat (BlockSize cfg)"
    using assms nz
    by (auto simp: BlockOffset_def bind_eq_Some_conv checkedMul_eq_Some checkedAdd_eq_Some split: if_splits)
qed

section \<open>Fingerprint\<close>

lemma copy_at_block:
  assumes "8 * (k + 1) \<le> length d"
  shows "copy_at (k * 8) (length d) (put64 v) d = take (8 * k) d @ put64 v @ drop (8 * (k + 1)) d"
  using assms by (auto simp: copy_at_def Let_def mult.commute add.commute min_def)

lemma encode_fields:
  "length d = n \<Longrightarrow> 8 * (k + length vs) \<le> n \<Longrightarrow>
     foldl (\<lambda>encoded (index, val). copy_at (index * 8) n (put64 val) encoded) d (enumerate k vs)
       = take (8 * k) d @ concat (map put64 vs) @ drop (8 * (k + length vs)) d"
proof (induction vs arbitrary: k d)
  case (Cons v vs)
  let ?d = "take (8 * k) d @ put64 v @ drop (8 * (k + 1)) d"
  have len: "length ?d = n" using Cons.prems by simp
  have "foldl (\<lambda>encoded (index, val). copy_at (index * 8) n (put64 val) encoded) d (enumerate k (v # vs))
      = foldl (\<lambda>encoded (index, val). copy_at (index * 8) n (put64 val) encoded) ?d (enumerate (Suc k) vs)"
    using copy_at_block [of k d v] Cons.prems by simp
  also have "\<dots> = take (8 * Suc k) ?d @ concat (map put64 vs) @ drop (8 * (Suc k + length vs)) ?d"
    using Cons.prems by (intro Cons.IH len) simp
  finally show ?case
    using Cons.prems by (simp add: ac_simps)
qed simp

lemma concat_put64_inj:
  "length xs = length ys \<Longrightarrow> concat (map put64 xs) = concat (map put64 ys) \<longleftrightarrow> xs = ys"
  by (induction rule: list_induct2) (auto simp: le_put_inj)

definition layout_fields :: "ClusterConfig \<Rightarrow> u64 list" where
  "layout_fields cfg = [CacheLineSize cfg, ClientsMax cfg, cfg_PipelineMax cfg, ViewChangeHeadersSuffixMax cfg,
     ReplicationQuorumMax cfg, JournalSlots cfg, cfg_MessageSizeMax cfg, SuperblockCopies cfg,
     BlockSize cfg, StorageLevels cfg, StorageGrowthFactor cfg, CompactionOps cfg,
     StorageSnapshotsMax cfg, ManifestCompactExtraBlocks cfg, TableCoalescingThresholdPercent cfg,
     cfg_ReleaseHistoryMax cfg, StorageScansMax cfg]"

lemma FingerprintEncoding_eq: "FingerprintEncoding cfg = concat (map put64 (layout_fields cfg))"
proof -
  have "length (layout_fields cfg) = 17" by (simp add: layout_fields_def)
  then show ?thesis
    unfolding FingerprintEncoding_def layout_fields_def [symmetric]
    by (subst encode_fields) simp_all
qed

section \<open>Membership\<close>

definition member_ok :: "Membership \<Rightarrow> nat \<Rightarrow> nat \<Rightarrow> bool" where
  "member_ok ms tot i \<longleftrightarrow> (if i < tot
     then Members ms ! i \<noteq> zeroID \<and> (\<forall>j < i. Members ms ! j \<noteq> Members ms ! i)
     else Members ms ! i = zeroID)"

lemma members_loop_Cons:
  "members_loop ms tot (i # is) n =
     (if member_ok ms tot i
      then members_loop ms tot is (if i < tot \<and> Members ms ! i = LocalMember ms then n + 1 else n)
      else None)"
proof -
  have "list_ex (\<lambda>j. Members ms ! i = Members ms ! j) [0..<i] \<longleftrightarrow> (\<exists>j < i. Members ms ! j = Members ms ! i)"
    by (simp add: list_ex_iff atLeast0LessThan) (metis lessThan_iff)
  then show ?thesis
    by (cases "i < tot") (auto simp: member_ok_def Let_def)
qed

lemma members_loop_Some:
  "members_loop ms tot is n = Some k \<longleftrightarrow> list_all (member_ok ms tot) is
     \<and> k = n + length (filter (\<lambda>i. i < tot \<and> Members ms ! i = LocalMember ms) is)"
  by (induction "is" arbitrary: n) (auto simp: members_loop_Cons simp del: members_loop.simps(2))

lemma LocalIndex_from_Some:
  assumes "j < length xs" "xs ! j = x" "\<forall>i < j. xs ! i \<noteq> x"
  shows "LocalIndex_from x k xs = Some (of_nat (k + j))"
  using assms
proof (induction x k xs arbitrary: j rule: LocalIndex_from.induct)
  case (2 x k y ys)
  then show ?case by (cases j) (auto simp: All_less_Suc2 ac_simps)
qed simp

section \<open>Properties\<close>


lemma default_valid: "cluster_Validate DefaultClusterConfig 3 0 = Inr ()"
  by (simp add: cluster_Validate_def check_guards_ok cluster_guards_def DefaultClusterConfig_def
      CheckpointInterval_def BlockBase_def QuorumsFor_def checkedMul_def checkedAdd_def checkedAlignUp_def
      checkedRoundUp_def Let_def)


text \<open>
  C19: Blocks of a validated cluster lie behind every other region of the file and do not
  overlap: the first block starts at a multiple of the block size past the last reply slot,
  and the block of a smaller address ends before the block of a larger one begins.
\<close>

theorem block_offsets_disjoint:
  assumes "cluster_Validate cfg a s = Inr ()" "BlockOffset cfg x = Some ox" "BlockOffset cfg y = Some oy"
    and "x < y"
  shows "reply_end cfg \<le> unat ox \<and> unat ox mod unat (BlockSize cfg) = 0
    \<and> unat ox + unat (BlockSize cfg) \<le> unat oy"
proof -
  let ?bs = "unat (BlockSize cfg)"
  have bs: "0 < ?bs" by (rule cluster_ok(6) [OF assms(1)])
  obtain b where b: "BlockBase cfg = Some b" "unat ox = unat b + (unat x - 1) * ?bs"
    "unat oy = unat b + (unat y - 1) * ?bs"
    using BlockOffset_Some(2) [OF assms(2)] BlockOffset_Some(2) [OF assms(3)] by auto
  have base: "reply_end cfg \<le> unat b" "?bs dvd unat b"
    using align_up_ge [OF bs] align_up_dvd by (simp_all add: BlockBase_Some(1) [OF b(1)])
  have "unat x - 1 + 1 \<le> unat y - 1"
    using assms(4) BlockOffset_Some(1) [OF assms(2)] by (simp add: word_less_nat_alt)
  then have "(unat x - 1 + 1) * ?bs \<le> (unat y - 1) * ?bs" by (rule mult_le_mono1)
  then show ?thesis
    using b base by (simp add: dvd_imp_mod_0)
qed

theorem block_offsets_disjoint_witness:
  "\<exists>ox oy. BlockOffset DefaultClusterConfig 1 = Some ox \<and> BlockOffset DefaultClusterConfig 2 = Some oy
     \<and> unat ox + unat (BlockSize DefaultClusterConfig) \<le> unat oy"
proof -
  obtain ox oy where o: "BlockOffset DefaultClusterConfig 1 = Some ox" "BlockOffset DefaultClusterConfig 2 = Some oy"
    by (simp add: BlockOffset_def BlockBase_def DefaultClusterConfig_def checkedMul_def checkedAdd_def
        checkedAlignUp_def)
  from block_offsets_disjoint [OF default_valid o] o show ?thesis by auto
qed



definition tight_config :: ClusterConfig where
  "tight_config = DefaultClusterConfig\<lparr>cfg_PipelineMax := 15, ViewChangeHeadersSuffixMax := 16,
     JournalSlots := 32, CompactionOps := 1\<rparr>"


text \<open>
  C32: The encoding under the configuration fingerprint has 136 bytes and determines every field
  it covers: two configurations have the same encoding exactly when their 17 layout fields
  agree. The two application size limits are not covered.
\<close>

theorem FingerprintEncoding_injective:
  "length (FingerprintEncoding c) = 136
   \<and> (FingerprintEncoding c = FingerprintEncoding d \<longleftrightarrow> layout_fields c = layout_fields d)
   \<and> FingerprintEncoding (c\<lparr>cfg_ApplicationBatchSizeMax := b, cfg_ApplicationReplySizeMax := r\<rparr>)
       = FingerprintEncoding c"
  unfolding FingerprintEncoding_eq
  by (intro conjI concat_put64_inj) (simp_all add: layout_fields_def)

text \<open>
  C33: In a validated membership the members are distinct and nonzero, the unused slots are
  zero, and the local member has a unique index below the member count.
\<close>

theorem membership_local_index:
  assumes "membership_Validate ms = Inr ()" "length (Members ms) = MembersMax"
  shows "\<exists>i. LocalIndex ms = Some i
    \<and> unat i < unat (mem_ActiveCount ms) + unat (StandbyCount ms) \<and> Members ms ! unat i = LocalMember ms
    \<and> distinct (take (unat (mem_ActiveCount ms) + unat (StandbyCount ms)) (Members ms))
    \<and> allZero (concat (drop (unat (mem_ActiveCount ms) + unat (StandbyCount ms)) (Members ms)))"
proof -
  let ?t = "unat (mem_ActiveCount ms) + unat (StandbyCount ms)" and ?M = "Members ms"
  have t: "?t \<le> 12"
    and all: "list_all (member_ok ms ?t) [0..<12]"
    and one: "length (filter (\<lambda>i. i < ?t \<and> ?M ! i = LocalMember ms) [0..<12]) = 1"
    using assms
    by (auto simp: membership_Validate_def Let_def members_loop_Some not_less split: if_splits option.splits)
  have ok: "member_ok ms ?t i" if "i < 12" for i using all that by (simp add: list_all_iff)
  obtain j where j: "j < 12" "j < ?t" "?M ! j = LocalMember ms"
    using one by (metis (mono_tags, lifting) One_nat_def atLeastLessThan_iff filter_False length_0_conv
        nat.distinct(1) set_upt)
  have "\<forall>i < j. ?M ! i \<noteq> LocalMember ms" using ok [OF j(1)] j by (auto simp: member_ok_def)
  then have "LocalIndex ms = Some (of_nat j)"
    using LocalIndex_from_Some [of j ?M "LocalMember ms" 0] j assms(2) by (simp add: LocalIndex_def)
  moreover have "unat (of_nat j :: u8) = j" using j(1) by (simp add: unsigned_of_nat take_bit_nat_eq_self)
  moreover have "distinct (take ?t ?M)"
    unfolding distinct_conv_nth using ok t assms(2)
    by (auto simp: member_ok_def) (metis less_le_trans linorder_neqE_nat)
  moreover have "allZero (concat (drop ?t ?M))"
    using ok assms(2) by (auto simp: allZero_iff member_ok_def zeroID_def in_set_conv_nth)
  ultimately show ?thesis using j by auto
qed

theorem membership_local_index_witness:
  "\<exists>i. LocalIndex \<lparr>Members = [replicate 16 1, replicate 16 2] @ replicate 10 zeroID, mem_ActiveCount = 2,
      StandbyCount = 0, LocalMember = replicate 16 2\<rparr> = Some i \<and> unat i < 2"
proof -
  let ?ms = "\<lparr>Members = [replicate 16 1, replicate 16 2] @ replicate 10 zeroID, mem_ActiveCount = 2,
      StandbyCount = 0, LocalMember = replicate 16 2\<rparr>"
  have "membership_Validate ?ms = Inr ()"
    by (simp add: membership_Validate_def Let_def zeroID_def upt_rec [of 0] upt_rec [of "Suc 0"] nth_append
        numeral_2_eq_2 [symmetric])
  from membership_local_index [OF this] show ?thesis by auto
qed

end
