(* ===== verification/Sessions.thy ===== *)
theory Sessions
  imports Validation Config "HOL-Library.List_Lexorder" "HOL-Library.Product_Lexorder"
begin

text \<open>
  The client session table, \<^verbatim>\<open>replication/sessions.go\<close>: admission of requests, the two-phase
  commit of a reply into a slot with eviction of the oldest session, and the checkpoint
  trailer. A slot is a natural number; the table has fewer than \<open>2 ^ 32\<close> slots, so the
  conversions of slots to \<^verbatim>\<open>uint32\<close> keep their value. \<^verbatim>\<open>bytes.Compare\<close> is the lexicographic
  order on byte lists.
\<close>

section \<open>Reply fields\<close>

definition replyRequestChecksum :: "Header \<Rightarrow> Checksum" where
  "replyRequestChecksum header = gslice 0 16 (Fields header)"

definition replyContext :: "Header \<Rightarrow> Checksum" where
  "replyContext header = gslice 32 48 (Fields header)"

definition replyClient :: "Header \<Rightarrow> ClientID" where
  "replyClient header = gslice 64 80 (Fields header)"

definition replyOp :: "Header \<Rightarrow> Op" where
  "replyOp header = get64 (gslice 80 88 (Fields header))"

definition replyCommit :: "Header \<Rightarrow> Op" where
  "replyCommit header = get64 (gslice 88 96 (Fields header))"

definition replyTimestamp :: "Header \<Rightarrow> u64" where
  "replyTimestamp header = get64 (gslice 96 104 (Fields header))"

definition replyRequest :: "Header \<Rightarrow> RequestNo" where
  "replyRequest header = get32 (gslice 104 108 (Fields header))"

section \<open>Table\<close>

datatype SessionDecision =
    SessionAdmit | SessionDuplicate | SessionDrop | SessionClientFork | SessionNoSession
  | SessionTooLow | SessionBehind | SessionReleaseMismatch

record SessionRequest =
  sr_Client :: ClientID
  sr_Session :: Session
  sr_Request :: RequestNo
  sr_Release :: Release
  sr_RequestChecksum :: Checksum
  sr_Parent :: Checksum

record SessionTableConfig =
  stc_ClientsMax :: u32
  stc_Group :: GroupID
  stc_ActiveCount :: u8
  stc_MessageSizeMax :: u32
  stc_ApplicationReplySizeMax :: u32

record SessionRecord =
  rec_Reply :: Header
  rec_Session :: Session

record SessionCommitPlan =
  plan_Slot :: nat
  plan_Generation :: u64
  plan_Client :: ClientID
  plan_Session :: Session
  plan_ReplyChecksum :: Checksum

record SessionTable =
  st_config :: SessionTableConfig
  records :: "SessionRecord list"
  busy :: "bool list"
  generations :: "u64 list"
  count :: u32

definition zeroRecord :: SessionRecord where
  "zeroRecord = \<lparr>rec_Reply = zeroHeader, rec_Session = 0\<rparr>"

definition NewSessionTable :: "SessionTableConfig \<Rightarrow> SessionTable result" where
  "NewSessionTable config =
     (if stc_ClientsMax config = 0 \<or> stc_ActiveCount config = 0 \<or> stc_MessageSizeMax config < 256
         \<or> stc_ApplicationReplySizeMax config > stc_MessageSizeMax config - 256
      then Inl ErrSessionCapacity
      else let n = unat (stc_ClientsMax config)
      in Inr \<lparr>st_config = config, records = replicate n zeroRecord, busy = replicate n False,
              generations = replicate n 0, count = 0\<rparr>)"

fun lookup_loop :: "SessionTable \<Rightarrow> ClientID \<Rightarrow> nat list \<Rightarrow> nat \<Rightarrow> nat \<times> bool" where
  "lookup_loop table client [] free = (free, False)"
| "lookup_loop table client (slot # rest) free =
     (let record = records table ! slot
      in if rec_Session record = 0
         then lookup_loop table client rest
                (if free = length (records table) \<and> \<not> busy table ! slot then slot else free)
         else if replyClient (rec_Reply record) = client then (slot, True)
         else lookup_loop table client rest free)"

text \<open>The slot of the client, or the first free slot, and whether the client was found.\<close>

definition lookup :: "SessionTable \<Rightarrow> ClientID \<Rightarrow> nat \<times> bool" where
  "lookup table client =
     lookup_loop table client [0..<length (records table)] (length (records table))"

fun eviction_loop :: "SessionTable \<Rightarrow> nat list \<Rightarrow> nat \<Rightarrow> nat" where
  "eviction_loop table [] selected = selected"
| "eviction_loop table (slot # rest) selected =
     (let candidate = rec_Reply (records table ! slot); current = rec_Reply (records table ! selected)
      in eviction_loop table rest
           (if replyOp candidate < replyOp current
               \<or> replyOp candidate = replyOp current \<and> replyClient candidate < replyClient current
            then slot else selected))"

definition evictionSlot :: "SessionTable \<Rightarrow> nat" where
  "evictionSlot table = eviction_loop table [1..<length (records table)] 0"

definition occupied_context :: "SessionTableConfig \<Rightarrow> Header \<Rightarrow> ValidationContext" where
  "occupied_context config reply = \<lparr>Authenticated = True, ReplicaSource = True, Sender = Author reply,
     ActiveCount = stc_ActiveCount config, MemberCount = stc_ActiveCount config, PipelineMax = 0,
     ReleaseHistoryMax = 0, ApplicationBatchSizeMax = 0,
     ApplicationReplySizeMax = stc_ApplicationReplySizeMax config, RepairRequestsMax = 0,
     CurrentRelease = Release reply, ClientReleaseMin = 0, ctx_Group = stc_Group config,
     MessageSizeMax = stc_MessageSizeMax config\<rparr>"

definition validateOccupied :: "SessionTableConfig \<Rightarrow> Header \<Rightarrow> Session \<Rightarrow> unit result" where
  "validateOccupied config reply session =
     (if session = 0 \<or> Command reply \<noteq> CommandReply \<or> Protocol reply \<noteq> ProtocolVersion
         \<or> Group reply \<noteq> stc_Group config then Inl ErrSessionEncoding
      else if Size reply < 256 \<or> Size reply > stc_MessageSizeMax config
         \<or> Size reply - 256 > stc_ApplicationReplySizeMax config then Inl ErrSessionEncoding
      else if Release reply = 0 \<or> Author reply \<ge> stc_ActiveCount config
         \<or> replyClient reply = zeroID then Inl ErrSessionEncoding
      else if replyCommit reply < session \<or> replyOp reply \<noteq> replyCommit reply
         \<or> replyTimestamp reply = 0 then Inl ErrSessionEncoding
      else case EncodeHeader (replicate 256 0) reply of
        Inl e \<Rightarrow> Inl ErrSessionEncoding
      | Inr (encoded, copyOfReply) \<Rightarrow>
          if HeaderChecksum copyOfReply \<noteq> HeaderChecksum reply then Inl ErrSessionEncoding
          else if ValidateSemantics reply [] (occupied_context config reply) \<noteq> RejectNone
          then Inl ErrSessionEncoding
          else Inr ())"

definition Decide :: "SessionTable \<Rightarrow> SessionRequest \<Rightarrow> SessionDecision" where
  "Decide table request =
     (let (slot, found) = lookup table (sr_Client request)
      in if \<not> found then SessionNoSession
      else let record = records table ! slot
      in if sr_Session request < rec_Session record then SessionTooLow
      else if sr_Session request > rec_Session record then SessionBehind
      else if sr_Release request \<noteq> Release (rec_Reply record) then SessionReleaseMismatch
      else let latestRequest = replyRequest (rec_Reply record)
      in if sr_Request request < latestRequest \<or> sr_Request request > latestRequest + 1 then SessionDrop
      else if sr_Request request = latestRequest
      then (if sr_RequestChecksum request = replyRequestChecksum (rec_Reply record) then SessionDuplicate
            else SessionClientFork)
      else if sr_Parent request \<noteq> replyContext (rec_Reply record) then SessionClientFork
      else SessionAdmit)"

definition take_slot :: "SessionTable \<Rightarrow> nat \<Rightarrow> Header \<Rightarrow> Session \<Rightarrow> SessionCommitPlan \<times> SessionTable" where
  "take_slot table slot reply session =
     (let generation = generations table ! slot + 1
      in (\<lparr>plan_Slot = slot, plan_Generation = generation, plan_Client = replyClient reply,
           plan_Session = session, plan_ReplyChecksum = HeaderChecksum reply\<rparr>,
          table\<lparr>generations := (generations table)[slot := generation], busy := (busy table)[slot := True]\<rparr>))"

definition PlanCommit :: "SessionTable \<Rightarrow> Header \<Rightarrow> Session \<Rightarrow> (SessionCommitPlan \<times> SessionTable) result" where
  "PlanCommit table reply session =
     (case validateOccupied (st_config table) reply session of Inl e \<Rightarrow> Inl e
      | Inr _ \<Rightarrow>
        let (slot, found) = lookup table (replyClient reply)
        in if found
           then (if busy table ! slot then Inl ErrSessionCapacity
                 else Inr (take_slot table slot reply session))
           else if unat (count table) = length (records table)
           then (let slot = evictionSlot table
                 in if busy table ! slot then Inl ErrSessionCapacity
                    else Inr (take_slot table slot reply session))
           else if slot = length (records table) then Inl ErrSessionCapacity
           else Inr (take_slot table slot reply session))"

definition session_of :: "SessionTable \<Rightarrow> ClientID \<Rightarrow> Session option" where
  "session_of table client =
     (let (slot, found) = lookup table client
      in if found then Some (rec_Session (records table ! slot)) else None)"

definition CommitAt :: "SessionTable \<Rightarrow> SessionCommitPlan \<Rightarrow> Header \<Rightarrow> Session \<Rightarrow> SessionTable result" where
  "CommitAt table plan reply session =
     (if plan_Slot plan \<ge> length (records table) \<or> \<not> busy table ! plan_Slot plan then Inl ErrSessionEncoding
      else if generations table ! plan_Slot plan \<noteq> plan_Generation plan \<or> plan_Client plan \<noteq> replyClient reply
      then Inl ErrSessionEncoding
      else if plan_Session plan \<noteq> session \<or> plan_ReplyChecksum plan \<noteq> HeaderChecksum reply
      then Inl ErrSessionEncoding
      else case validateOccupied (st_config table) reply session of Inl e \<Rightarrow> Inl e
      | Inr _ \<Rightarrow>
        let record = records table ! plan_Slot plan
        in Inr (table\<lparr>count := (if rec_Session record = 0 then count table + 1 else count table),
               records := (records table)[plan_Slot plan := \<lparr>rec_Reply = reply, rec_Session = session\<rparr>],
               busy := (busy table)[plan_Slot plan := False]\<rparr>))"

definition Abort :: "SessionTable \<Rightarrow> SessionCommitPlan \<Rightarrow> SessionTable" where
  "Abort table plan =
     (if plan_Slot plan < length (records table) \<and> busy table ! plan_Slot plan
         \<and> generations table ! plan_Slot plan = plan_Generation plan
      then table\<lparr>busy := (busy table)[plan_Slot plan := False]\<rparr> else table)"

text \<open>The table is returned also with the error, because the plan has changed it.\<close>

definition Commit :: "SessionTable \<Rightarrow> Header \<Rightarrow> Session \<Rightarrow> SessionTable \<times> nat result" where
  "Commit table reply session =
     (case PlanCommit table reply session of Inl e \<Rightarrow> (table, Inl e)
      | Inr (plan, table1) \<Rightarrow>
        (case CommitAt table1 plan reply session of
           Inl e \<Rightarrow> (Abort table1 plan, Inl e)
         | Inr table2 \<Rightarrow> (table2, Inr (plan_Slot plan))))"

definition Reply_of :: "SessionTable \<Rightarrow> ClientID \<Rightarrow> Session \<Rightarrow> RequestNo \<Rightarrow> (Header \<times> nat) option" where
  "Reply_of table client session request =
     (let (slot, found) = lookup table client; record = records table ! slot
      in if \<not> found \<or> busy table ! slot \<or> rec_Session record \<noteq> session
            \<or> replyRequest (rec_Reply record) \<noteq> request then None
         else Some (rec_Reply record, slot))"

definition RepairReply :: "SessionTable \<Rightarrow> ClientID \<Rightarrow> Op \<Rightarrow> Checksum \<Rightarrow> (Header \<times> nat) option" where
  "RepairReply table client op checksum =
     (let (slot, found) = lookup table client; record = records table ! slot
      in if \<not> found \<or> busy table ! slot \<or> replyOp (rec_Reply record) \<noteq> op
            \<or> HeaderChecksum (rec_Reply record) \<noteq> checksum then None
         else Some (rec_Reply record, slot))"

definition TrailerSize :: "SessionTable \<Rightarrow> nat" where
  "TrailerSize table = length (records table) * 256 + length (records table) * 8"

fun encode_slots :: "SessionTable \<Rightarrow> nat list \<Rightarrow> bytes \<Rightarrow> bytes result" where
  "encode_slots table [] destination = Inr destination"
| "encode_slots table (slot # rest) destination =
     (let record = records table ! slot; sessionsOffset = length (records table) * 256
      in if rec_Session record = 0 then encode_slots table rest destination
      else let start = slot * 256
      in case EncodeHeader (gslice start (start + 256) destination) (rec_Reply record) of
           Inl e \<Rightarrow> Inl ErrSessionEncoding
         | Inr (encoded, header) \<Rightarrow>
             if HeaderChecksum header \<noteq> HeaderChecksum (rec_Reply record) then Inl ErrSessionEncoding
             else let d = copy_at start (start + 256) encoded destination;
                      d = copy_at (sessionsOffset + slot * 8) (sessionsOffset + slot * 8 + 8)
                            (put64 (rec_Session record)) d
             in encode_slots table rest d)"

definition EncodeTrailer :: "SessionTable \<Rightarrow> bytes \<Rightarrow> (bytes \<times> Checksum) result" where
  "EncodeTrailer table destination =
     (if length destination \<noteq> TrailerSize table then Inl ErrSessionEncoding
      else if list_ex (\<lambda>b. b) (busy table) then Inl ErrSessionCapacity
      else bind_result
        (encode_slots table [0..<length (records table)] (replicate (length destination) 0))
        (\<lambda>d. Inr (d, ChecksumBytes d)))"

fun decode_slots :: "SessionTable \<Rightarrow> bytes \<Rightarrow> nat list \<Rightarrow> SessionRecord list \<Rightarrow> u32
    \<Rightarrow> (SessionRecord list \<times> u32) result" where
  "decode_slots table source [] decoded n = Inr (decoded, n)"
| "decode_slots table source (slot # rest) decoded n =
     (let sessionsOffset = length (records table) * 256;
          headerBytes = gslice (slot * 256) ((slot + 1) * 256) source;
          session = get64 (gslice (sessionsOffset + slot * 8) (sessionsOffset + slot * 8 + 8) source)
      in if session = 0
      then (if \<not> allZero headerBytes then Inl ErrSessionEncoding
            else decode_slots table source rest decoded n)
      else let (header, reason) = DecodeHeader headerBytes (stc_Group (st_config table))
                 (stc_MessageSizeMax (st_config table)) (stc_ActiveCount (st_config table))
      in if reason \<noteq> RejectNone \<or> validateOccupied (st_config table) header session \<noteq> Inr ()
      then Inl ErrSessionEncoding
      else if list_ex (\<lambda>prior. rec_Session (decoded ! prior) \<noteq> 0
             \<and> replyClient (rec_Reply (decoded ! prior)) = replyClient header) [0..<slot]
      then Inl ErrSessionEncoding
      else decode_slots table source rest
             (decoded[slot := \<lparr>rec_Reply = header, rec_Session = session\<rparr>]) (n + 1))"

definition DecodeTrailer :: "SessionTable \<Rightarrow> bytes \<Rightarrow> Checksum \<Rightarrow> SessionTable result" where
  "DecodeTrailer table source expectedChecksum =
     (if length source \<noteq> TrailerSize table then Inl ErrSessionEncoding
      else if ChecksumBytes source \<noteq> expectedChecksum then Inl ErrSessionChecksum
      else bind_result
        (decode_slots table source [0..<length (records table)]
           (replicate (length (records table)) zeroRecord) 0)
        (\<lambda>(decoded, n). Inr (table\<lparr>records := decoded, count := n,
           busy := replicate (length (busy table)) False, generations := map (\<lambda>g. g + 1) (generations table)\<rparr>)))"

section \<open>Invariant\<close>

definition occupied :: "SessionTable \<Rightarrow> nat \<Rightarrow> bool" where
  "occupied table i \<longleftrightarrow> i < length (records table) \<and> rec_Session (records table ! i) \<noteq> 0"

definition client_at :: "SessionTable \<Rightarrow> nat \<Rightarrow> ClientID" where
  "client_at table i = replyClient (rec_Reply (records table ! i))"

definition table_ok :: "SessionTable \<Rightarrow> bool" where
  "table_ok table \<longleftrightarrow> 0 < length (records table) \<and> length (records table) < 2 ^ 32
     \<and> length (busy table) = length (records table) \<and> length (generations table) = length (records table)
     \<and> unat (count table) = card {i. occupied table i}
     \<and> (\<forall>i j. occupied table i \<and> occupied table j \<and> client_at table i = client_at table j \<longrightarrow> i = j)
     \<and> (\<forall>i. occupied table i \<longrightarrow>
          validateOccupied (st_config table) (rec_Reply (records table ! i)) (rec_Session (records table ! i)) = Inr ())
     \<and> (\<forall>i < length (records table). \<not> occupied table i \<longrightarrow> records table ! i = zeroRecord)"

text \<open>The table as a finite map from clients to their latest reply and session.\<close>

definition sessions :: "SessionTable \<Rightarrow> ClientID \<Rightarrow> SessionRecord option" where
  "sessions table client =
     (case lookup table client of (slot, True) \<Rightarrow> Some (records table ! slot) | (_, False) \<Rightarrow> None)"

lemma lookup_loop_found:
  "lookup_loop table client is free = (s, True) \<Longrightarrow>
     s \<in> set is \<and> rec_Session (records table ! s) \<noteq> 0 \<and> client_at table s = client"
  by (induction table client "is" free rule: lookup_loop.induct)
     (auto simp: Let_def client_at_def split: if_splits)

lemma lookup_loop_missing:
  "lookup_loop table client is free = (s, False) \<Longrightarrow>
     (\<forall>i \<in> set is. rec_Session (records table ! i) \<noteq> 0 \<longrightarrow> client_at table i \<noteq> client)
     \<and> (if free \<noteq> length (records table) then s = free
        else s = length (records table) \<and> (\<forall>i \<in> set is. rec_Session (records table ! i) = 0 \<longrightarrow> busy table ! i)
           \<or> s \<in> set is \<and> rec_Session (records table ! s) = 0 \<and> \<not> busy table ! s)"
proof (induction table client "is" free rule: lookup_loop.induct)
  case (2 table client i rest free)
  let ?n = "length (records table)"
  consider (free) "rec_Session (records table ! i) = 0"
    | (other) "rec_Session (records table ! i) \<noteq> 0" "client_at table i \<noteq> client"
    using 2(3) by (auto simp: Let_def client_at_def split: if_splits)
  then show ?case
  proof cases
    case free
    let ?free' = "if free = ?n \<and> \<not> busy table ! i then i else free"
    have "lookup_loop table client rest ?free' = (s, False)" using 2(3) free by (simp add: Let_def)
    note ih = 2(1) [OF refl free this]
    show ?thesis
      using ih free by (cases "free = ?n"; cases "busy table ! i"; cases "i = ?n") auto
  next
    case other
    then have "lookup_loop table client rest free = (s, False)"
      using 2(3) by (simp add: Let_def client_at_def)
    from 2(2) [OF refl _ _ this] other show ?thesis
      by (auto simp: client_at_def split: if_splits)
  qed
qed simp

lemma lookup_found:
  assumes "lookup table client = (s, True)"
  shows "occupied table s" "client_at table s = client"
  using lookup_loop_found [of table client] assms by (fastforce simp: lookup_def occupied_def)+

lemma lookup_missing:
  assumes "lookup table client = (s, False)"
  shows "occupied table i \<Longrightarrow> client_at table i \<noteq> client"
    "s = length (records table) \<and> (\<forall>i < length (records table). \<not> occupied table i \<longrightarrow> busy table ! i)
     \<or> s < length (records table) \<and> \<not> occupied table s \<and> \<not> busy table ! s"
proof -
  note m = lookup_loop_missing [of table client, OF assms [unfolded lookup_def]]
  show "occupied table i \<Longrightarrow> client_at table i \<noteq> client"
    using m by (auto simp: occupied_def)
  show "s = length (records table) \<and> (\<forall>i < length (records table). \<not> occupied table i \<longrightarrow> busy table ! i)
     \<or> s < length (records table) \<and> \<not> occupied table s \<and> \<not> busy table ! s"
    using m by (auto simp: occupied_def split: if_splits)
qed

lemma sessions_iff:
  assumes "table_ok table"
  shows "sessions table client = Some r \<longleftrightarrow>
    (\<exists>i. occupied table i \<and> client_at table i = client \<and> r = records table ! i)"
proof -
  obtain s f where l: "lookup table client = (s, f)" by fastforce
  show ?thesis
  proof (cases f)
    case True
    then have s: "occupied table s" "client_at table s = client"
      using lookup_found [of table client s] l by simp_all
    have unique: "i = s" if "occupied table i" "client_at table i = client" for i
      using assms that s unfolding table_ok_def by metis
    have "sessions table client = Some (records table ! s)"
      using l True by (simp add: sessions_def)
    then show ?thesis using s unique by (metis option.inject)
  next
    case False
    then have "sessions table client = None" using l by (simp add: sessions_def)
    then show ?thesis using lookup_missing(1) l False by (metis option.distinct(1))
  qed
qed

lemma lookup_eq:
  assumes "table_ok table" "occupied table i"
  shows "lookup table (client_at table i) = (i, True)"
proof -
  obtain s f where l: "lookup table (client_at table i) = (s, f)" by fastforce
  have f: f using lookup_missing(1) [of table "client_at table i" s i] l assms(2) by (cases f) auto
  then have "s = i"
    using lookup_found [of table "client_at table i" s] l assms unfolding table_ok_def by metis
  then show ?thesis using l f by simp
qed

section \<open>Committing a reply\<close>

text \<open>Storing a record into a slot, as the successful end of a commit does.\<close>

definition put_record :: "SessionTable \<Rightarrow> nat \<Rightarrow> SessionRecord \<Rightarrow> SessionTable" where
  "put_record table s r = table\<lparr>generations := (generations table)[s := generations table ! s + 1],
     busy := (busy table)[s := False],
     count := (if rec_Session (records table ! s) = 0 then count table + 1 else count table),
     records := (records table)[s := r]\<rparr>"

lemma finite_occupied: "finite {i. occupied table i}"
  by (rule finite_subset [of _ "{..<length (records table)}"]) (auto simp: occupied_def)

lemma card_occupied: "card {i. occupied table i} \<le> length (records table)"
proof -
  have "card {i. occupied table i} \<le> card {..<length (records table)}"
    by (intro card_mono) (auto simp: occupied_def)
  then show ?thesis by simp
qed

lemma occupied_put_record:
  "s < length (records table) \<Longrightarrow> rec_Session r \<noteq> 0 \<Longrightarrow>
     occupied (put_record table s r) i \<longleftrightarrow> i = s \<or> occupied table i"
  by (auto simp: occupied_def put_record_def nth_list_update)

lemma client_at_put_record:
  "s < length (records table) \<Longrightarrow>
     client_at (put_record table s r) i = (if i = s then replyClient (rec_Reply r) else client_at table i)"
  by (auto simp: client_at_def put_record_def nth_list_update)

lemma records_put_record:
  "s < length (records table) \<Longrightarrow>
     records (put_record table s r) ! i = (if i = s then r else records table ! i)"
  by (auto simp: put_record_def nth_list_update)

lemmas put_record_simps = occupied_put_record client_at_put_record records_put_record

lemma table_ok_put_record:
  assumes "table_ok table" "s < length (records table)" "rec_Session r \<noteq> 0"
    and "validateOccupied (st_config table) (rec_Reply r) (rec_Session r) = Inr ()"
    and "\<And>i. occupied table i \<Longrightarrow> i \<noteq> s \<Longrightarrow> client_at table i \<noteq> replyClient (rec_Reply r)"
  shows "table_ok (put_record table s r)"
proof -
  let ?t = "put_record table s r"
  have set: "{i. occupied ?t i} = insert s {i. occupied table i}"
    using assms(2,3) by (auto simp: occupied_put_record)
  have cnt: "unat (count ?t) = card {i. occupied ?t i}"
  proof (cases "occupied table s")
    case True
    then have "count ?t = count table" "insert s {i. occupied table i} = {i. occupied table i}"
      by (auto simp: put_record_def occupied_def)
    then show ?thesis using assms(1) by (simp add: set table_ok_def)
  next
    case False
    have "card (insert s {i. occupied table i}) \<le> length (records table)"
      using card_occupied [of ?t] by (simp add: set) (simp add: put_record_def)
    then have c: "unat (count table) + 1 \<le> length (records table)"
      using False assms(1) by (simp add: finite_occupied table_ok_def)
    then have "unat (count table + 1) = unat (count table) + 1"
      using assms(1) by (subst unat_add_noof) (simp_all add: table_ok_def)
    moreover have "count ?t = count table + 1"
      using False assms(2) by (simp add: put_record_def occupied_def)
    ultimately show ?thesis
      using False assms(1) by (simp add: set finite_occupied table_ok_def)
  qed
  have dist: "i = j" if "occupied ?t i" "occupied ?t j" "client_at ?t i = client_at ?t j" for i j
  proof (cases "i = s \<or> j = s")
    case True
    then show ?thesis using that assms(2,3) assms(5) [of i] assms(5) [of j] by (auto simp: put_record_simps split: if_splits)
  next
    case False
    then have "occupied table i" "occupied table j" "client_at table i = client_at table j"
      using that assms(2,3) by (auto simp: put_record_simps)
    then show ?thesis using assms(1) unfolding table_ok_def by metis
  qed
  have val: "validateOccupied (st_config ?t) (rec_Reply (records ?t ! i)) (rec_Session (records ?t ! i)) = Inr ()"
    if "occupied ?t i" for i
  proof (cases "i = s")
    case False
    then have "occupied table i" using that assms(2,3) by (simp add: put_record_simps)
    then have "validateOccupied (st_config table) (rec_Reply (records table ! i))
        (rec_Session (records table ! i)) = Inr ()"
      using assms(1) unfolding table_ok_def by metis
    then show ?thesis using False assms(2) by (simp add: put_record_def)
  qed (use assms(2,4) in \<open>simp add: put_record_def\<close>)
  have blank: "records ?t ! i = zeroRecord" if "i < length (records table)" "\<not> occupied ?t i" for i
  proof -
    have i: "i \<noteq> s" "\<not> occupied table i" using that(2) assms(2,3) by (simp_all add: put_record_simps)
    then have "records table ! i = zeroRecord" using assms(1) that(1) unfolding table_ok_def by blast
    then show ?thesis using i(1) assms(2) by (simp add: put_record_simps)
  qed
  have len: "length (records ?t) = length (records table)" "length (busy ?t) = length (busy table)"
    "length (generations ?t) = length (generations table)"
    by (simp_all add: put_record_def)
  show ?thesis
    unfolding table_ok_def [of ?t] len
    using assms(1) cnt dist val blank unfolding table_ok_def [of table] by (intro conjI allI impI) blast+
qed

lemma option_eqI: "(\<And>y. a = Some y \<longleftrightarrow> b = Some y) \<Longrightarrow> a = b"
  by (metis option.exhaust)

lemma sessions_put_record:
  assumes "table_ok table" "s < length (records table)" "rec_Session r \<noteq> 0"
    and "validateOccupied (st_config table) (rec_Reply r) (rec_Session r) = Inr ()"
    and "\<And>i. occupied table i \<Longrightarrow> i \<noteq> s \<Longrightarrow> client_at table i \<noteq> replyClient (rec_Reply r)"
  shows "sessions (put_record table s r) =
    (if occupied table s then (sessions table)(client_at table s := None) else sessions table)
      (replyClient (rec_Reply r) \<mapsto> r)"
proof
  fix x
  let ?t = "put_record table s r" and ?c = "replyClient (rec_Reply r)"
  note ok = table_ok_put_record [OF assms]
  have iff: "sessions ?t x = Some y \<longleftrightarrow>
      x = ?c \<and> y = r \<or> (\<exists>i. occupied table i \<and> i \<noteq> s \<and> client_at table i = x \<and> y = records table ! i)" for y
    using assms(2,3) by (auto simp: sessions_iff [OF ok] put_record_simps)
  have old: "(\<exists>i. occupied table i \<and> i \<noteq> s \<and> client_at table i = x \<and> y = records table ! i)
      \<longleftrightarrow> sessions table x = Some y \<and> \<not> (occupied table s \<and> client_at table s = x)" for y
    using assms(1) by (auto simp: sessions_iff [OF assms(1)] table_ok_def)
  have other: "x = ?c \<Longrightarrow> \<not> (\<exists>i. occupied table i \<and> i \<noteq> s \<and> client_at table i = x \<and> y = records table ! i)" for y
    using assms(5) by blast
  show "sessions ?t x = ((if occupied table s then (sessions table)(client_at table s := None)
      else sessions table)(?c \<mapsto> r)) x"
  proof (rule option_eqI)
    fix y
    show "sessions ?t x = Some y \<longleftrightarrow> ((if occupied table s then (sessions table)(client_at table s := None)
        else sessions table)(?c \<mapsto> r)) x = Some y"
    proof (cases "x = ?c")
      case True
      then show ?thesis using iff [of y] other [of y] by simp blast
    next
      case False
      then show ?thesis using iff [of y] old [of y] by simp
    qed
  qed
qed

lemma commit_slot:
  assumes "table_ok table" "s < length (records table)" "\<not> busy table ! s"
    and "validateOccupied (st_config table) reply session = Inr ()"
  shows "CommitAt (snd (take_slot table s reply session)) (fst (take_slot table s reply session)) reply session
    = Inr (put_record table s \<lparr>rec_Reply = reply, rec_Session = session\<rparr>)"
  using assms by (simp add: CommitAt_def take_slot_def put_record_def Let_def table_ok_def)

text \<open>The slot a commit uses.\<close>

definition commit_target :: "SessionTable \<Rightarrow> ClientID \<Rightarrow> nat" where
  "commit_target table client =
     (let (slot, found) = lookup table client
      in if \<not> found \<and> unat (count table) = length (records table) then evictionSlot table else slot)"

definition idle :: "SessionTable \<Rightarrow> bool" where
  "idle table \<longleftrightarrow> (\<forall>i < length (records table). \<not> busy table ! i)"

lemma eviction_loop_in: "eviction_loop table is s \<in> insert s (set is)"
proof (induction "is" arbitrary: s)
  case (Cons a "is")
  then show ?case using Cons [of a] Cons [of s] by (auto simp: Let_def)
qed simp

lemma evictionSlot_less: "0 < length (records table) \<Longrightarrow> evictionSlot table < length (records table)"
  using eviction_loop_in [of table "[1..<length (records table)]" 0] by (auto simp: evictionSlot_def)

text \<open>Sessions are ordered by the operation of their reply, then by client.\<close>

definition older :: "SessionTable \<Rightarrow> nat \<Rightarrow> nat \<Rightarrow> bool" where
  "older table i j \<longleftrightarrow> (replyOp (rec_Reply (records table ! i)), client_at table i)
     \<le> (replyOp (rec_Reply (records table ! j)), client_at table j)"

lemma older_iff: "older table i j \<longleftrightarrow>
    \<not> (replyOp (rec_Reply (records table ! j)) < replyOp (rec_Reply (records table ! i))
       \<or> replyOp (rec_Reply (records table ! j)) = replyOp (rec_Reply (records table ! i))
         \<and> client_at table j < client_at table i)"
  by (auto simp: older_def)

lemma eviction_loop_oldest:
  "\<forall>i \<in> insert s (set is). older table (eviction_loop table is s) i"
proof (induction "is" arbitrary: s)
  case (Cons a "is")
  let ?s = "if \<not> older table s a then a else s"
  have step: "eviction_loop table (a # is) s = eviction_loop table is ?s"
    by (simp add: older_iff client_at_def Let_def)
  have "older table ?s a" "older table ?s s" by (auto simp: older_def)
  then show ?case
    using Cons [of ?s] unfolding step older_def by (auto dest: order_trans)
qed (simp add: older_def)

lemma evictionSlot_oldest:
  assumes "i < length (records table)"
  shows "older table (evictionSlot table) i"
  using eviction_loop_oldest [of 0 "[1..<length (records table)]" table] assms
  by (cases "i = 0") (auto simp: evictionSlot_def)

lemma full_occupied:
  assumes "table_ok table" "unat (count table) = length (records table)" "i < length (records table)"
  shows "occupied table i"
proof -
  have "{i. occupied table i} = {..<length (records table)}"
    using assms by (intro card_subset_eq) (auto simp: occupied_def table_ok_def)
  then show ?thesis using assms(3) by auto
qed

lemma commit_target_ok:
  assumes "table_ok table" "idle table"
  shows "commit_target table client < length (records table)"
    "\<And>i. occupied table i \<Longrightarrow> i \<noteq> commit_target table client \<Longrightarrow> client_at table i \<noteq> client"
proof -
  obtain s f where l: "lookup table client = (s, f)" by fastforce
  have pos: "0 < length (records table)" using assms(1) by (simp add: table_ok_def)
  show "commit_target table client < length (records table)"
  proof (cases f)
    case True
    then show ?thesis using lookup_found(1) [of table client s] l by (simp add: commit_target_def occupied_def)
  next
    case False
    have "s < length (records table)" if "unat (count table) \<noteq> length (records table)"
    proof (rule ccontr)
      assume "\<not> s < length (records table)"
      then have all: "\<forall>i < length (records table). occupied table i"
        using lookup_missing(2) [of table client s] l False assms(2) by (auto simp: idle_def)
      then have "{i. occupied table i} = {..<length (records table)}"
        by (auto simp: occupied_def)
      then show False using that assms(1) by (simp add: table_ok_def)
    qed
    then show ?thesis using l False evictionSlot_less [OF pos] by (simp add: commit_target_def)
  qed
  fix i
  assume that: "occupied table i" "i \<noteq> commit_target table client"
  show "client_at table i \<noteq> client"
  proof (cases f)
    case True
    then show ?thesis
      using that l lookup_found [of table client s] assms(1) unfolding table_ok_def
      by (auto simp: commit_target_def)
  next
    case False
    then show ?thesis using lookup_missing(1) [of table client s i] l that(1) by simp
  qed
qed

lemma PlanCommit_ok:
  assumes "validateOccupied (st_config table) reply session = Inr ()"
    and "commit_target table (replyClient reply) < length (records table)"
    and "\<not> busy table ! commit_target table (replyClient reply)"
  shows "PlanCommit table reply session =
    Inr (take_slot table (commit_target table (replyClient reply)) reply session)"
proof -
  obtain s f where l: "lookup table (replyClient reply) = (s, f)" by fastforce
  show ?thesis
    using assms unfolding PlanCommit_def commit_target_def l
    by (cases f; cases "unat (count table) = length (records table)") (simp_all add: Let_def)
qed

lemma Commit_ok:
  assumes "table_ok table" "idle table" "validateOccupied (st_config table) reply session = Inr ()"
  shows "Commit table reply session =
    (put_record table (commit_target table (replyClient reply)) \<lparr>rec_Reply = reply, rec_Session = session\<rparr>,
     Inr (commit_target table (replyClient reply)))"
proof -
  let ?s = "commit_target table (replyClient reply)"
  note lt = commit_target_ok(1) [OF assms(1,2)]
  have nb: "\<not> busy table ! ?s" using lt assms(2) by (simp add: idle_def)
  obtain plan t1 where ts: "take_slot table ?s reply session = (plan, t1)" by fastforce
  have "plan_Slot plan = ?s" using ts by (auto simp: take_slot_def Let_def)
  then show ?thesis
    using commit_slot [OF assms(1) lt nb assms(3)] PlanCommit_ok [OF assms(3) lt nb]
    unfolding ts by (simp add: Commit_def)
qed

lemma Commit_invalid:
  "validateOccupied (st_config table) reply session = Inl e \<Longrightarrow> Commit table reply session = (table, Inl e)"
  by (simp add: Commit_def PlanCommit_def)

lemma validateOccupied_session: "validateOccupied config reply session = Inr () \<Longrightarrow> session \<noteq> 0"
  by (auto simp: validateOccupied_def split: if_splits)

section \<open>The checkpoint trailer\<close>

lemma validateOccupied_encodes:
  assumes "validateOccupied config reply session = Inr ()" "header_wf reply"
  obtains bs where "length bs = 256"
    "DecodeHeader bs (stc_Group config) (stc_MessageSizeMax config) (stc_ActiveCount config) = (reply, RejectNone)"
    "\<And>d. length d = 256 \<Longrightarrow> EncodeHeader d reply = Inr (bs, reply)"
proof -
  obtain bs h where enc: "EncodeHeader (replicate 256 0) reply = Inr (bs, h)"
      and sum: "HeaderChecksum h = HeaderChecksum reply"
    using assms(1) unfolding validateOccupied_def by (auto split: if_splits sum.splits)
  have size: "Size reply \<le> stc_MessageSizeMax config" and author: "Author reply < stc_ActiveCount config"
    and group: "stc_Group config = Group reply"
    using assms(1) unfolding validateOccupied_def by (auto split: if_splits)
  note dec = DecodeHeader_EncodeHeader [OF enc assms(2) size author]
  have h: "h = reply" by (subst dec(3)) (simp add: sum)
  show ?thesis
    using that dec(1,2) EncodeHeader_DecodeHeader [OF dec(1)] unfolding h group by blast
qed

text \<open>The two regions of slot \<open>i\<close> of a trailer of \<open>n\<close> slots.\<close>

definition header_region :: "nat \<Rightarrow> bytes \<Rightarrow> bytes" where
  "header_region i d = gslice (i * 256) (i * 256 + 256) d"

definition session_region :: "nat \<Rightarrow> nat \<Rightarrow> bytes \<Rightarrow> bytes" where
  "session_region n i d = gslice (n * 256 + i * 8) (n * 256 + i * 8 + 8) d"

definition write_slot :: "nat \<Rightarrow> nat \<Rightarrow> bytes \<Rightarrow> Session \<Rightarrow> bytes \<Rightarrow> bytes" where
  "write_slot n i bs s d =
     copy_at (n * 256 + i * 8) (n * 256 + i * 8 + 8) (put64 s) (copy_at (i * 256) (i * 256 + 256) bs d)"

lemma write_slot_regions:
  assumes "length d = n * 264" "i < n" "j < n" "length bs = 256"
  shows "header_region j (write_slot n i bs s d) = (if j = i then bs else header_region j d)"
    "session_region n j (write_slot n i bs s d) = (if j = i then put64 s else session_region n j d)"
    "length (write_slot n i bs s d) = length d"
proof -
  have n: "i * 256 + 256 \<le> n * 256" "j * 256 + 256 \<le> n * 256" using assms by simp_all
  have r: "i \<noteq> j \<Longrightarrow> i * 256 + 256 \<le> j * 256 \<or> j * 256 + 256 \<le> i * 256"
    "i \<noteq> j \<Longrightarrow> n * 256 + i * 8 + 8 \<le> n * 256 + j * 8 \<or> n * 256 + j * 8 + 8 \<le> n * 256 + i * 8"
    by linarith+
  show "header_region j (write_slot n i bs s d) = (if j = i then bs else header_region j d)"
    using n r(1) assms by (auto simp: header_region_def write_slot_def slice_simps)
  show "session_region n j (write_slot n i bs s d) = (if j = i then put64 s else session_region n j d)"
    using n r(2) assms by (auto simp: session_region_def write_slot_def slice_simps)
  show "length (write_slot n i bs s d) = length d" by (simp add: write_slot_def)
qed

definition header_bytes :: "Header \<Rightarrow> bytes" where
  "header_bytes h = fst (projr (EncodeHeader (replicate 256 0) h))"

text \<open>Every stored reply has the field widths of the wire format.\<close>

definition replies_wf :: "SessionTable \<Rightarrow> bool" where
  "replies_wf table \<longleftrightarrow> (\<forall>i. occupied table i \<longrightarrow> header_wf (rec_Reply (records table ! i)))"

lemma occupied_encodes:
  assumes "table_ok table" "replies_wf table" "occupied table i"
  defines "h \<equiv> rec_Reply (records table ! i)"
  shows "length (header_bytes h) = 256"
    "DecodeHeader (header_bytes h) (stc_Group (st_config table)) (stc_MessageSizeMax (st_config table))
       (stc_ActiveCount (st_config table)) = (h, RejectNone)"
    "length d = 256 \<Longrightarrow> EncodeHeader d h = Inr (header_bytes h, h)"
proof -
  have v: "validateOccupied (st_config table) h (rec_Session (records table ! i)) = Inr ()" "header_wf h"
    using assms unfolding table_ok_def replies_wf_def by blast+
  obtain bs where bs: "length bs = 256"
    "DecodeHeader bs (stc_Group (st_config table)) (stc_MessageSizeMax (st_config table))
       (stc_ActiveCount (st_config table)) = (h, RejectNone)"
    "\<And>d. length d = 256 \<Longrightarrow> EncodeHeader d h = Inr (bs, h)"
    using validateOccupied_encodes [OF v] by blast
  then have "header_bytes h = bs" by (simp add: header_bytes_def)
  then show "length (header_bytes h) = 256"
    "DecodeHeader (header_bytes h) (stc_Group (st_config table)) (stc_MessageSizeMax (st_config table))
       (stc_ActiveCount (st_config table)) = (h, RejectNone)"
    "length d = 256 \<Longrightarrow> EncodeHeader d h = Inr (header_bytes h, h)"
    using bs by simp_all
qed

lemma encode_slots_regions:
  assumes "table_ok table" "replies_wf table"
  defines "n \<equiv> length (records table)"
  shows "length d = n * 264 \<Longrightarrow> set is \<subseteq> {..<n} \<Longrightarrow>
    \<exists>d'. encode_slots table is d = Inr d' \<and> length d' = length d \<and>
      (\<forall>j < n. header_region j d' = (if j \<in> set is \<and> occupied table j
           then header_bytes (rec_Reply (records table ! j)) else header_region j d)
        \<and> session_region n j d' = (if j \<in> set is \<and> occupied table j
           then put64 (rec_Session (records table ! j)) else session_region n j d))"
proof (induction "is" arbitrary: d)
  case (Cons i "is")
  have i: "i < n" using Cons.prems by simp
  show ?case
  proof (cases "occupied table i")
    case False
    then have "encode_slots table (i # is) d = encode_slots table is d"
      using i by (simp add: occupied_def n_def Let_def)
    then show ?thesis using Cons.IH [of d] Cons.prems False by auto
  next
    case True
    let ?h = "rec_Reply (records table ! i)" and ?s = "rec_Session (records table ! i)"
    let ?d = "write_slot n i (header_bytes ?h) ?s d"
    note enc = occupied_encodes [OF assms(1,2) True]
    have "length (gslice (i * 256) (i * 256 + 256) d) = 256" using i Cons.prems by simp
    then have step: "encode_slots table (i # is) d = encode_slots table is ?d"
      using True enc(3) by (simp add: occupied_def Let_def write_slot_def n_def)
    note reg = write_slot_regions [OF Cons.prems(1) i _ enc(1), where s = ?s]
    have len: "length ?d = n * 264" using reg(3) [OF i] Cons.prems(1) by simp
    from Cons.IH [OF len] Cons.prems(2) reg(1,2) True show ?thesis
      unfolding step using len Cons.prems(1) by auto
  qed
qed simp

lemma EncodeTrailer_regions:
  assumes "table_ok table" "replies_wf table" "idle table" "length d = TrailerSize table"
  defines "n \<equiv> length (records table)"
  shows "\<exists>d'. EncodeTrailer table d = Inr (d', ChecksumBytes d') \<and> length d' = length d \<and>
      (\<forall>j < n. header_region j d' = (if occupied table j
           then header_bytes (rec_Reply (records table ! j)) else replicate 256 0)
        \<and> session_region n j d' = put64 (rec_Session (records table ! j)))"
proof -
  have size: "TrailerSize table = n * 264" by (simp add: TrailerSize_def n_def)
  have notbusy: "\<not> list_ex (\<lambda>b. b) (busy table)"
    using assms(1,3) by (auto simp: list_ex_length idle_def table_ok_def)
  let ?z = "replicate (n * 264) (0 :: 8 word)"
  obtain d' where d': "encode_slots table [0..<n] ?z = Inr d'" "length d' = n * 264"
    "\<forall>j < n. header_region j d' = (if occupied table j
           then header_bytes (rec_Reply (records table ! j)) else header_region j ?z)
        \<and> session_region n j d' = (if occupied table j
           then put64 (rec_Session (records table ! j)) else session_region n j ?z)"
    using encode_slots_regions [OF assms(1,2), of ?z "[0..<n]"]
    by (fastforce simp: n_def lessThan_atLeast0)
  have z: "header_region j ?z = replicate 256 0" "session_region n j ?z = put64 0" if "j < n" for j
    using that by (simp_all add: header_region_def session_region_def slice_simps codec_simps)
  have "EncodeTrailer table d = Inr (d', ChecksumBytes d')"
    using d'(1) notbusy assms(4) size by (simp add: EncodeTrailer_def n_def)
  then show ?thesis
    using d'(2,3) z assms(4) size by (auto simp: occupied_def n_def)
qed

lemma card_occupied_Suc:
  assumes "occupied table k"
  shows "card {i. occupied table i \<and> i < Suc k} = Suc (card {i. occupied table i \<and> i < k})"
proof -
  have "{i. occupied table i \<and> i < Suc k} = insert k {i. occupied table i \<and> i < k}"
    using assms by (auto simp: less_Suc_eq)
  then show ?thesis by simp
qed

lemma prior_clients:
  assumes "table_ok table" "occupied table k" "i < k"
  shows "\<not> (rec_Session (records table ! i) \<noteq> 0
    \<and> replyClient (rec_Reply (records table ! i)) = replyClient (rec_Reply (records table ! k)))"
proof
  assume a: "rec_Session (records table ! i) \<noteq> 0
    \<and> replyClient (rec_Reply (records table ! i)) = replyClient (rec_Reply (records table ! k))"
  then have "occupied table i" "client_at table i = client_at table k"
    using assms(2,3) by (simp_all add: occupied_def client_at_def)
  then have "i = k" using assms(1,2) unfolding table_ok_def by blast
  then show False using assms(3) by simp
qed

lemma decode_slots_ok:
  assumes "table_ok table" "replies_wf table" and n: "n = length (records table)"
    and cfg: "st_config other = st_config table" "length (records other) = n"
    and reg: "\<forall>j < n. header_region j src = (if occupied table j
           then header_bytes (rec_Reply (records table ! j)) else replicate 256 0)
        \<and> session_region n j src = put64 (rec_Session (records table ! j))"
  shows "k \<le> n \<Longrightarrow> decode_slots other src [k..<n] (take k (records table) @ replicate (n - k) zeroRecord)
      (of_nat (card {i. occupied table i \<and> i < k})) = Inr (records table, of_nat (card {i. occupied table i}))"
proof (induction "n - k" arbitrary: k)
  case 0
  then have "k = n" by simp
  moreover have "{i. occupied table i \<and> i < n} = {i. occupied table i}" using n by (auto simp: occupied_def)
  ultimately show ?case using n by simp
next
  case (Suc m)
  then have k: "k < n" "[k..<n] = k # [Suc k..<n]" by (simp_all add: upt_conv_Cons)
  let ?r = "records table ! k"
  let ?acc = "take k (records table) @ replicate (n - k) zeroRecord"
  have next_acc: "?acc[k := ?r] = take (Suc k) (records table) @ replicate (n - Suc k) zeroRecord"
    using k n by (simp add: take_Suc_conv_app_nth list_update_append Suc_diff_Suc [symmetric])
  note ih = Suc.hyps(1) [of "Suc k"]
  have ih: "decode_slots other src [Suc k..<n] (?acc[k := ?r])
      (of_nat (card {i. occupied table i \<and> i < Suc k})) = Inr (records table, of_nat (card {i. occupied table i}))"
    unfolding next_acc using ih Suc.hyps(2) k by simp
  have sess: "get64 (gslice (n * 256 + k * 8) (n * 256 + k * 8 + 8) src) = rec_Session ?r"
    using reg k by (simp add: session_region_def codec_simps)
  have hdr: "gslice (k * 256) ((k + 1) * 256) src = header_region k src"
    by (simp add: header_region_def add.commute)
  show ?case
  proof (cases "occupied table k")
    case False
    then have r: "?r = zeroRecord" "rec_Session ?r = 0"
      using assms(1) k n unfolding table_ok_def occupied_def by blast+
    have "?acc[k := ?r] = ?acc" using k n r(1) by (simp add: list_update_append Suc_diff_Suc [symmetric])
    moreover have "{i. occupied table i \<and> i < Suc k} = {i. occupied table i \<and> i < k}"
      using False less_Suc_eq by auto
    moreover have zero: "header_region k src = replicate 256 0" using reg k(1) False by simp
    ultimately show ?thesis
      unfolding k(2) decode_slots.simps Let_def cfg sess hdr zero r(2) using ih by simp
  next
    case True
    note enc = occupied_encodes [OF assms(1,2) True]
    have s: "rec_Session ?r \<noteq> 0"
      and v: "validateOccupied (st_config table) (rec_Reply ?r) (rec_Session ?r) = Inr ()"
      using True assms(1) unfolding table_ok_def by (simp add: occupied_def, blast)
    have "take k (records table) ! i = records table ! i" "i < length (take k (records table))"
      if "i < k" for i using that k n by simp_all
    then have fresh: "\<not> list_ex (\<lambda>prior. rec_Session (?acc ! prior) \<noteq> 0
        \<and> replyClient (rec_Reply (?acc ! prior)) = replyClient (rec_Reply ?r)) [0..<k]"
      using prior_clients [OF assms(1) True] by (simp add: list_ex_iff nth_append)
    have rec: "\<lparr>rec_Reply = rec_Reply ?r, rec_Session = rec_Session ?r\<rparr> = ?r" by simp
    have cnt: "of_nat (card {i. occupied table i \<and> i < k}) + 1
        = (of_nat (card {i. occupied table i \<and> i < Suc k}) :: u32)"
      by (simp add: card_occupied_Suc [OF True])
    have reg_k: "header_region k src = header_bytes (rec_Reply ?r)" using reg k True by simp
    show ?thesis
      unfolding k(2) decode_slots.simps Let_def cfg sess hdr reg_k enc(2) prod.case cnt rec
      using s v fresh ih by simp
  qed
qed

lemma dom_sessions:
  assumes "table_ok table"
  shows "dom (sessions table) = client_at table ` {i. occupied table i}"
    "card (dom (sessions table)) = unat (count table)"
proof -
  show d: "dom (sessions table) = client_at table ` {i. occupied table i}"
    using assms by (auto simp: dom_def sessions_iff)
  have "inj_on (client_at table) {i. occupied table i}"
    using assms unfolding table_ok_def inj_on_def by blast
  then show "card (dom (sessions table)) = unat (count table)"
    unfolding d using assms by (simp add: card_image table_ok_def)
qed

lemma idle_put_record: "table_ok table \<Longrightarrow> idle table \<Longrightarrow> idle (put_record table s r)"
  by (cases "s < length (records table)") (auto simp: idle_def put_record_def nth_list_update table_ok_def)

lemma Commit_Inr:
  assumes "table_ok table" "idle table" "Commit table reply session = (table', Inr slot)"
  shows "validateOccupied (st_config table) reply session = Inr ()"
    "table' = put_record table slot \<lparr>rec_Reply = reply, rec_Session = session\<rparr>"
    "slot = commit_target table (replyClient reply)"
proof -
  show v: "validateOccupied (st_config table) reply session = Inr ()"
    using assms(3) Commit_invalid [of table reply session]
    by (cases "validateOccupied (st_config table) reply session") auto
  show "table' = put_record table slot \<lparr>rec_Reply = reply, rec_Session = session\<rparr>"
    "slot = commit_target table (replyClient reply)"
    using assms(3) unfolding Commit_ok [OF assms(1,2) v] by auto
qed

lemma commit_target_record:
  fixes table :: SessionTable and client :: ClientID
  assumes "table_ok table" "idle table"
  defines "s \<equiv> commit_target table client"
  shows "client \<in> dom (sessions table) \<Longrightarrow> occupied table s \<and> client_at table s = client"
    "client \<notin> dom (sessions table) \<Longrightarrow> card (dom (sessions table)) < length (records table) \<Longrightarrow> \<not> occupied table s"
    "client \<notin> dom (sessions table) \<Longrightarrow> \<not> card (dom (sessions table)) < length (records table) \<Longrightarrow>
       occupied table s \<and> s = evictionSlot table"
proof -
  obtain l f where l: "lookup table client = (l, f)" by fastforce
  have f: "f \<longleftrightarrow> client \<in> dom (sessions table)"
    using l by (cases f) (auto simp: sessions_def)
  have lt: "s < length (records table)" unfolding s_def by (rule commit_target_ok(1) [OF assms(1,2)])
  have le: "unat (count table) \<le> length (records table)"
    using assms(1) card_occupied [of table] by (simp add: table_ok_def)
  show "occupied table s \<and> client_at table s = client" if "client \<in> dom (sessions table)"
    using that f l lookup_found [of table client l] by (simp add: s_def commit_target_def)
  show "\<not> occupied table s" if "client \<notin> dom (sessions table)" "card (dom (sessions table)) < length (records table)"
  proof -
    have "s = l" using that f l by (simp add: s_def commit_target_def dom_sessions(2) [OF assms(1)])
    then show ?thesis using that f l lookup_missing(2) [of table client l] lt by auto
  qed
  show "occupied table s \<and> s = evictionSlot table"
    if "client \<notin> dom (sessions table)" "\<not> card (dom (sessions table)) < length (records table)"
  proof -
    have c: "unat (count table) = length (records table)"
      using that(2) le by (simp add: dom_sessions(2) [OF assms(1)])
    then have "s = evictionSlot table" using that f l by (simp add: s_def commit_target_def)
    then show ?thesis using full_occupied [OF assms(1) c lt] by simp
  qed
qed

section \<open>Properties\<close>

text \<open>
  C4: on a table that satisfies its invariant and has no commit in flight, Commit rejects exactly the
  replies validateOccupied rejects and leaves the table alone; otherwise the invariant is kept and
  the table, seen as a map from clients to records, gets the reply under its client. Only a new
  client on a full table evicts another session, and that is the oldest one: the least operation,
  and the least client among equals.
\<close>

theorem Commit_sessions:
  fixes table :: SessionTable and reply :: Header and session :: Session
  assumes "table_ok table" "idle table"
  defines "c \<equiv> replyClient reply" and "r \<equiv> \<lparr>rec_Reply = reply, rec_Session = session\<rparr>"
  shows "case validateOccupied (st_config table) reply session of
      Inl e \<Rightarrow> Commit table reply session = (table, Inl e)
    | Inr _ \<Rightarrow> \<exists>table' slot. Commit table reply session = (table', Inr slot)
        \<and> table_ok table' \<and> idle table' \<and>
        (if c \<in> dom (sessions table) \<or> card (dom (sessions table)) < length (records table)
         then sessions table' = (sessions table)(c \<mapsto> r)
         else \<exists>c0 r0. sessions table c0 = Some r0 \<and> sessions table' = (sessions table)(c0 := None, c \<mapsto> r)
           \<and> (\<forall>c1 r1. sessions table c1 = Some r1 \<longrightarrow>
                (replyOp (rec_Reply r0), c0) \<le> (replyOp (rec_Reply r1), c1)))"
proof (cases "validateOccupied (st_config table) reply session")
  case (Inl e)
  then show ?thesis using Commit_invalid by simp
next
  case (Inr u)
  then have v: "validateOccupied (st_config table) reply session = Inr ()" by simp
  let ?s = "commit_target table c" and ?t = "put_record table (commit_target table c) r"
  note ct = commit_target_ok [OF assms(1,2), where client = c]
  have put: "rec_Session r \<noteq> 0" "validateOccupied (st_config table) (rec_Reply r) (rec_Session r) = Inr ()"
    "\<And>i. occupied table i \<Longrightarrow> i \<noteq> ?s \<Longrightarrow> client_at table i \<noteq> replyClient (rec_Reply r)"
    using v validateOccupied_session [OF v] ct(2) by (auto simp: r_def c_def)
  have ok: "Commit table reply session = (?t, Inr ?s)" "table_ok ?t" "idle ?t"
    using Commit_ok [OF assms(1,2) v] table_ok_put_record [OF assms(1) ct(1) put]
      idle_put_record [OF assms(1,2)] by (simp_all add: c_def r_def)
  have ses: "sessions ?t = (if occupied table ?s then (sessions table)(client_at table ?s := None)
      else sessions table)(c \<mapsto> r)"
    using sessions_put_record [OF assms(1) ct(1) put] by (simp add: r_def c_def)
  note target = commit_target_record [OF assms(1,2), where client = c]
  show ?thesis
  proof (cases "c \<in> dom (sessions table) \<or> card (dom (sessions table)) < length (records table)")
    case True
    then have "sessions ?t = (sessions table)(c \<mapsto> r)" unfolding ses using target(1,2)
      by (cases "c \<in> dom (sessions table)") simp_all
    then show ?thesis using v ok True by simp
  next
    case False
    then have ev: "occupied table ?s" "?s = evictionSlot table" using target(3) by blast+
    have "(replyOp (rec_Reply (records table ! ?s)), client_at table ?s) \<le> (replyOp (rec_Reply r1), c1)"
      if "sessions table c1 = Some r1" for c1 r1
      using that evictionSlot_oldest [of _ table] ev(2)
      by (auto simp: sessions_iff [OF assms(1)] older_def occupied_def)
    moreover have "sessions table (client_at table ?s) = Some (records table ! ?s)"
      using ev(1) by (auto simp: sessions_iff [OF assms(1)])
    moreover have "sessions ?t = (sessions table)(client_at table ?s := None, c \<mapsto> r)"
      unfolding ses using ev(1) by simp
    ultimately have "\<exists>c0 r0. sessions table c0 = Some r0 \<and> sessions ?t = (sessions table)(c0 := None, c \<mapsto> r)
        \<and> (\<forall>c1 r1. sessions table c1 = Some r1 \<longrightarrow>
             (replyOp (rec_Reply r0), c0) \<le> (replyOp (rec_Reply r1), c1))" by blast
    then show ?thesis unfolding v sum.case if_not_P [OF False] using ok by blast
  qed
qed

lemma validateOccupiedI:
  assumes "session \<noteq> 0" "Command reply = CommandReply" "Protocol reply = ProtocolVersion"
    "Group reply = stc_Group config"
    "256 \<le> Size reply \<and> Size reply \<le> stc_MessageSizeMax config \<and> Size reply - 256 \<le> stc_ApplicationReplySizeMax config"
    "Release reply \<noteq> 0 \<and> Author reply < stc_ActiveCount config" "replyClient reply \<noteq> zeroID"
    "session \<le> replyCommit reply \<and> replyOp reply = replyCommit reply \<and> replyTimestamp reply \<noteq> 0"
    "\<And>e. EncodeHeader (replicate 256 0) reply \<noteq> Inl e"
    "\<And>bs h. EncodeHeader (replicate 256 0) reply = Inr (bs, h) \<Longrightarrow> HeaderChecksum h = HeaderChecksum reply"
    "ValidateSemantics reply [] (occupied_context config reply) = RejectNone"
  shows "validateOccupied config reply session = Inr ()"
proof (cases "EncodeHeader (replicate 256 0) reply")
  case (Inr r)
  obtain bs h where r: "r = (bs, h)" by fastforce
  show ?thesis
    using assms(1-8,11) assms(10) [of bs h] Inr unfolding r validateOccupied_def by (simp add: not_less not_le)
qed (use assms(9) in blast)

definition example_reply :: "8 word \<Rightarrow> u64 \<Rightarrow> Header" where
  "example_reply client op =
     (let h = \<lparr>HeaderChecksum = replicate 16 0, BodyChecksum = replicate 16 0, Group = replicate 16 0,
            Size = 256, Epoch = 0, View = 0, Release = 1, Protocol = ProtocolVersion,
            Command = CommandReply, Author = 0,
            Fields = replicate 64 0 @ (client # replicate 15 0) @ put64 op @ put64 op @ put64 1 @ put32 1
              @ [128] @ replicate 19 0\<rparr>
      in h\<lparr>HeaderChecksum := ChecksumBytes (drop 16 (header_fields h (replicate 256 0)))\<rparr>)"

definition example_table :: SessionTable where
  "example_table = \<lparr>st_config = \<lparr>stc_ClientsMax = 1, stc_Group = replicate 16 0, stc_ActiveCount = 3,
       stc_MessageSizeMax = 4096, stc_ApplicationReplySizeMax = 512\<rparr>, records = [zeroRecord],
     busy = [False], generations = [0], count = 0\<rparr>"

lemma example_reply_fields:
  "replyClient (example_reply c op) = c # replicate 15 0" "replyOp (example_reply c op) = op"
  "replyCommit (example_reply c op) = op" "replyTimestamp (example_reply c op) = 1"
  "replyRequest (example_reply c op) = 1"
  by (simp_all add: example_reply_def replyClient_def replyOp_def replyCommit_def replyTimestamp_def
      replyRequest_def Let_def gslice_def codec_simps)

lemma example_reply_header:
  "Command (example_reply c op) = CommandReply" "Protocol (example_reply c op) = ProtocolVersion"
  "Group (example_reply c op) = replicate 16 0" "Size (example_reply c op) = 256"
  "Release (example_reply c op) = 1" "Author (example_reply c op) = 0"
  by (simp_all add: example_reply_def Let_def)

lemma example_reply_valid:
  assumes "c \<noteq> 0" "op \<noteq> 0"
  shows "validateOccupied (st_config example_table) (example_reply c op) op = Inr ()"
    "header_wf (example_reply c op)"
proof -
  let ?r = "example_reply c op"
  have enc: "EncodeHeader (replicate 256 0) ?r = Inr (bs, h) \<Longrightarrow> HeaderChecksum h = HeaderChecksum ?r" for bs h
    by (auto simp: EncodeHeader_def Let_def example_reply_def header_fields_def split: if_splits)
  have ok: "EncodeHeader (replicate 256 0) ?r \<noteq> Inl e" for e
    by (simp add: EncodeHeader_error encodable_def example_reply_def Let_def command_IsDefined_def)
  have op: "Fields ?r ! 108 = 128" by (simp add: example_reply_def Let_def nth_append)
  have prep: "validPreparedOperation 128" by (simp add: validPreparedOperation_def)
  have sem: "ValidateSemantics ?r [] (occupied_context (st_config example_table) ?r) = RejectNone"
    unfolding ValidateSemantics_def occupied_context_def example_table_def validateCommand_def
        validateReply_def validRelease_def Let_def op using assms prep
    by (simp add: example_reply_def Let_def gslice_def codec_simps validAuthor_def requiresRelease_def
        isZero16_def allZero_iff)
  show "validateOccupied (st_config example_table) ?r op = Inr ()"
    by (rule validateOccupiedI [OF _ _ _ _ _ _ _ _ ok enc sem])
       (use assms example_reply_fields [of c op] example_reply_header [of c op] in
        \<open>simp_all add: example_table_def zeroID_def replicate_Suc [of 15, simplified, symmetric] Cons_replicate_eq\<close>)
  show "header_wf ?r" by (simp add: header_wf_def example_reply_def Let_def)
qed

lemma example_table_ok: "table_ok example_table" "idle example_table"
proof -
  have none: "\<not> occupied example_table i" for i
    by (cases i) (simp_all add: occupied_def example_table_def zeroRecord_def)
  show "table_ok example_table" by (simp add: table_ok_def none) (simp add: example_table_def)
  show "idle example_table" by (simp add: idle_def example_table_def)
qed

theorem Commit_sessions_witness:
  "\<exists>table' slot. Commit example_table (example_reply 7 5) 5 = (table', Inr slot) \<and> table_ok table'
    \<and> sessions table' = [7 # replicate 15 0 \<mapsto> \<lparr>rec_Reply = example_reply 7 5, rec_Session = 5\<rparr>]"
proof -
  have "sessions example_table = Map.empty"
    by (rule ext) (simp add: sessions_def lookup_def example_table_def zeroRecord_def)
  moreover have "length (records example_table) = 1" by (simp add: example_table_def)
  ultimately show ?thesis
    using Commit_sessions [OF example_table_ok, of "example_reply 7 5" 5] example_reply_valid(1) [of 7 5]
    by (auto simp: example_reply_fields)
qed

lemma next_request:
  fixes q n :: RequestNo
  shows "\<not> (q < n \<or> n + 1 < q) \<and> q \<noteq> n \<longleftrightarrow> unat q = unat n + 1"
proof -
  have last: "unat (- 1 :: RequestNo) = 4294967295"
    by (simp add: unsigned_minus_1_eq_mask mask_eq_exp_minus_1)
  have lt: "unat q < 4294967296" "unat n < 4294967296"
    using unsigned_less [of q] unsigned_less [of n] by simp_all
  show ?thesis
  proof (cases "n = - 1")
    case True
    show ?thesis using lt(1) last unfolding True word_less_nat_alt word_unat_eq_iff by (simp; linarith)
  next
    case False
    then have "unat n \<noteq> 4294967295" using last by (metis word_unat_eq_iff)
    then have "unat (n + 1) = unat n + 1" using lt(2) by (subst unat_add_noof) simp_all
    then show ?thesis unfolding word_less_nat_alt word_unat_eq_iff by auto
  qed
qed

text \<open>
  C5: after a reply has been committed, a request of that client is admitted only when it belongs to
  the same session and release, carries the next request number and names the reply as its parent;
  so a request that was answered is never executed again, also when the request numbers are
  exhausted. The stored reply is found under its request number.
\<close>

theorem Commit_at_most_once:
  assumes "table_ok table" "idle table" "Commit table reply session = (table', Inr slot)"
    and "sr_Client request = replyClient reply"
  shows "(Decide table' request = SessionAdmit \<longleftrightarrow>
      sr_Session request = session \<and> sr_Release request = Release reply
      \<and> unat (sr_Request request) = unat (replyRequest reply) + 1 \<and> sr_Parent request = replyContext reply)
    \<and> Reply_of table' (replyClient reply) session (replyRequest reply) = Some (reply, slot)"
proof -
  note c = Commit_Inr [OF assms(1-3)]
  note ct = commit_target_ok [OF assms(1,2), where client = "replyClient reply"]
  let ?r = "\<lparr>rec_Reply = reply, rec_Session = session\<rparr>"
  have slot: "slot < length (records table)" using ct(1) c(3) by simp
  have ok: "table_ok table'" unfolding c(2)
    using ct(2) c(1,3) validateOccupied_session [OF c(1)] by (intro table_ok_put_record assms slot) auto
  have rec: "records table' ! slot = ?r" "occupied table' slot" "client_at table' slot = replyClient reply"
    "\<not> busy table' ! slot"
    using slot validateOccupied_session [OF c(1)] assms(1) unfolding c(2)
    by (simp_all add: put_record_simps) (simp add: put_record_def table_ok_def)
  have l: "lookup table' (replyClient reply) = (slot, True)"
    using lookup_eq [OF ok rec(2)] rec(3) by simp
  let ?n = "replyRequest reply"
  have decide: "Decide table' request = SessionAdmit \<longleftrightarrow>
      sr_Session request = session \<and> sr_Release request = Release reply
      \<and> \<not> (sr_Request request < ?n \<or> ?n + 1 < sr_Request request) \<and> sr_Request request \<noteq> ?n
      \<and> sr_Parent request = replyContext reply"
    unfolding Decide_def assms(4) l prod.case rec(1) Let_def by auto
  moreover have "Reply_of table' (replyClient reply) session ?n = Some (reply, slot)"
    unfolding Reply_of_def l using rec by simp
  ultimately show ?thesis using next_request [of "sr_Request request" ?n] by blast
qed

theorem Commit_at_most_once_witness:
  "Decide (fst (Commit example_table (example_reply 7 5) 5)) \<lparr>sr_Client = 7 # replicate 15 0, sr_Session = 5,
      sr_Request = 1, sr_Release = 1, sr_RequestChecksum = replicate 16 0, sr_Parent = replicate 16 0\<rparr> \<noteq> SessionAdmit"
proof -
  have v: "validateOccupied (st_config example_table) (example_reply 7 5) 5 = Inr ()"
    by (rule example_reply_valid(1)) simp_all
  obtain table' slot where c: "Commit example_table (example_reply 7 5) 5 = (table', Inr slot)"
    using Commit_ok [OF example_table_ok v] by blast
  show ?thesis
    using Commit_at_most_once [OF example_table_ok c, of "\<lparr>sr_Client = 7 # replicate 15 0, sr_Session = 5,
      sr_Request = 1, sr_Release = 1, sr_RequestChecksum = replicate 16 0, sr_Parent = replicate 16 0\<rparr>"] c
    by (simp add: example_reply_fields)
qed

text \<open>
  C17: the trailer of a consistent table with no commit in flight can always be encoded, and decoding
  it into any table of the same configuration and capacity restores every session, the session
  count and the slot of each session; each slot gets a new generation, so that no commit planned
  before the restore can complete.
\<close>

theorem trailer_round_trip:
  assumes "table_ok table" "replies_wf table" "idle table" "length destination = TrailerSize table"
    and "st_config other = st_config table" "length (records other) = length (records table)"
  shows "\<exists>encoded checksum. EncodeTrailer table destination = Inr (encoded, checksum)
    \<and> DecodeTrailer other encoded checksum = Inr (other\<lparr>records := records table, count := count table,
        busy := replicate (length (busy other)) False, generations := map (\<lambda>g. g + 1) (generations other)\<rparr>)"
proof -
  let ?n = "length (records table)"
  obtain e where e: "EncodeTrailer table destination = Inr (e, ChecksumBytes e)" "length e = length destination"
    "\<forall>j < ?n. header_region j e = (if occupied table j
           then header_bytes (rec_Reply (records table ! j)) else replicate 256 0)
        \<and> session_region ?n j e = put64 (rec_Session (records table ! j))"
    using EncodeTrailer_regions [OF assms(1-4)] by blast
  have "decode_slots other e [0..<?n] (replicate ?n zeroRecord) 0
      = Inr (records table, of_nat (card {i. occupied table i}))"
    using decode_slots_ok [OF assms(1,2) refl assms(5,6) e(3), of 0] by simp
  moreover have "of_nat (card {i. occupied table i}) = count table"
  proof -
    have "card {i. occupied table i} = unat (count table)" using assms(1) by (simp add: table_ok_def)
    then show ?thesis by (simp only:) simp
  qed
  ultimately have "DecodeTrailer other e (ChecksumBytes e) = Inr (other\<lparr>records := records table,
      count := count table, busy := replicate (length (busy other)) False,
      generations := map (\<lambda>g. g + 1) (generations other)\<rparr>)"
    using e(2) assms(4,6) by (simp add: DecodeTrailer_def TrailerSize_def)
  then show ?thesis using e(1) by blast
qed

theorem trailer_round_trip_witness:
  "\<exists>encoded checksum. EncodeTrailer example_table (replicate 264 1) = Inr (encoded, checksum)
    \<and> DecodeTrailer (example_table\<lparr>generations := [3]\<rparr>) encoded checksum
      = Inr (example_table\<lparr>generations := [4]\<rparr>)"
proof -
  have "replies_wf example_table"
    by (auto simp: replies_wf_def occupied_def example_table_def zeroRecord_def less_Suc_eq)
  then show ?thesis
    using trailer_round_trip [OF example_table_ok(1) _ example_table_ok(2), of "replicate 264 1"
        "example_table\<lparr>generations := [3]\<rparr>"]
    by (simp add: TrailerSize_def example_table_def)
qed

end
