(* ===== verification/Checkpoint.thy ===== *)
theory Checkpoint
  imports Config
begin

text \<open>
  The checkpoint state of \<^verbatim>\<open>replication/checkpoint.go\<close>: the 1024-byte record of a checkpoint, its
  validation and its identifier. The references to trailers and manifests are a block address
  with a checksum; address zero means that there is none.
\<close>

type_synonym CheckpointID = bytes

record CheckpointState =
  cs_Header :: bytes
  AcquiredTrailerLastChecksum :: Checksum
  ReleasedTrailerLastChecksum :: Checksum
  SessionTrailerLastChecksum :: Checksum
  OldestManifestChecksum :: Checksum
  NewestManifestChecksum :: Checksum
  SnapshotRootChecksum :: Checksum
  AcquiredAggregateChecksum :: Checksum
  ReleasedAggregateChecksum :: Checksum
  SessionAggregateChecksum :: Checksum
  ParentID :: CheckpointID
  GrandparentID :: CheckpointID
  AcquiredTrailerLastAddress :: u64
  ReleasedTrailerLastAddress :: u64
  SessionTrailerLastAddress :: u64
  OldestManifestAddress :: u64
  NewestManifestAddress :: u64
  SnapshotRootAddress :: u64
  LogicalStorageSize :: u64
  AcquiredTrailerEncodedSize :: u64
  ReleasedTrailerEncodedSize :: u64
  SessionTrailerEncodedSize :: u64
  ManifestBlockCount :: u32
  cs_Release :: Release

record CheckpointValidation =
  cv_Group :: GroupID
  cv_MessageSizeMax :: u32
  cv_MemberCount :: u8
  cv_BlockBase :: u64
  cv_BlockSize :: u64
  cv_ClientsMax :: u64

section \<open>Encoding\<close>

text \<open>The checksums and the numbers of the record, in the order they are written.\<close>

definition checkpoint_checksums :: "CheckpointState \<Rightarrow> bytes \<Rightarrow> bytes" where
  "checkpoint_checksums cp d =
     (let d = copy_at 0 256 (cs_Header cp) d;
          d = copy_at 256 272 (AcquiredTrailerLastChecksum cp) d;
          d = copy_at 288 304 (ReleasedTrailerLastChecksum cp) d;
          d = copy_at 320 336 (SessionTrailerLastChecksum cp) d;
          d = copy_at 352 368 (OldestManifestChecksum cp) d;
          d = copy_at 384 400 (NewestManifestChecksum cp) d;
          d = copy_at 416 432 (SnapshotRootChecksum cp) d;
          d = copy_at 448 464 (AcquiredAggregateChecksum cp) d;
          d = copy_at 464 480 (ReleasedAggregateChecksum cp) d;
          d = copy_at 480 496 (SessionAggregateChecksum cp) d;
          d = copy_at 496 512 (ParentID cp) d
      in copy_at 512 528 (GrandparentID cp) d)"

definition checkpoint_numbers :: "CheckpointState \<Rightarrow> bytes \<Rightarrow> bytes" where
  "checkpoint_numbers cp d =
     (let d = copy_at 528 536 (put64 (AcquiredTrailerLastAddress cp)) d;
          d = copy_at 536 544 (put64 (ReleasedTrailerLastAddress cp)) d;
          d = copy_at 544 552 (put64 (SessionTrailerLastAddress cp)) d;
          d = copy_at 552 560 (put64 (OldestManifestAddress cp)) d;
          d = copy_at 560 568 (put64 (NewestManifestAddress cp)) d;
          d = copy_at 568 576 (put64 (SnapshotRootAddress cp)) d;
          d = copy_at 576 584 (put64 (LogicalStorageSize cp)) d;
          d = copy_at 584 592 (put64 (AcquiredTrailerEncodedSize cp)) d;
          d = copy_at 592 600 (put64 (ReleasedTrailerEncodedSize cp)) d;
          d = copy_at 600 608 (put64 (SessionTrailerEncodedSize cp)) d;
          d = copy_at 608 612 (put32 (ManifestBlockCount cp)) d
      in copy_at 612 616 (put32 (cs_Release cp)) d)"

definition checkpoint_Encode :: "CheckpointState \<Rightarrow> bytes \<Rightarrow> bytes result" where
  "checkpoint_Encode cp destination =
     (if length destination \<noteq> 1024 then Inl ErrInvalidCheckpoint
      else Inr (checkpoint_numbers cp (checkpoint_checksums cp (replicate 1024 0))))"

definition checkpointReservationsZero :: "bytes \<Rightarrow> bool" where
  "checkpointReservationsZero source \<longleftrightarrow> length source = 1024
     \<and> allZero (gslice 272 288 source) \<and> allZero (gslice 304 320 source) \<and> allZero (gslice 336 352 source)
     \<and> allZero (gslice 368 384 source) \<and> allZero (gslice 400 416 source) \<and> allZero (gslice 432 448 source)
     \<and> allZero (drop 616 source)"

definition PrepareOp :: "CheckpointState \<Rightarrow> Op" where
  "PrepareOp cp = get64 (gslice 224 232 (cs_Header cp))"

definition checkpoint_ID :: "CheckpointState \<Rightarrow> CheckpointID result" where
  "checkpoint_ID cp = bind_result (checkpoint_Encode cp (replicate 1024 0)) (\<lambda>e. Inr (ChecksumBytes e))"

section \<open>Validation\<close>

definition validEWAHTrailerReference :: "u64 \<Rightarrow> u64 \<Rightarrow> Checksum \<Rightarrow> Checksum \<Rightarrow> Checksum \<Rightarrow> u64 \<Rightarrow> bool" where
  "validEWAHTrailerReference address encodedSize lastSum aggregate emptySum blockCount =
     (if address = 0 then encodedSize = 0 \<and> lastSum = zeroID \<and> aggregate = emptySum
      else let words = blockCount div 64; words = (if blockCount mod 64 \<noteq> 0 then words + 1 else words)
      in case checkedAdd words 1 of None \<Rightarrow> False
      | Some maximumWords \<Rightarrow>
        (case checkedMul maximumWords 8 of None \<Rightarrow> False
         | Some maximumBytes \<Rightarrow> encodedSize \<noteq> 0 \<and> encodedSize mod 8 = 0 \<and> encodedSize \<le> maximumBytes
             \<and> lastSum \<noteq> zeroID))"

definition validSessionTrailerReference :: "u64 \<Rightarrow> u64 \<Rightarrow> Checksum \<Rightarrow> Checksum \<Rightarrow> Checksum \<Rightarrow> u64 \<Rightarrow> bool" where
  "validSessionTrailerReference address encodedSize lastSum aggregate emptySum expectedSize =
     (if address = 0 then encodedSize = 0 \<and> lastSum = zeroID \<and> aggregate = emptySum
      else encodedSize = expectedSize \<and> expectedSize \<noteq> 0 \<and> lastSum \<noteq> zeroID)"

definition validCheckpointBlockAddress :: "u64 \<Rightarrow> u64 \<Rightarrow> bool" where
  "validCheckpointBlockAddress address blockCount \<longleftrightarrow> address \<noteq> 0 \<and> address \<le> blockCount"

definition validManifestReferences :: "CheckpointState \<Rightarrow> bool" where
  "validManifestReferences cp =
     (if ManifestBlockCount cp = 0
      then OldestManifestAddress cp = 0 \<and> NewestManifestAddress cp = 0
           \<and> OldestManifestChecksum cp = zeroID \<and> NewestManifestChecksum cp = zeroID
      else if ManifestBlockCount cp = 1
      then OldestManifestAddress cp \<noteq> 0 \<and> OldestManifestAddress cp = NewestManifestAddress cp
           \<and> OldestManifestChecksum cp = NewestManifestChecksum cp
      else OldestManifestAddress cp \<noteq> 0 \<and> NewestManifestAddress cp \<noteq> 0)"

definition validOptionalReference :: "u64 \<Rightarrow> Checksum \<Rightarrow> bool" where
  "validOptionalReference address checksum \<longleftrightarrow> (address = 0) = (checksum = zeroID)"

definition checkpoint_references :: "CheckpointState \<Rightarrow> u64 list" where
  "checkpoint_references cp =
     [AcquiredTrailerLastAddress cp, ReleasedTrailerLastAddress cp, SessionTrailerLastAddress cp,
      OldestManifestAddress cp, NewestManifestAddress cp, SnapshotRootAddress cp]"

definition checkpoint_Validate :: "CheckpointState \<Rightarrow> CheckpointValidation \<Rightarrow> unit result" where
  "checkpoint_Validate cp v =
     (let (header, reason) = DecodeHeader (cs_Header cp) (cv_Group v) (cv_MessageSizeMax v) (cv_MemberCount v)
      in if reason \<noteq> RejectNone \<or> Command header \<noteq> CommandPrepare then Inl ErrInvalidCheckpoint
      else if cs_Release cp = 0 \<or> LogicalStorageSize cp < cv_BlockBase v \<or> cv_BlockSize v = 0
         \<or> (LogicalStorageSize cp - cv_BlockBase v) mod cv_BlockSize v \<noteq> 0 then Inl ErrInvalidCheckpoint
      else let blockCount = (LogicalStorageSize cp - cv_BlockBase v) div cv_BlockSize v;
               emptyChecksum = ChecksumBytes []
      in if \<not> validEWAHTrailerReference (AcquiredTrailerLastAddress cp) (AcquiredTrailerEncodedSize cp)
              (AcquiredTrailerLastChecksum cp) (AcquiredAggregateChecksum cp) emptyChecksum blockCount
      then Inl ErrInvalidCheckpoint
      else if \<not> validEWAHTrailerReference (ReleasedTrailerLastAddress cp) (ReleasedTrailerEncodedSize cp)
              (ReleasedTrailerLastChecksum cp) (ReleasedAggregateChecksum cp) emptyChecksum blockCount
      then Inl ErrInvalidCheckpoint
      else case checkedMul (cv_ClientsMax v) (256 + 8) of None \<Rightarrow> Inl ErrInvalidCheckpoint
      | Some sessionSize \<Rightarrow>
        if \<not> validSessionTrailerReference (SessionTrailerLastAddress cp) (SessionTrailerEncodedSize cp)
              (SessionTrailerLastChecksum cp) (SessionAggregateChecksum cp) emptyChecksum sessionSize
        then Inl ErrInvalidCheckpoint
        else if list_ex (\<lambda>address. address \<noteq> 0 \<and> \<not> validCheckpointBlockAddress address blockCount)
                  (checkpoint_references cp)
        then Inl ErrInvalidCheckpoint
        else if \<not> validManifestReferences cp
          \<or> \<not> validOptionalReference (SnapshotRootAddress cp) (SnapshotRootChecksum cp)
        then Inl ErrInvalidCheckpoint
        else Inr ())"

definition DecodeCheckpointState :: "bytes \<Rightarrow> CheckpointValidation \<Rightarrow> CheckpointState result" where
  "DecodeCheckpointState source v =
     (if length source \<noteq> 1024 \<or> \<not> checkpointReservationsZero source then Inl ErrInvalidCheckpoint
      else let cp = \<lparr>cs_Header = gslice 0 256 source,
        AcquiredTrailerLastChecksum = gslice 256 272 source, ReleasedTrailerLastChecksum = gslice 288 304 source,
        SessionTrailerLastChecksum = gslice 320 336 source, OldestManifestChecksum = gslice 352 368 source,
        NewestManifestChecksum = gslice 384 400 source, SnapshotRootChecksum = gslice 416 432 source,
        AcquiredAggregateChecksum = gslice 448 464 source, ReleasedAggregateChecksum = gslice 464 480 source,
        SessionAggregateChecksum = gslice 480 496 source, ParentID = gslice 496 512 source,
        GrandparentID = gslice 512 528 source,
        AcquiredTrailerLastAddress = get64 (gslice 528 536 source),
        ReleasedTrailerLastAddress = get64 (gslice 536 544 source),
        SessionTrailerLastAddress = get64 (gslice 544 552 source),
        OldestManifestAddress = get64 (gslice 552 560 source),
        NewestManifestAddress = get64 (gslice 560 568 source),
        SnapshotRootAddress = get64 (gslice 568 576 source),
        LogicalStorageSize = get64 (gslice 576 584 source),
        AcquiredTrailerEncodedSize = get64 (gslice 584 592 source),
        ReleasedTrailerEncodedSize = get64 (gslice 592 600 source),
        SessionTrailerEncodedSize = get64 (gslice 600 608 source),
        ManifestBlockCount = get32 (gslice 608 612 source),
        cs_Release = get32 (gslice 612 616 source)\<rparr>
      in bind_result (checkpoint_Validate cp v) (\<lambda>_. Inr cp))"

section \<open>Round trips\<close>

text \<open>The field widths that Go's array types fix.\<close>

definition checkpoint_wf :: "CheckpointState \<Rightarrow> bool" where
  "checkpoint_wf s \<longleftrightarrow> length (cs_Header s) = 256 \<and> length (AcquiredTrailerLastChecksum s) = 16
     \<and> length (ReleasedTrailerLastChecksum s) = 16 \<and> length (SessionTrailerLastChecksum s) = 16
     \<and> length (OldestManifestChecksum s) = 16 \<and> length (NewestManifestChecksum s) = 16
     \<and> length (SnapshotRootChecksum s) = 16 \<and> length (AcquiredAggregateChecksum s) = 16
     \<and> length (ReleasedAggregateChecksum s) = 16 \<and> length (SessionAggregateChecksum s) = 16
     \<and> length (ParentID s) = 16 \<and> length (GrandparentID s) = 16"

definition checkpoint_bytes :: "CheckpointState \<Rightarrow> bytes" where
  "checkpoint_bytes s = checkpoint_numbers s (checkpoint_checksums s (replicate 1024 0))"

lemma checkpoint_Encode_eq: "length d = 1024 \<Longrightarrow> checkpoint_Encode s d = Inr (checkpoint_bytes s)"
  by (simp add: checkpoint_Encode_def checkpoint_bytes_def)

lemma length_checkpoint_bytes [simp]: "length (checkpoint_bytes s) = 1024"
  by (simp add: checkpoint_bytes_def checkpoint_numbers_def checkpoint_checksums_def Let_def)

lemma checkpoint_bytes_zero:
  assumes "checkpoint_wf s"
  shows "checkpointReservationsZero (checkpoint_bytes s)"
proof -
  have tail: "drop 616 (checkpoint_bytes s) = gslice 616 1024 (checkpoint_bytes s)"
    by (rule drop_eq_gslice) simp
  show ?thesis
    using assms unfolding checkpointReservationsZero_def tail checkpoint_wf_def
    by (simp add: checkpoint_bytes_def checkpoint_numbers_def checkpoint_checksums_def Let_def slice_simps)
qed

lemma checkpoint_bytes_slices:
  assumes "checkpoint_wf s"
  defines "b \<equiv> checkpoint_bytes s"
  shows "gslice 0 256 b = cs_Header s" "gslice 256 272 b = AcquiredTrailerLastChecksum s"
    "gslice 288 304 b = ReleasedTrailerLastChecksum s" "gslice 320 336 b = SessionTrailerLastChecksum s"
    "gslice 352 368 b = OldestManifestChecksum s" "gslice 384 400 b = NewestManifestChecksum s"
    "gslice 416 432 b = SnapshotRootChecksum s" "gslice 448 464 b = AcquiredAggregateChecksum s"
    "gslice 464 480 b = ReleasedAggregateChecksum s" "gslice 480 496 b = SessionAggregateChecksum s"
    "gslice 496 512 b = ParentID s" "gslice 512 528 b = GrandparentID s"
    "gslice 528 536 b = put64 (AcquiredTrailerLastAddress s)"
    "gslice 536 544 b = put64 (ReleasedTrailerLastAddress s)"
    "gslice 544 552 b = put64 (SessionTrailerLastAddress s)"
    "gslice 552 560 b = put64 (OldestManifestAddress s)"
    "gslice 560 568 b = put64 (NewestManifestAddress s)"
    "gslice 568 576 b = put64 (SnapshotRootAddress s)"
    "gslice 576 584 b = put64 (LogicalStorageSize s)"
    "gslice 584 592 b = put64 (AcquiredTrailerEncodedSize s)"
    "gslice 592 600 b = put64 (ReleasedTrailerEncodedSize s)"
    "gslice 600 608 b = put64 (SessionTrailerEncodedSize s)"
    "gslice 608 612 b = put32 (ManifestBlockCount s)" "gslice 612 616 b = put32 (cs_Release s)"
  using assms(1) unfolding b_def checkpoint_wf_def
  by (simp_all add: checkpoint_bytes_def checkpoint_numbers_def checkpoint_checksums_def Let_def slice_simps)

lemma DecodeCheckpointState_bytes:
  assumes "checkpoint_wf s"
  shows "DecodeCheckpointState (checkpoint_bytes s) v = bind_result (checkpoint_Validate s v) (\<lambda>_. Inr s)"
  unfolding DecodeCheckpointState_def Let_def checkpoint_bytes_slices [OF assms]
  using checkpoint_bytes_zero [OF assms] by (cases s) (simp add: codec_simps)

lemma DecodeCheckpointState_accepts:
  assumes "DecodeCheckpointState src v = Inr s"
  shows "length src = 1024" "checkpointReservationsZero src" "checkpoint_wf s" "checkpoint_Validate s v = Inr ()"
    "s = \<lparr>cs_Header = gslice 0 256 src,
        AcquiredTrailerLastChecksum = gslice 256 272 src, ReleasedTrailerLastChecksum = gslice 288 304 src,
        SessionTrailerLastChecksum = gslice 320 336 src, OldestManifestChecksum = gslice 352 368 src,
        NewestManifestChecksum = gslice 384 400 src, SnapshotRootChecksum = gslice 416 432 src,
        AcquiredAggregateChecksum = gslice 448 464 src, ReleasedAggregateChecksum = gslice 464 480 src,
        SessionAggregateChecksum = gslice 480 496 src, ParentID = gslice 496 512 src,
        GrandparentID = gslice 512 528 src,
        AcquiredTrailerLastAddress = get64 (gslice 528 536 src),
        ReleasedTrailerLastAddress = get64 (gslice 536 544 src),
        SessionTrailerLastAddress = get64 (gslice 544 552 src),
        OldestManifestAddress = get64 (gslice 552 560 src),
        NewestManifestAddress = get64 (gslice 560 568 src),
        SnapshotRootAddress = get64 (gslice 568 576 src),
        LogicalStorageSize = get64 (gslice 576 584 src),
        AcquiredTrailerEncodedSize = get64 (gslice 584 592 src),
        ReleasedTrailerEncodedSize = get64 (gslice 592 600 src),
        SessionTrailerEncodedSize = get64 (gslice 600 608 src),
        ManifestBlockCount = get32 (gslice 608 612 src),
        cs_Release = get32 (gslice 612 616 src)\<rparr>"
  using assms unfolding DecodeCheckpointState_def Let_def
  by (auto split: if_splits simp: bind_result_Inr_conv checkpoint_wf_def)

text \<open>An accepted record is the only encoding of its state.\<close>

lemma checkpoint_bytes_rebuild:
  assumes "DecodeCheckpointState src v = Inr s"
  shows "checkpoint_bytes s = src"
proof -
  note acc = DecodeCheckpointState_accepts [OF assms]
  have tail: "drop 616 src = gslice 616 1024 src" by (rule drop_eq_gslice) (simp add: acc(1))
  have "eq_on ({} \<union> {272..<288} \<union> {304..<320} \<union> {336..<352} \<union> {368..<384} \<union> {400..<416} \<union> {432..<448}
      \<union> {616..<1024}) src (replicate 1024 0)"
    using acc(1,2) unfolding checkpointReservationsZero_def tail by (intro eq_on_allZero eq_on_empty) simp_all
  then have "eq_on ({} \<union> {272..<288} \<union> {304..<320} \<union> {336..<352} \<union> {368..<384} \<union> {400..<416} \<union> {432..<448}
      \<union> {616..<1024} \<union> {0..<256} \<union> {256..<272} \<union> {288..<304} \<union> {320..<336} \<union> {352..<368} \<union> {384..<400}
      \<union> {416..<432} \<union> {448..<464} \<union> {464..<480} \<union> {480..<496} \<union> {496..<512} \<union> {512..<528})
      src (checkpoint_checksums s (replicate 1024 0))"
    unfolding checkpoint_checksums_def Let_def
    by (intro eq_on_copy) (simp_all add: acc(5) acc(1))
  then have "eq_on ({} \<union> {272..<288} \<union> {304..<320} \<union> {336..<352} \<union> {368..<384} \<union> {400..<416} \<union> {432..<448}
      \<union> {616..<1024} \<union> {0..<256} \<union> {256..<272} \<union> {288..<304} \<union> {320..<336} \<union> {352..<368} \<union> {384..<400}
      \<union> {416..<432} \<union> {448..<464} \<union> {464..<480} \<union> {480..<496} \<union> {496..<512} \<union> {512..<528}
      \<union> {528..<536} \<union> {536..<544} \<union> {544..<552} \<union> {552..<560} \<union> {560..<568} \<union> {568..<576} \<union> {576..<584}
      \<union> {584..<592} \<union> {592..<600} \<union> {600..<608} \<union> {608..<612} \<union> {612..<616}) src (checkpoint_bytes s)"
    unfolding checkpoint_bytes_def checkpoint_numbers_def Let_def
    by (intro eq_on_copy) (simp_all add: acc(5) acc(1) codec_simps)
  then show ?thesis
    by (rule eq_on_full [symmetric]) (auto simp: acc(1))
qed

section \<open>Properties\<close>

text \<open>
  C18: the record of a valid checkpoint state has exactly one encoding: encoding always succeeds on a
  buffer of 1024 bytes, decoding it gives the state back, and every record the decoder accepts is
  the encoding of the state it returns, with every reserved byte zero.
\<close>

theorem checkpoint_round_trip:
  "DecodeCheckpointState source v = Inr s \<longleftrightarrow>
    checkpoint_wf s \<and> checkpoint_Validate s v = Inr () \<and> checkpoint_Encode s (replicate 1024 0) = Inr source"
proof
  assume d: "DecodeCheckpointState source v = Inr s"
  show "checkpoint_wf s \<and> checkpoint_Validate s v = Inr () \<and> checkpoint_Encode s (replicate 1024 0) = Inr source"
    using DecodeCheckpointState_accepts(3,4) [OF d] checkpoint_bytes_rebuild [OF d]
    by (simp add: checkpoint_Encode_eq)
next
  assume "checkpoint_wf s \<and> checkpoint_Validate s v = Inr () \<and> checkpoint_Encode s (replicate 1024 0) = Inr source"
  then show "DecodeCheckpointState source v = Inr s"
    by (auto simp: checkpoint_Encode_eq DecodeCheckpointState_bytes)
qed

end
