(* ===== verification/Superblock.thy ===== *)
theory Superblock
  imports Checkpoint "HOL-Library.List_Lexorder" "HOL-Library.Multiset"
begin

text \<open>
  The superblock of \<^verbatim>\<open>replication/superblock.go\<close>: the durable replica state, its 8192-byte copies,
  their validation, and the selection of one superblock among the copies that could be read. The
  array of view headers is a list of sixteen 256-byte strings, the array of members a list of
  twelve identifiers.
\<close>

record DurableReplicaState =
  ds_Checkpoint :: CheckpointState
  ds_LocalMember :: MemberID
  ds_Members :: "MemberID list"
  ds_CommitMax :: Op
  ds_SyncMin :: Op
  ds_SyncMax :: Op
  ds_LogView :: View
  ds_View :: View
  ds_ActiveCount :: u8
  ds_StandbyCount :: u8

record Superblock =
  sb_Checksum :: Checksum
  sb_FormatVersion :: u16
  sb_Release :: Release
  sb_Sequence :: u64
  sb_Group :: GroupID
  sb_ParentChecksum :: Checksum
  sb_State :: DurableReplicaState
  ViewHeaderCount :: u32
  ConfigurationChecksum :: Checksum
  sb_ProtocolVersion :: u16
  ViewHeaders :: "bytes list"

record SuperblockValidation =
  sv_Group :: GroupID
  sv_Membership :: Membership
  sv_ConfigurationChecksum :: Checksum
  sv_Cluster :: ClusterConfig

record SuperblockCandidate =
  cand_Superblock :: Superblock
  PhysicalIndex :: u16
  MisdirectedIndex :: bool

record superblockLogicalValue =
  val_candidate :: SuperblockCandidate
  val_count :: u8

section \<open>Encoding\<close>

text \<open>The loops that copy an array of equally long byte arrays.\<close>

fun copy_each :: "nat \<Rightarrow> nat \<Rightarrow> bytes list \<Rightarrow> bytes \<Rightarrow> bytes" where
  "copy_each start width [] d = d"
| "copy_each start width (x # xs) d = copy_each (start + width) width xs (copy_at start (start + width) x d)"

definition read_each :: "nat \<Rightarrow> nat \<Rightarrow> nat \<Rightarrow> bytes \<Rightarrow> bytes list" where
  "read_each start width n source =
     map (\<lambda>i. gslice (start + i * width) (start + (i + 1) * width) source) [0..<n]"

definition state_fields :: "DurableReplicaState \<Rightarrow> bytes \<Rightarrow> bytes" where
  "state_fields st d =
     (let d = copy_at 1024 1040 (ds_LocalMember st) d;
          d = copy_each 1040 16 (ds_Members st) d;
          d = copy_at 1232 1240 (put64 (ds_CommitMax st)) d;
          d = copy_at 1240 1248 (put64 (ds_SyncMin st)) d;
          d = copy_at 1248 1256 (put64 (ds_SyncMax st)) d;
          d = copy_at 1260 1264 (put32 (ds_LogView st)) d;
          d = copy_at 1264 1268 (put32 (ds_View st)) d;
          d = d[1268 := ds_ActiveCount st]
      in d[1269 := ds_StandbyCount st])"

definition state_encode :: "DurableReplicaState \<Rightarrow> bytes \<Rightarrow> bytes result" where
  "state_encode st destination =
     (if length destination \<noteq> 2048 then Inl ErrInvalidSuperblock
      else bind_result (checkpoint_Encode (ds_Checkpoint st) (replicate 1024 0))
        (\<lambda>cp. Inr (state_fields st (copy_at 0 1024 cp (replicate 2048 0)))))"

definition checkpoint_validation :: "SuperblockValidation \<Rightarrow> u64 \<Rightarrow> CheckpointValidation" where
  "checkpoint_validation v blockBase =
     \<lparr>cv_Group = sv_Group v, cv_MessageSizeMax = ucast (cfg_MessageSizeMax (sv_Cluster v)),
      cv_MemberCount = mem_ActiveCount (sv_Membership v) + StandbyCount (sv_Membership v),
      cv_BlockBase = blockBase, cv_BlockSize = BlockSize (sv_Cluster v), cv_ClientsMax = ClientsMax (sv_Cluster v)\<rparr>"

definition decodeDurableReplicaState :: "bytes \<Rightarrow> SuperblockValidation \<Rightarrow> DurableReplicaState result" where
  "decodeDurableReplicaState source v =
     (if length source \<noteq> 2048 \<or> \<not> allZero (gslice 1256 1260 source) \<or> \<not> allZero (drop 1270 source)
      then Inl ErrInvalidSuperblock
      else case BlockBase (sv_Cluster v) of None \<Rightarrow> Inl ErrInvalidSuperblock
      | Some blockBase \<Rightarrow>
        bind_result (DecodeCheckpointState (gslice 0 1024 source) (checkpoint_validation v blockBase))
        (\<lambda>cp. Inr \<lparr>ds_Checkpoint = cp, ds_LocalMember = gslice 1024 1040 source,
           ds_Members = read_each 1040 16 MembersMax source,
           ds_CommitMax = get64 (gslice 1232 1240 source), ds_SyncMin = get64 (gslice 1240 1248 source),
           ds_SyncMax = get64 (gslice 1248 1256 source), ds_LogView = get32 (gslice 1260 1264 source),
           ds_View = get32 (gslice 1264 1268 source), ds_ActiveCount = source ! 1268,
           ds_StandbyCount = source ! 1269\<rparr>))"

section \<open>Validation\<close>

definition validIdentity :: "Superblock \<Rightarrow> SuperblockValidation \<Rightarrow> bool" where
  "validIdentity sb v \<longleftrightarrow> sb_FormatVersion sb = FormatVersion \<and> sb_Release sb \<noteq> 0 \<and> sb_Sequence sb \<noteq> 0
     \<and> sb_Group sb = sv_Group v \<and> ConfigurationChecksum sb = sv_ConfigurationChecksum v
     \<and> sb_ProtocolVersion sb = ProtocolVersion"

text \<open>The view headers in use are decoded one by one.\<close>

definition viewHeader_ok :: "SuperblockValidation \<Rightarrow> bytes \<Rightarrow> bool" where
  "viewHeader_ok v encoded =
     (let (header, reason) = DecodeHeader encoded (sv_Group v) (ucast (cfg_MessageSizeMax (sv_Cluster v)))
            (mem_ActiveCount (sv_Membership v) + StandbyCount (sv_Membership v))
      in reason = RejectNone \<and> Command header = CommandPrepare)"

definition superblock_Validate :: "Superblock \<Rightarrow> SuperblockValidation \<Rightarrow> unit result" where
  "superblock_Validate sb v =
     (if \<not> validIdentity sb v then Inl ErrInvalidSuperblock
      else if ds_LocalMember (sb_State sb) \<noteq> LocalMember (sv_Membership v)
         \<or> ds_Members (sb_State sb) \<noteq> Members (sv_Membership v)
         \<or> ds_ActiveCount (sb_State sb) \<noteq> mem_ActiveCount (sv_Membership v)
         \<or> ds_StandbyCount (sb_State sb) \<noteq> StandbyCount (sv_Membership v)
      then Inl (ErrJoin ErrInvalidSuperblock ErrIncompatibleConfiguration)
      else let blockBase = (case BlockBase (sv_Cluster v) of None \<Rightarrow> 0 | Some b \<Rightarrow> b)
      in case checkpoint_Validate (ds_Checkpoint (sb_State sb)) (checkpoint_validation v blockBase) of
        Inl e \<Rightarrow> Inl e
      | Inr _ \<Rightarrow>
        if ds_CommitMax (sb_State sb) < PrepareOp (ds_Checkpoint (sb_State sb))
           \<or> ds_SyncMax (sb_State sb) < ds_SyncMin (sb_State sb)
           \<or> (ds_SyncMax (sb_State sb) = 0) \<noteq> (ds_SyncMin (sb_State sb) = 0)
           \<or> ds_View (sb_State sb) < ds_LogView (sb_State sb) then Inl ErrInvalidSuperblock
        else if ViewHeaderCount sb > ucast (cfg_PipelineMax (sv_Cluster v) + 1) \<or> ViewHeaderCount sb > 16
        then Inl ErrInvalidSuperblock
        else if \<not> list_all (viewHeader_ok v) (take (unat (ViewHeaderCount sb)) (ViewHeaders sb))
        then Inl ErrInvalidSuperblock
        else Inr ())"

definition superblock_fields :: "Superblock \<Rightarrow> u16 \<Rightarrow> bytes \<Rightarrow> bytes" where
  "superblock_fields sb physicalIndex encodedState =
     (let d = replicate 8192 0;
          d = copy_at 32 34 (put16 physicalIndex) d;
          d = copy_at 34 36 (put16 (sb_FormatVersion sb)) d;
          d = copy_at 36 40 (put32 (sb_Release sb)) d;
          d = copy_at 40 48 (put64 (sb_Sequence sb)) d;
          d = copy_at 48 64 (sb_Group sb) d;
          d = copy_at 64 80 (sb_ParentChecksum sb) d;
          d = copy_at 96 2144 encodedState d;
          d = copy_at 2152 2156 (put32 (ViewHeaderCount sb)) d;
          d = copy_at 2156 2172 (ConfigurationChecksum sb) d;
          d = copy_at 2172 2174 (put16 (sb_ProtocolVersion sb)) d
      in copy_each 4096 256 (take (unat (ViewHeaderCount sb)) (ViewHeaders sb)) d)"

text \<open>The superblock is returned as well, because encoding sets its checksum.\<close>

definition superblock_Encode :: "Superblock \<Rightarrow> bytes \<Rightarrow> u16 \<Rightarrow> SuperblockValidation \<Rightarrow> (bytes \<times> Superblock) result" where
  "superblock_Encode sb destination physicalIndex v =
     (if length destination \<noteq> 8192 \<or> physicalIndex \<ge> ucast (SuperblockCopies (sv_Cluster v))
      then Inl ErrInvalidSuperblock
      else bind_result (superblock_Validate sb v) (\<lambda>_.
           bind_result (state_encode (sb_State sb) (replicate 2048 0)) (\<lambda>encodedState.
             let d = superblock_fields sb physicalIndex encodedState;
                 sb = sb\<lparr>sb_Checksum := ChecksumBytes (drop 34 d)\<rparr>
             in Inr (copy_at 0 16 (sb_Checksum sb) d, sb))))"

definition DecodeSuperblock :: "bytes \<Rightarrow> u16 \<Rightarrow> SuperblockValidation \<Rightarrow> SuperblockCandidate result" where
  "DecodeSuperblock source physicalIndex v =
     (if length source \<noteq> 8192 \<or> \<not> allZero (gslice 16 32 source) then Inl ErrInvalidSuperblock
      else let checksum = gslice 0 16 source
      in if ChecksumBytes (drop 34 source) \<noteq> checksum then Inl ErrInvalidSuperblock
      else let storedFormat = get16 (gslice 34 36 source); storedRelease = get32 (gslice 36 40 source);
               storedSequence = get64 (gslice 40 48 source); storedGroup = gslice 48 64 source;
               storedConfiguration = gslice 2156 2172 source; storedProtocol = get16 (gslice 2172 2174 source)
      in if storedRelease = 0 \<or> storedSequence = 0 then Inl ErrInvalidSuperblock
      else if storedFormat \<noteq> FormatVersion \<or> storedGroup \<noteq> sv_Group v
         \<or> storedConfiguration \<noteq> sv_ConfigurationChecksum v \<or> storedProtocol \<noteq> ProtocolVersion
      then Inl (ErrJoin ErrInvalidSuperblock ErrIncompatibleConfiguration)
      else let storedIndex = get16 (gslice 32 34 source)
      in bind_result (decodeDurableReplicaState (gslice 96 2144 source) v) (\<lambda>st.
        if \<not> allZero (gslice 80 96 source) \<or> (get64 (gslice 2144 2152 source) :: u64) \<noteq> 0
           \<or> \<not> allZero (gslice 2174 4096 source) then Inl ErrInvalidSuperblock
        else let count = get32 (gslice 2152 2156 source) :: u32
        in if count > 16 \<or> count > ucast (cfg_PipelineMax (sv_Cluster v) + 1) then Inl ErrInvalidSuperblock
        else let headers = read_each 4096 256 (unat count) source @ replicate (16 - unat count) (replicate 256 0);
                 sb = \<lparr>sb_Checksum = checksum, sb_FormatVersion = storedFormat, sb_Release = storedRelease,
                   sb_Sequence = storedSequence, sb_Group = storedGroup, sb_ParentChecksum = gslice 64 80 source,
                   sb_State = st, ViewHeaderCount = count, ConfigurationChecksum = storedConfiguration,
                   sb_ProtocolVersion = storedProtocol, ViewHeaders = headers\<rparr>
        in if \<not> allZero (drop (4096 + unat count * 256) source) then Inl ErrInvalidSuperblock
        else bind_result (superblock_Validate sb v) (\<lambda>_.
          Inr \<lparr>cand_Superblock = sb, PhysicalIndex = physicalIndex, MisdirectedIndex = storedIndex \<noteq> physicalIndex\<rparr>)))"

section \<open>Selection\<close>

definition superblockOpenQuorum :: "u64 \<Rightarrow> u8 option" where
  "superblockOpenQuorum copies =
     (if copies = 4 then Some 2 else if copies = 6 then Some 3 else if copies = 8 then Some 4 else None)"

definition superblockWriteCopies :: "u64 \<Rightarrow> u8 option" where
  "superblockWriteCopies copies =
     (if copies = 4 then Some 3 else if copies = 6 then Some 4 else if copies = 8 then Some 5 else None)"

definition durableStateRegressed :: "DurableReplicaState \<Rightarrow> DurableReplicaState \<Rightarrow> bool" where
  "durableStateRegressed previous current \<longleftrightarrow>
     PrepareOp (ds_Checkpoint current) < PrepareOp (ds_Checkpoint previous)
     \<or> ds_CommitMax current < ds_CommitMax previous \<or> ds_LogView current < ds_LogView previous
     \<or> ds_View current < ds_View previous"

abbreviation val_Superblock :: "superblockLogicalValue \<Rightarrow> Superblock" where
  "val_Superblock value \<equiv> cand_Superblock (val_candidate value)"

definition val_Sequence :: "superblockLogicalValue \<Rightarrow> u64" where
  "val_Sequence value = sb_Sequence (val_Superblock value)"

definition betterSuperblock :: "superblockLogicalValue \<Rightarrow> superblockLogicalValue \<Rightarrow> bool" where
  "betterSuperblock left right =
     (if val_Sequence left \<noteq> val_Sequence right then val_Sequence left > val_Sequence right
      else if val_count left \<noteq> val_count right then val_count left > val_count right
      else sb_Checksum (val_Superblock left) < sb_Checksum (val_Superblock right))"

text \<open>The inner loop that counts one more candidate.\<close>

fun count_candidate :: "superblockLogicalValue list \<Rightarrow> SuperblockCandidate \<Rightarrow> superblockLogicalValue list result" where
  "count_candidate [] candidate = Inr [\<lparr>val_candidate = candidate, val_count = 1\<rparr>]"
| "count_candidate (v # vs) candidate =
     (if val_Sequence v = sb_Sequence (cand_Superblock candidate)
      then (if sb_Checksum (val_Superblock v) \<noteq> sb_Checksum (cand_Superblock candidate)
            then Inl ErrSuperblockFork else Inr (v\<lparr>val_count := val_count v + 1\<rparr> # vs))
      else bind_result (count_candidate vs candidate) (\<lambda>vs. Inr (v # vs)))"

fun count_candidates :: "superblockLogicalValue list \<Rightarrow> SuperblockCandidate list \<Rightarrow> superblockLogicalValue list result" where
  "count_candidates values [] = Inr values"
| "count_candidates values (c # cs) =
     bind_result (count_candidate values c) (\<lambda>values. count_candidates values cs)"

text \<open>The two nested loops of the exchange sort: one sweep brings the least sequence to the front.\<close>

fun sweep :: "superblockLogicalValue \<Rightarrow> superblockLogicalValue list \<Rightarrow> superblockLogicalValue \<times> superblockLogicalValue list" where
  "sweep left [] = (left, [])"
| "sweep left (right # rest) =
     (if val_Sequence right < val_Sequence left
      then (let (least, rest') = sweep right rest in (least, left # rest'))
      else (let (least, rest') = sweep left rest in (least, right # rest')))"

lemma length_sweep: "length (snd (sweep v vs)) = length vs"
  by (induction v vs rule: sweep.induct) (auto split: prod.splits)

function exchange_sort :: "superblockLogicalValue list \<Rightarrow> superblockLogicalValue list" where
  "exchange_sort [] = []"
| "exchange_sort (v # vs) = (let (least, rest) = sweep v vs in least # exchange_sort rest)"
  by pat_completeness auto
termination
proof (relation "measure length", goal_cases)
  case (2 v vs x least rest)
  then show ?case using length_sweep [of v vs] by (metis in_measure length_Cons less_Suc_eq snd_conv)
qed simp

definition linked :: "superblockLogicalValue \<Rightarrow> superblockLogicalValue \<Rightarrow> bool" where
  "linked previous current \<longleftrightarrow> val_Sequence current = val_Sequence previous + 1
     \<and> sb_ParentChecksum (val_Superblock current) = sb_Checksum (val_Superblock previous)
     \<and> \<not> durableStateRegressed (sb_State (val_Superblock previous)) (sb_State (val_Superblock current))"

fun chain_ok :: "superblockLogicalValue list \<Rightarrow> bool" where
  "chain_ok (previous # current # rest) = (linked previous current \<and> chain_ok (current # rest))"
| "chain_ok _ = True"

definition is_initial :: "Superblock \<Rightarrow> bool" where
  "is_initial sb \<longleftrightarrow> sb_Sequence sb = 1 \<and> sb_ParentChecksum sb = zeroID"

definition requiredQuorum :: "u64 \<Rightarrow> u8 \<Rightarrow> superblockLogicalValue \<Rightarrow> u8" where
  "requiredQuorum copies openQuorum value =
     (if is_initial (val_Superblock value)
      then (case superblockWriteCopies copies of Some n \<Rightarrow> n | None \<Rightarrow> 0) else openQuorum)"

fun select_loop :: "u64 \<Rightarrow> u8 \<Rightarrow> superblockLogicalValue list \<Rightarrow> superblockLogicalValue option \<Rightarrow> superblockLogicalValue option" where
  "select_loop copies openQuorum [] selected = selected"
| "select_loop copies openQuorum (v # vs) selected =
     select_loop copies openQuorum vs
       (if val_count v < requiredQuorum copies openQuorum v then selected
        else case selected of None \<Rightarrow> Some v
          | Some s \<Rightarrow> if betterSuperblock v s then Some v else selected)"

definition SelectSuperblock :: "SuperblockCandidate list \<Rightarrow> u64 \<Rightarrow> SuperblockCandidate result" where
  "SelectSuperblock candidates copies =
     (case superblockOpenQuorum copies of None \<Rightarrow> Inl ErrSuperblockQuorum
      | Some openQuorum \<Rightarrow>
        if candidates = [] \<or> length candidates > unat copies then Inl ErrSuperblockQuorum
        else bind_result (count_candidates [] candidates) (\<lambda>values.
          let values = exchange_sort values
          in if \<not> chain_ok values then Inl ErrInvalidSuperblock
          else case select_loop copies openQuorum values None of
            Some v \<Rightarrow> Inr (val_candidate v)
          | None \<Rightarrow>
              if list_ex (\<lambda>v. is_initial (val_Superblock v)) values
              then Inl ErrSuperblockInitializationIncomplete else Inl ErrSuperblockQuorum))"

section \<open>Arrays of byte arrays\<close>

lemma length_copy_each [simp]: "length (copy_each a w xs d) = length d"
  by (induction a w xs d rule: copy_each.induct) simp_all

lemma length_concat_const: "list_all (\<lambda>x. length x = w) xs \<Longrightarrow> length (concat xs) = length xs * w"
  by (induction xs) auto

lemma copy_each_concat:
  "list_all (\<lambda>x. length x = w) xs \<Longrightarrow> a + length xs * w \<le> length d \<Longrightarrow>
     copy_each a w xs d = copy_at a (a + length xs * w) (concat xs) d"
proof (induction xs arbitrary: a d)
  case Nil
  then show ?case by (simp add: copy_at_empty)
next
  case (Cons x xs)
  have "copy_each (a + w) w xs (copy_at a (a + w) x d)
      = copy_at (a + w) (a + w + length xs * w) (concat xs) (copy_at a (a + w) x d)"
    using Cons.prems by (intro Cons.IH) simp_all
  also have "\<dots> = copy_at a (a + w + length xs * w) (x @ concat xs) d"
    using Cons.prems by (intro copy_at_append) (simp_all add: length_concat_const)
  finally show ?case by (simp add: add.assoc)
qed

lemma concat_slices:
  "list_all (\<lambda>x. length x = w) xs \<Longrightarrow> i < length xs \<Longrightarrow> gslice (i * w) (i * w + w) (concat xs) = xs ! i"
proof (induction xs arbitrary: i)
  case (Cons x xs)
  show ?case
  proof (cases i)
    case 0
    then show ?thesis using Cons.prems by (simp add: gslice_def)
  next
    case (Suc j)
    have "gslice (i * w) (i * w + w) (concat (x # xs)) = gslice (j * w) (j * w + w) (concat xs)"
      using Cons.prems Suc by (simp add: gslice_def add.commute)
    then show ?thesis using Cons Suc by simp
  qed
qed simp

lemma read_each_concat:
  assumes "gslice s (s + n * w) src = concat xs" "list_all (\<lambda>x. length x = w) xs" "length xs = n"
  shows "read_each s w n src = xs"
proof (rule nth_equalityI)
  fix i
  assume "i < length (read_each s w n src)"
  then have i: "i < n" by (simp add: read_each_def)
  have "i * w + w \<le> n * w" using i mult_le_mono1 [of "Suc i" n w] by simp
  then have "gslice (s + i * w) (s + (i * w + w)) src = gslice (i * w) (i * w + w) (concat xs)"
    unfolding assms(1) [symmetric] by (intro gslice_gslice [symmetric]) simp_all
  then show "read_each s w n src ! i = xs ! i"
    using i assms(2,3) concat_slices [OF assms(2), of i] by (simp add: read_each_def add.commute add.left_commute)
qed (simp add: read_each_def assms(3))

lemma read_each_shape:
  "length (read_each s w n src) = n"
  "s + n * w \<le> length src \<Longrightarrow> list_all (\<lambda>x. length x = w) (read_each s w n src)"
proof -
  show "length (read_each s w n src) = n" by (simp add: read_each_def)
  assume "s + n * w \<le> length src"
  moreover have "i < n \<Longrightarrow> i * w + w \<le> n * w" for i using mult_le_mono1 [of "Suc i" n w] by simp
  ultimately have "i < n \<Longrightarrow> w \<le> length src - (s + i * w)" for i by fastforce
  then show "list_all (\<lambda>x. length x = w) (read_each s w n src)"
    by (simp add: read_each_def list_all_iff min_absorb1)
qed

lemma concat_read_each:
  "s + n * w \<le> length src \<Longrightarrow> concat (read_each s w n src) = gslice s (s + n * w) src"
proof (induction n)
  case 0
  then show ?case by (simp add: read_each_def gslice_def)
next
  case (Suc n)
  have "concat (read_each s w (Suc n) src) = concat (read_each s w n src) @ gslice (s + n * w) (s + Suc n * w) src"
    by (simp add: read_each_def)
  also have "\<dots> = gslice s (s + n * w) src @ gslice (s + n * w) (s + Suc n * w) src"
    using Suc by simp
  also have "\<dots> = gslice s (s + Suc n * w) src"
    by (rule gslice_append) simp_all
  finally show ?case .
qed

section \<open>Round trips\<close>

definition state_wf :: "DurableReplicaState \<Rightarrow> bool" where
  "state_wf st \<longleftrightarrow> checkpoint_wf (ds_Checkpoint st) \<and> length (ds_LocalMember st) = 16
     \<and> length (ds_Members st) = MembersMax \<and> list_all (\<lambda>x. length x = 16) (ds_Members st)"

definition state_bytes :: "DurableReplicaState \<Rightarrow> bytes" where
  "state_bytes st = state_fields st (copy_at 0 1024 (checkpoint_bytes (ds_Checkpoint st)) (replicate 2048 0))"

lemma state_encode_eq: "length d = 2048 \<Longrightarrow> state_encode st d = Inr (state_bytes st)"
  by (simp add: state_encode_def state_bytes_def checkpoint_Encode_eq)

lemma length_state_bytes [simp]: "length (state_bytes st) = 2048"
  by (simp add: state_bytes_def state_fields_def Let_def)

lemma state_bytes_flat:
  assumes "state_wf st"
  shows "state_bytes st =
    (copy_at 1264 1268 (put32 (ds_View st)) (copy_at 1260 1264 (put32 (ds_LogView st))
      (copy_at 1248 1256 (put64 (ds_SyncMax st)) (copy_at 1240 1248 (put64 (ds_SyncMin st))
        (copy_at 1232 1240 (put64 (ds_CommitMax st)) (copy_at 1040 1232 (concat (ds_Members st))
          (copy_at 1024 1040 (ds_LocalMember st)
            (copy_at 0 1024 (checkpoint_bytes (ds_Checkpoint st)) (replicate 2048 0)))))))))
    [1268 := ds_ActiveCount st, 1269 := ds_StandbyCount st]"
proof -
  have "copy_each 1040 16 (ds_Members st) d = copy_at 1040 1232 (concat (ds_Members st)) d"
    if "length d = 2048" for d
    using copy_each_concat [of 16 "ds_Members st" 1040 d] assms that by (simp add: state_wf_def)
  then show ?thesis by (simp add: state_bytes_def state_fields_def Let_def)
qed

lemma state_bytes_slices:
  assumes "state_wf st"
  defines "b \<equiv> state_bytes st"
  shows "gslice 0 1024 b = checkpoint_bytes (ds_Checkpoint st)" "gslice 1024 1040 b = ds_LocalMember st"
    "read_each 1040 16 12 b = ds_Members st" "gslice 1232 1240 b = put64 (ds_CommitMax st)"
    "gslice 1240 1248 b = put64 (ds_SyncMin st)" "gslice 1248 1256 b = put64 (ds_SyncMax st)"
    "gslice 1260 1264 b = put32 (ds_LogView st)" "gslice 1264 1268 b = put32 (ds_View st)"
    "b ! 1268 = ds_ActiveCount st" "b ! 1269 = ds_StandbyCount st"
    "allZero (gslice 1256 1260 b)" "allZero (drop 1270 b)"
proof -
  have len: "length (concat (ds_Members st)) = 192"
    using assms(1) length_concat_const [of 16 "ds_Members st"] by (simp add: state_wf_def)
  have tail: "drop 1270 b = gslice 1270 2048 b" by (rule drop_eq_gslice) (simp add: b_def)
  show "allZero (drop 1270 b)" unfolding tail
    using assms(1) len by (simp add: b_def state_bytes_flat slice_simps)
  have "gslice 1040 1232 b = concat (ds_Members st)"
    using assms(1) len by (simp add: b_def state_bytes_flat slice_simps)
  then show "read_each 1040 16 12 b = ds_Members st"
    using assms(1) read_each_concat [of 1040 12 16 b "ds_Members st"] by (simp add: state_wf_def)
  show "gslice 0 1024 b = checkpoint_bytes (ds_Checkpoint st)" "gslice 1024 1040 b = ds_LocalMember st"
    "gslice 1232 1240 b = put64 (ds_CommitMax st)"
    "gslice 1240 1248 b = put64 (ds_SyncMin st)" "gslice 1248 1256 b = put64 (ds_SyncMax st)"
    "gslice 1260 1264 b = put32 (ds_LogView st)" "gslice 1264 1268 b = put32 (ds_View st)"
    "b ! 1268 = ds_ActiveCount st" "b ! 1269 = ds_StandbyCount st"
    "allZero (gslice 1256 1260 b)"
    using assms(1) len by (simp_all add: b_def state_bytes_flat slice_simps state_wf_def)
qed

lemma decode_state_bytes:
  assumes "state_wf st" "BlockBase (sv_Cluster v) = Some base"
    "checkpoint_Validate (ds_Checkpoint st) (checkpoint_validation v base) = Inr ()"
  shows "decodeDurableReplicaState (state_bytes st) v = Inr st"
  unfolding decodeDurableReplicaState_def state_bytes_slices [OF assms(1)] assms(2) option.case
  using assms(1,3) state_bytes_slices(11,12) [OF assms(1)]
  by (cases st) (simp add: DecodeCheckpointState_bytes state_wf_def codec_simps)

text \<open>The view headers beyond the count are not written, so they read back as zeros.\<close>

definition superblock_wf :: "Superblock \<Rightarrow> bool" where
  "superblock_wf sb \<longleftrightarrow> state_wf (sb_State sb) \<and> length (sb_Group sb) = 16 \<and> length (sb_ParentChecksum sb) = 16
     \<and> length (ConfigurationChecksum sb) = 16 \<and> length (ViewHeaders sb) = 16
     \<and> list_all (\<lambda>x. length x = 256) (ViewHeaders sb)
     \<and> drop (unat (ViewHeaderCount sb)) (ViewHeaders sb) = replicate (16 - unat (ViewHeaderCount sb)) (replicate 256 0)"

definition superblock_body :: "Superblock \<Rightarrow> u16 \<Rightarrow> bytes" where
  "superblock_body sb i = superblock_fields sb i (state_bytes (sb_State sb))"

definition superblock_bytes :: "Superblock \<Rightarrow> u16 \<Rightarrow> bytes" where
  "superblock_bytes sb i = copy_at 0 16 (ChecksumBytes (drop 34 (superblock_body sb i))) (superblock_body sb i)"

lemma length_superblock_body [simp]: "length (superblock_body sb i) = 8192"
  by (simp add: superblock_body_def superblock_fields_def Let_def)

lemma length_superblock_bytes [simp]: "length (superblock_bytes sb i) = 8192"
  by (simp add: superblock_bytes_def)

lemma Validate_ok:
  assumes "superblock_Validate sb v = Inr ()"
  shows "validIdentity sb v" "ViewHeaderCount sb \<le> 16" "ViewHeaderCount sb \<le> ucast (cfg_PipelineMax (sv_Cluster v) + 1)"
    "checkpoint_Validate (ds_Checkpoint (sb_State sb))
       (checkpoint_validation v (case BlockBase (sv_Cluster v) of None \<Rightarrow> 0 | Some b \<Rightarrow> b)) = Inr ()"
  using assms by (auto simp: superblock_Validate_def Let_def not_less split: if_splits sum.splits)

lemma superblock_body_flat:
  assumes "superblock_wf sb" "ViewHeaderCount sb \<le> 16"
  defines "n \<equiv> unat (ViewHeaderCount sb)"
  shows "superblock_body sb i =
    copy_at 4096 (4096 + n * 256) (concat (take n (ViewHeaders sb)))
     (copy_at 2172 2174 (put16 (sb_ProtocolVersion sb)) (copy_at 2156 2172 (ConfigurationChecksum sb)
      (copy_at 2152 2156 (put32 (ViewHeaderCount sb)) (copy_at 96 2144 (state_bytes (sb_State sb))
       (copy_at 64 80 (sb_ParentChecksum sb) (copy_at 48 64 (sb_Group sb)
        (copy_at 40 48 (put64 (sb_Sequence sb)) (copy_at 36 40 (put32 (sb_Release sb))
         (copy_at 34 36 (put16 (sb_FormatVersion sb)) (copy_at 32 34 (put16 i) (replicate 8192 0)))))))))))"
    "length (concat (take n (ViewHeaders sb))) = n * 256" "n \<le> 16"
proof -
  show n: "n \<le> 16" using assms(2) by (simp add: n_def word_le_nat_alt)
  have h: "list_all (\<lambda>x. length x = 256) (take n (ViewHeaders sb))" "length (take n (ViewHeaders sb)) = n"
    using assms(1) n by (auto simp: superblock_wf_def list_all_iff dest: in_set_takeD)
  show "length (concat (take n (ViewHeaders sb))) = n * 256"
    using length_concat_const [OF h(1)] h(2) by simp
  have "copy_each 4096 256 (take n (ViewHeaders sb)) d = copy_at 4096 (4096 + n * 256) (concat (take n (ViewHeaders sb))) d"
    if "length d = 8192" for d
    using copy_each_concat [OF h(1), of 4096 d] h(2) n that by simp
  then show "superblock_body sb i =
    copy_at 4096 (4096 + n * 256) (concat (take n (ViewHeaders sb)))
     (copy_at 2172 2174 (put16 (sb_ProtocolVersion sb)) (copy_at 2156 2172 (ConfigurationChecksum sb)
      (copy_at 2152 2156 (put32 (ViewHeaderCount sb)) (copy_at 96 2144 (state_bytes (sb_State sb))
       (copy_at 64 80 (sb_ParentChecksum sb) (copy_at 48 64 (sb_Group sb)
        (copy_at 40 48 (put64 (sb_Sequence sb)) (copy_at 36 40 (put32 (sb_Release sb))
         (copy_at 34 36 (put16 (sb_FormatVersion sb)) (copy_at 32 34 (put16 i) (replicate 8192 0)))))))))))"
    by (simp add: superblock_body_def superblock_fields_def Let_def n_def)
qed

lemma superblock_bytes_slices:
  fixes sb :: Superblock and i :: u16
  assumes "superblock_wf sb" "ViewHeaderCount sb \<le> 16"
  defines "b \<equiv> superblock_bytes sb i" and "n \<equiv> unat (ViewHeaderCount sb)"
  shows "gslice 0 16 b = ChecksumBytes (drop 34 b)" "allZero (gslice 16 32 b)" "gslice 32 34 b = put16 i"
    "gslice 34 36 b = put16 (sb_FormatVersion sb)" "gslice 36 40 b = put32 (sb_Release sb)"
    "gslice 40 48 b = put64 (sb_Sequence sb)" "gslice 48 64 b = sb_Group sb" "gslice 64 80 b = sb_ParentChecksum sb"
    "allZero (gslice 80 96 b)" "gslice 96 2144 b = state_bytes (sb_State sb)" "gslice 2144 2152 b = put64 0"
    "gslice 2152 2156 b = put32 (ViewHeaderCount sb)" "gslice 2156 2172 b = ConfigurationChecksum sb"
    "gslice 2172 2174 b = put16 (sb_ProtocolVersion sb)" "allZero (gslice 2174 4096 b)"
    "read_each 4096 256 n b = take n (ViewHeaders sb)" "allZero (drop (4096 + n * 256) b)"
proof -
  note flat = superblock_body_flat [OF assms(1,2), folded n_def]
  have sum: "length (ChecksumBytes (drop 34 (superblock_body sb i))) = 16" by simp
  have wf: "length (sb_Group sb) = 16" "length (sb_ParentChecksum sb) = 16" "length (ConfigurationChecksum sb) = 16"
    using assms(1) by (simp_all add: superblock_wf_def)
  have d: "drop 34 b = drop 34 (superblock_body sb i)" by (simp add: b_def superblock_bytes_def drop_copy_at)
  show "gslice 0 16 b = ChecksumBytes (drop 34 b)" unfolding d
    using sum by (simp add: b_def superblock_bytes_def slice_simps)
  have high: "gslice x y b = gslice x y (superblock_body sb i)" if "16 \<le> x" for x y
    using that by (simp add: b_def superblock_bytes_def slice_simps)
  show "allZero (gslice 16 32 b)" "gslice 32 34 b = put16 i"
    "gslice 34 36 b = put16 (sb_FormatVersion sb)" "gslice 36 40 b = put32 (sb_Release sb)"
    "gslice 40 48 b = put64 (sb_Sequence sb)" "gslice 48 64 b = sb_Group sb" "gslice 64 80 b = sb_ParentChecksum sb"
    "allZero (gslice 80 96 b)" "gslice 96 2144 b = state_bytes (sb_State sb)" "gslice 2144 2152 b = put64 0"
    "gslice 2152 2156 b = put32 (ViewHeaderCount sb)" "gslice 2156 2172 b = ConfigurationChecksum sb"
    "gslice 2172 2174 b = put16 (sb_ProtocolVersion sb)" "allZero (gslice 2174 4096 b)"
    using wf flat(2,3) by (simp_all add: high flat(1) slice_simps codec_simps)
  have tail: "drop (4096 + n * 256) b = gslice (4096 + n * 256) 8192 b"
    by (rule drop_eq_gslice) (simp add: b_def)
  show "allZero (drop (4096 + n * 256) b)" unfolding tail
    using wf flat(2,3) by (simp add: high flat(1) slice_simps)
  have "gslice 4096 (4096 + n * 256) b = concat (take n (ViewHeaders sb))"
    using flat(2,3) by (simp add: high flat(1) slice_simps)
  then show "read_each 4096 256 n b = take n (ViewHeaders sb)"
    using assms(1) flat(3)
    by (intro read_each_concat) (auto simp: superblock_wf_def list_all_iff dest: in_set_takeD)
qed

text \<open>The physical index is outside the checksummed part, so all copies share one checksum.\<close>

definition superblock_checksum :: "Superblock \<Rightarrow> Checksum" where
  "superblock_checksum sb = ChecksumBytes (drop 34 (superblock_body sb 0))"

definition sealed :: "Superblock \<Rightarrow> Superblock" where
  "sealed sb = sb\<lparr>sb_Checksum := superblock_checksum sb\<rparr>"

lemma checksum_any_copy:
  assumes "superblock_wf sb" "ViewHeaderCount sb \<le> 16"
  shows "ChecksumBytes (drop 34 (superblock_body sb i)) = superblock_checksum sb"
    "ChecksumBytes (drop 34 (superblock_bytes sb i)) = superblock_checksum sb"
proof -
  note flat = superblock_body_flat [OF assms]
  have wf: "length (sb_Group sb) = 16" "length (sb_ParentChecksum sb) = 16" "length (ConfigurationChecksum sb) = 16"
    using assms(1) by (simp_all add: superblock_wf_def)
  have "drop 34 (superblock_body sb i) = drop 34 (superblock_body sb 0)"
    unfolding flat(1) using wf flat(2,3) by (simp add: drop_copy_at_after drop_copy_at)
  then show "ChecksumBytes (drop 34 (superblock_body sb i)) = superblock_checksum sb"
    by (simp add: superblock_checksum_def)
  then show "ChecksumBytes (drop 34 (superblock_bytes sb i)) = superblock_checksum sb"
    by (simp add: superblock_bytes_def drop_copy_at)
qed

lemma superblock_Encode_ok:
  assumes "superblock_wf sb" "superblock_Validate sb v = Inr ()" "length d = 8192"
    "i < ucast (SuperblockCopies (sv_Cluster v))"
  shows "superblock_Encode sb d i v = Inr (superblock_bytes sb i, sealed sb)"
proof -
  note sum = checksum_any_copy [OF assms(1) Validate_ok(2) [OF assms(2)], of i]
  show ?thesis
    unfolding superblock_Encode_def using assms(2-4)
    by (simp add: state_encode_eq superblock_bytes_def sealed_def Let_def not_le
        flip: superblock_body_def sum(1))
qed

lemma sealed_fields [simp]:
  "superblock_wf (sealed sb) = superblock_wf sb" "superblock_Validate (sealed sb) v = superblock_Validate sb v"
  "sb_Sequence (sealed sb) = sb_Sequence sb" "sb_ParentChecksum (sealed sb) = sb_ParentChecksum sb"
  "sb_State (sealed sb) = sb_State sb" "superblock_bytes (sealed sb) = superblock_bytes sb"
  "sb_Checksum (sealed sb) = superblock_checksum sb" "superblock_checksum (sealed sb) = superblock_checksum sb"
  by (simp_all add: sealed_def superblock_wf_def superblock_Validate_def validIdentity_def superblock_bytes_def
      superblock_body_def superblock_fields_def superblock_checksum_def fun_eq_iff)

lemma sealed_sealed [simp]: "sealed (sealed sb) = sealed sb"
  unfolding sealed_def [of "sealed sb"] sealed_fields(8) unfolding sealed_def by simp

lemma DecodeSuperblock_bytes:
  assumes "superblock_wf sb" "superblock_Validate sb v = Inr ()" "BlockBase (sv_Cluster v) = Some base"
  shows "DecodeSuperblock (superblock_bytes sb i) j v =
    Inr \<lparr>cand_Superblock = sealed sb, PhysicalIndex = j, MisdirectedIndex = i \<noteq> j\<rparr>"
proof -
  note ok = Validate_ok [OF assms(2)]
  note sl = superblock_bytes_slices [OF assms(1) ok(2), of i]
  have st: "decodeDurableReplicaState (state_bytes (sb_State sb)) v = Inr (sb_State sb)"
    using assms(1,3) ok(4) by (intro decode_state_bytes) (simp_all add: superblock_wf_def)
  let ?n = "unat (ViewHeaderCount sb)"
  have vh: "take ?n (ViewHeaders sb) @ replicate (16 - ?n) (replicate 256 0) = ViewHeaders sb"
    using assms(1) append_take_drop_id [of ?n "ViewHeaders sb"] by (simp add: superblock_wf_def)
  have sb: "\<lparr>sb_Checksum = superblock_checksum sb, sb_FormatVersion = sb_FormatVersion sb, sb_Release = sb_Release sb,
      sb_Sequence = sb_Sequence sb, sb_Group = sb_Group sb, sb_ParentChecksum = sb_ParentChecksum sb,
      sb_State = sb_State sb, ViewHeaderCount = ViewHeaderCount sb, ConfigurationChecksum = ConfigurationChecksum sb,
      sb_ProtocolVersion = sb_ProtocolVersion sb, ViewHeaders = ViewHeaders sb\<rparr> = sealed sb"
    by (cases sb) (simp add: sealed_def)
  have val: "superblock_Validate (sealed sb) v = Inr ()" using assms(2) by simp
  show ?thesis
    unfolding DecodeSuperblock_def Let_def sl(1,3-8,10-14) checksum_any_copy(2) [OF assms(1) ok(2)]
    using ok(1-3) sl(2,9,15,17) st vh sb val sl(16)
    by (simp add: codec_simps validIdentity_def bind_result_def not_less)
qed

section \<open>Counting and sorting candidates\<close>

definition cand_seq :: "SuperblockCandidate \<Rightarrow> u64" where
  "cand_seq c = sb_Sequence (cand_Superblock c)"

abbreviation votes :: "SuperblockCandidate list \<Rightarrow> u64 \<Rightarrow> nat" where
  "votes cs s \<equiv> length (filter (\<lambda>c. cand_seq c = s) cs)"

text \<open>
  The candidates with one sequence number carry the same superblock: what the copies that one
  store wrote look like.
\<close>

definition coherent :: "SuperblockCandidate list \<Rightarrow> bool" where
  "coherent cs \<longleftrightarrow> (\<forall>c \<in> set cs. \<forall>d \<in> set cs. cand_seq c = cand_seq d \<longrightarrow> cand_Superblock c = cand_Superblock d)"

text \<open>The values agree with a list of candidates: one value for each sequence number, with its count.\<close>

definition tally :: "SuperblockCandidate list \<Rightarrow> superblockLogicalValue list \<Rightarrow> bool" where
  "tally cs vs \<longleftrightarrow> distinct (map val_Sequence vs) \<and> val_Sequence ` set vs = cand_seq ` set cs
     \<and> (\<forall>v \<in> set vs. val_candidate v \<in> set cs \<and> unat (val_count v) = votes cs (val_Sequence v))"

definition bump :: "u64 \<Rightarrow> superblockLogicalValue \<Rightarrow> superblockLogicalValue" where
  "bump s v = (if val_Sequence v = s then v\<lparr>val_count := val_count v + 1\<rparr> else v)"

lemma bump_simps [simp]: "val_candidate (bump s v) = val_candidate v" "val_Sequence (bump s v) = val_Sequence v"
  "val_count (bump s v) = (if val_Sequence v = s then val_count v + 1 else val_count v)"
  by (simp_all add: bump_def val_Sequence_def)

lemma val_seq: "val_Sequence v = cand_seq (val_candidate v)"
  by (simp add: val_Sequence_def cand_seq_def)

lemma bump_other: "s \<notin> val_Sequence ` set vs \<Longrightarrow> map (bump s) vs = vs"
  by (induction vs) (auto simp: bump_def)

lemma count_candidate_eq:
  assumes "distinct (map val_Sequence vs)"
    "\<And>v. v \<in> set vs \<Longrightarrow> val_Sequence v = cand_seq c \<Longrightarrow> val_Superblock v = cand_Superblock c"
  shows "count_candidate vs c = Inr (if cand_seq c \<in> val_Sequence ` set vs then map (bump (cand_seq c)) vs
    else vs @ [\<lparr>val_candidate = c, val_count = 1\<rparr>])"
  using assms
proof (induction vs)
  case (Cons v vs)
  show ?case
  proof (cases "val_Sequence v = cand_seq c")
    case True
    then have "cand_seq c \<notin> val_Sequence ` set vs" using Cons.prems(1) by auto
    then have "map (bump (cand_seq c)) vs = vs" by (rule bump_other)
    then show ?thesis
      using True Cons.prems(2) [of v] by (simp add: bump_def val_seq) (simp add: cand_seq_def)
  next
    case False
    then have step: "count_candidate (v # vs) c = bind_result (count_candidate vs c) (\<lambda>vs. Inr (v # vs))"
      by (simp add: val_seq) (simp add: cand_seq_def)
    have b: "bump (cand_seq c) v = v" using False by (simp add: bump_def)
    have ih: "count_candidate vs c = Inr (if cand_seq c \<in> val_Sequence ` set vs then map (bump (cand_seq c)) vs
        else vs @ [\<lparr>val_candidate = c, val_count = 1\<rparr>])"
      using Cons.prems by (intro Cons.IH) simp_all
    have mem: "cand_seq c \<in> val_Sequence ` set (v # vs) \<longleftrightarrow> cand_seq c \<in> val_Sequence ` set vs"
      using False by auto
    show ?thesis
      unfolding step ih mem list.map(2) b by simp
  qed
qed simp

lemma coherentD: "coherent cs \<Longrightarrow> c \<in> set cs \<Longrightarrow> d \<in> set cs \<Longrightarrow> cand_seq c = cand_seq d \<Longrightarrow>
    cand_Superblock c = cand_Superblock d"
  unfolding coherent_def by blast

lemma coherent_mono: "coherent cs \<Longrightarrow> set ds \<subseteq> set cs \<Longrightarrow> coherent ds"
  unfolding coherent_def by blast

lemma votes_zero: "s \<notin> cand_seq ` set cs \<Longrightarrow> votes cs s = 0"
  by (induction cs) auto

lemma tally_step:
  assumes "tally cs vs" "coherent (cs @ [c])" "length cs < 255"
  shows "\<exists>vs'. count_candidate vs c = Inr vs' \<and> tally (cs @ [c]) vs'"
proof -
  let ?s = "cand_seq c"
  have t: "distinct (map val_Sequence vs)" "val_Sequence ` set vs = cand_seq ` set cs"
    "\<And>v. v \<in> set vs \<Longrightarrow> val_candidate v \<in> set cs" "\<And>v. v \<in> set vs \<Longrightarrow> unat (val_count v) = votes cs (val_Sequence v)"
    using assms(1) by (auto simp: tally_def)
  have eq: "count_candidate vs c = Inr (if ?s \<in> val_Sequence ` set vs then map (bump ?s) vs
      else vs @ [\<lparr>val_candidate = c, val_count = 1\<rparr>])"
  proof (rule count_candidate_eq [OF t(1)])
    fix v
    assume "v \<in> set vs" "val_Sequence v = ?s"
    then show "val_Superblock v = cand_Superblock c"
      using coherentD [OF assms(2), of "val_candidate v" c] t(3) by (simp add: val_seq)
  qed
  have inc: "unat (val_count v + 1) = unat (val_count v) + 1" if "v \<in> set vs" for v
  proof -
    have "votes cs (val_Sequence v) < 255" using assms(3) le_less_trans [OF length_filter_le] by blast
    then show ?thesis using t(4) [OF that] by (subst unat_add_noof) simp_all
  qed
  show ?thesis
  proof (cases "?s \<in> val_Sequence ` set vs")
    case True
    have seqs: "map val_Sequence (map (bump ?s) vs) = map val_Sequence vs" by simp
    have "tally (cs @ [c]) (map (bump ?s) vs)"
      unfolding tally_def
    proof (intro conjI ballI)
      show "val_Sequence ` set (map (bump ?s) vs) = cand_seq ` set (cs @ [c])"
        using t(2) True by (simp add: image_image insert_absorb)
      fix v'
      assume "v' \<in> set (map (bump ?s) vs)"
      then obtain v where v: "v \<in> set vs" "v' = bump ?s v" by auto
      show "val_candidate v' \<in> set (cs @ [c])" using t(3) v by simp
      show "unat (val_count v') = votes (cs @ [c]) (val_Sequence v')" using t(4) v inc [OF v(1)] by simp
    qed (simp only: seqs t(1))
    then show ?thesis using eq True by simp
  next
    case False
    then have none: "?s \<notin> cand_seq ` set cs" using t(2) by simp
    then have zero: "votes cs ?s = 0" by (rule votes_zero)
    have "tally (cs @ [c]) (vs @ [\<lparr>val_candidate = c, val_count = 1\<rparr>])"
      unfolding tally_def
    proof (intro conjI ballI)
      show "distinct (map val_Sequence (vs @ [\<lparr>val_candidate = c, val_count = 1\<rparr>]))"
        using t(1) False by (simp add: val_seq)
      show "val_Sequence ` set (vs @ [\<lparr>val_candidate = c, val_count = 1\<rparr>]) = cand_seq ` set (cs @ [c])"
        using t(2) by (simp add: val_seq)
      fix v
      assume "v \<in> set (vs @ [\<lparr>val_candidate = c, val_count = 1\<rparr>])"
      then consider (old) "v \<in> set vs" | (new) "v = \<lparr>val_candidate = c, val_count = 1\<rparr>" by auto
      then have "val_candidate v \<in> set (cs @ [c]) \<and> unat (val_count v) = votes (cs @ [c]) (val_Sequence v)"
      proof cases
        case old
        then have "val_Sequence v \<noteq> ?s" using False by (metis imageI)
        then show ?thesis using t(3,4) [OF old] by simp
      next
        case new
        then have "val_Sequence v = ?s" by (simp add: val_seq)
        then show ?thesis using new zero by simp
      qed
      then show "val_candidate v \<in> set (cs @ [c])" "unat (val_count v) = votes (cs @ [c]) (val_Sequence v)"
        by blast+
    qed
    then show ?thesis using eq False by simp
  qed
qed

lemma count_candidates_tally:
  "tally cs vs \<Longrightarrow> coherent (cs @ ds) \<Longrightarrow> length (cs @ ds) < 256 \<Longrightarrow>
     \<exists>vs'. count_candidates vs ds = Inr vs' \<and> tally (cs @ ds) vs'"
proof (induction ds arbitrary: cs vs)
  case (Cons d ds)
  have "coherent (cs @ [d])" using Cons.prems(2) by (rule coherent_mono) auto
  then obtain vs' where "count_candidate vs d = Inr vs'" "tally (cs @ [d]) vs'"
    using tally_step [of cs vs d] Cons.prems(1,3) by auto
  then show ?case using Cons.IH [of "cs @ [d]" vs'] Cons.prems(2,3) by simp
qed simp

lemma sweep_spec:
  "sweep v vs = (least, rest) \<Longrightarrow> mset (least # rest) = mset (v # vs)
     \<and> (\<forall>x \<in> set rest. val_Sequence least \<le> val_Sequence x)"
proof (induction v vs arbitrary: least rest rule: sweep.induct)
  case (2 left right vs)
  show ?case
  proof (cases "val_Sequence right < val_Sequence left")
    case True
    then obtain r where r: "sweep right vs = (least, r)" "rest = left # r"
      using 2(3) by (auto split: prod.splits)
    note ih = 2(1) [OF True r(1)]
    have "val_Sequence least \<le> val_Sequence right"
      using ih by (metis list.set_intros(1) order_refl set_ConsD set_mset_mset)
    then show ?thesis using ih True r(2) by auto
  next
    case False
    then obtain r where r: "sweep left vs = (least, r)" "rest = right # r"
      using 2(3) by (auto split: prod.splits)
    note ih = 2(2) [OF False r(1)]
    have "val_Sequence least \<le> val_Sequence left"
      using ih by (metis list.set_intros(1) order_refl set_ConsD set_mset_mset)
    then show ?thesis using ih False r(2) by auto
  qed
qed simp

lemma exchange_sort_spec:
  "mset (exchange_sort vs) = mset vs" "sorted (map val_Sequence (exchange_sort vs))"
proof (induction vs rule: exchange_sort.induct)
  case (2 v vs)
  obtain least rest where s: "sweep v vs = (least, rest)" by fastforce
  note spec = sweep_spec [OF s] and ih = 2 [OF s [symmetric] refl]
  {
    case 1
    show ?case using spec ih(1) by (simp add: s)
  next
    case 2
    have "set (exchange_sort rest) = set rest" using ih(1) by (metis set_mset_mset)
    then show ?case using spec ih(2) by (simp add: s)
  }
qed simp_all

lemma exchange_sort_strict:
  assumes "distinct (map val_Sequence vs)"
  shows "sorted_wrt (<) (map val_Sequence (exchange_sort vs))" "set (exchange_sort vs) = set vs"
proof -
  have "mset (map val_Sequence (exchange_sort vs)) = mset (map val_Sequence vs)"
    using exchange_sort_spec(1) [of vs] by (simp add: mset_map)
  then have "distinct (map val_Sequence (exchange_sort vs))" using assms mset_eq_imp_distinct_iff by blast
  then show "sorted_wrt (<) (map val_Sequence (exchange_sort vs))"
    using exchange_sort_spec(2) [of vs] by (simp add: strict_sorted_iff)
  show "set (exchange_sort vs) = set vs" using exchange_sort_spec(1) [of vs] by (metis set_mset_mset)
qed

lemma next_word: "(a :: u64) < b \<Longrightarrow> unat (a + 1) = unat a + 1"
  using unat_less64 [of b] by (subst unat_add_noof) (simp_all add: word_less_nat_alt)

text \<open>A sorted list without gaps whose neighbours are linked passes the chain check.\<close>

lemma chain_okI:
  assumes "sorted_wrt (<) (map val_Sequence vs)"
    and "\<And>v. v \<in> set vs \<Longrightarrow> \<exists>w \<in> set vs. val_Sequence v < val_Sequence w \<Longrightarrow> \<exists>w \<in> set vs. linked v w"
  shows "chain_ok vs"
  using assms
proof (induction vs rule: chain_ok.induct)
  case (1 x y vs)
  have xy: "val_Sequence x < val_Sequence y" and lt: "\<And>w. w \<in> set vs \<Longrightarrow> val_Sequence y < val_Sequence w"
    using 1(2) by simp_all
  have succ: "val_Sequence w = val_Sequence v + 1" if "linked v w" for v w using that by (simp add: linked_def)
  have above: "val_Sequence v < val_Sequence v + 1" if "val_Sequence v < val_Sequence w" for v w
    using next_word [OF that] by (simp add: word_less_nat_alt)
  obtain w where w: "w \<in> set (x # y # vs)" "linked x w" using 1(3) [of x] xy by auto
  have "w \<noteq> x" using succ [OF w(2)] above [OF xy] by auto
  moreover have "w \<notin> set vs"
    using succ [OF w(2)] lt [of w] xy next_word [OF xy] by (auto simp: word_less_nat_alt)
  ultimately have "w = y" using w(1) by simp
  moreover have "chain_ok (y # vs)"
  proof (rule 1(1))
    show "sorted_wrt (<) (map val_Sequence (y # vs))" using 1(2) by simp
    fix v
    assume v: "v \<in> set (y # vs)" "\<exists>w \<in> set (y # vs). val_Sequence v < val_Sequence w"
    then obtain w where w: "w \<in> set (x # y # vs)" "linked v w" using 1(3) [of v] by auto
    have "val_Sequence x < val_Sequence v" using v(1) xy lt [of v] by auto
    then have "w \<noteq> x" using succ [OF w(2)] above v(2) by (metis order.asym)
    then show "\<exists>w \<in> set (y # vs). linked v w" using w by auto
  qed
  ultimately show ?case using w(2) by simp
qed simp_all

lemma select_loop_none:
  "\<forall>v \<in> set vs. val_count v < requiredQuorum copies q v \<Longrightarrow> select_loop copies q vs s = s"
  by (induction vs arbitrary: s) simp_all

lemma select_loop_best:
  "sorted_wrt (<) (map val_Sequence vs) \<Longrightarrow> v \<in> set vs \<Longrightarrow> requiredQuorum copies q v \<le> val_count v \<Longrightarrow>
   \<forall>w \<in> set vs. val_Sequence v < val_Sequence w \<longrightarrow> val_count w < requiredQuorum copies q w \<Longrightarrow>
   (\<forall>s. selected = Some s \<longrightarrow> (\<forall>w \<in> set vs. val_Sequence s < val_Sequence w)) \<Longrightarrow>
   select_loop copies q vs selected = Some v"
proof (induction vs arbitrary: selected)
  case (Cons w vs)
  let ?s = "if val_count w < requiredQuorum copies q w then selected
        else case selected of None \<Rightarrow> Some w | Some s \<Rightarrow> if betterSuperblock w s then Some w else selected"
  show ?case
  proof (cases "w = v")
    case True
    have "val_count x < requiredQuorum copies q x" if "x \<in> set vs" for x
      using Cons.prems(1,4) that True by auto
    then have "select_loop copies q vs ?s = ?s" using select_loop_none by blast
    moreover have "?s = Some v"
      using Cons.prems(3,5) True by (auto simp: betterSuperblock_def val_Sequence_def split: option.splits)
    ultimately show ?thesis by simp
  next
    case False
    have sorted: "\<forall>x \<in> set vs. val_Sequence w < val_Sequence x" using Cons.prems(1) by simp
    have "\<forall>s. ?s = Some s \<longrightarrow> (\<forall>x \<in> set vs. val_Sequence s < val_Sequence x)"
      using Cons.prems(5) sorted by (auto split: option.splits)
    moreover have "sorted_wrt (<) (map val_Sequence vs)" "v \<in> set vs"
      "\<forall>x \<in> set vs. val_Sequence v < val_Sequence x \<longrightarrow> val_count x < requiredQuorum copies q x"
      using Cons.prems(1,2,4) False by simp_all
    ultimately have "select_loop copies q vs ?s = Some v" using Cons.IH Cons.prems(3) by blast
    then show ?thesis by simp
  qed
qed simp

text \<open>The superblocks of a run of one store: each is followed by the one that names it as parent.\<close>

definition follows :: "Superblock \<Rightarrow> Superblock \<Rightarrow> bool" where
  "follows previous current \<longleftrightarrow> sb_Sequence current = sb_Sequence previous + 1
     \<and> sb_ParentChecksum current = sb_Checksum previous
     \<and> \<not> durableStateRegressed (sb_State previous) (sb_State current)"

definition gapless :: "SuperblockCandidate list \<Rightarrow> bool" where
  "gapless cs \<longleftrightarrow> (\<forall>c \<in> set cs. (\<exists>d \<in> set cs. cand_seq c < cand_seq d) \<longrightarrow>
     (\<exists>d \<in> set cs. follows (cand_Superblock c) (cand_Superblock d)))"

definition quorum_for :: "u64 \<Rightarrow> u8 \<Rightarrow> Superblock \<Rightarrow> nat" where
  "quorum_for copies q sb =
     unat (if is_initial sb then (case superblockWriteCopies copies of Some n \<Rightarrow> n | None \<Rightarrow> 0) else q)"

lemma quorum_for_value: "unat (requiredQuorum copies q v) = quorum_for copies q (val_Superblock v)"
  by (simp add: requiredQuorum_def quorum_for_def)

lemma copies_le_8: "superblockOpenQuorum copies = Some q \<Longrightarrow> unat copies \<le> 8"
  by (auto simp: superblockOpenQuorum_def split: if_splits)

lemma values_of:
  assumes "coherent cs" "gapless cs" "length cs \<le> unat copies" "superblockOpenQuorum copies = Some q"
  obtains vs where "count_candidates [] cs = Inr vs" "tally cs (exchange_sort vs)" "chain_ok (exchange_sort vs)"
    "sorted_wrt (<) (map val_Sequence (exchange_sort vs))"
proof -
  have "tally [] []" by (simp add: tally_def)
  then obtain vs where vs: "count_candidates [] cs = Inr vs" "tally cs vs"
    using count_candidates_tally [of "[]" "[]" cs] assms(1,3) copies_le_8 [OF assms(4)] by auto
  have d: "distinct (map val_Sequence vs)" using vs(2) by (simp add: tally_def)
  note sorted = exchange_sort_strict [OF d]
  have d': "distinct (map val_Sequence (exchange_sort vs))"
    using sorted(1) strict_sorted_iff by blast
  have t: "tally cs (exchange_sort vs)" using vs(2) sorted(2) d' by (simp add: tally_def)
  have "chain_ok (exchange_sort vs)"
  proof (rule chain_okI [OF sorted(1)])
    fix v
    assume v: "v \<in> set (exchange_sort vs)" "\<exists>w \<in> set (exchange_sort vs). val_Sequence v < val_Sequence w"
    have mem: "val_candidate w \<in> set cs" if "w \<in> set (exchange_sort vs)" for w
      using t that by (simp add: tally_def)
    then obtain d where d: "d \<in> set cs" "follows (val_Superblock v) (cand_Superblock d)"
      using v assms(2) unfolding gapless_def val_seq by blast
    have "cand_seq d \<in> val_Sequence ` set (exchange_sort vs)" using t d(1) by (simp add: tally_def)
    then obtain w where w: "w \<in> set (exchange_sort vs)" "cand_seq d = val_Sequence w" by blast
    then have "val_Superblock w = cand_Superblock d"
      using coherentD [OF assms(1) mem [OF w(1)] d(1)] by (simp add: val_seq)
    then have "linked v w" using d(2) by (simp add: linked_def follows_def val_Sequence_def)
    then show "\<exists>w \<in> set (exchange_sort vs). linked v w" using w(1) by blast
  qed
  then show ?thesis using that vs(1) t sorted(1) by blast
qed

lemma SelectSuperblock_ok:
  assumes "coherent cs" "gapless cs" "length cs \<le> unat copies" "superblockOpenQuorum copies = Some q"
    and "c \<in> set cs" "quorum_for copies q (cand_Superblock c) \<le> votes cs (cand_seq c)"
    and "\<And>d. d \<in> set cs \<Longrightarrow> cand_seq c < cand_seq d \<Longrightarrow> votes cs (cand_seq d) < quorum_for copies q (cand_Superblock d)"
  shows "\<exists>c' \<in> set cs. SelectSuperblock cs copies = Inr c' \<and> cand_Superblock c' = cand_Superblock c"
proof -
  obtain vs where vs: "count_candidates [] cs = Inr vs" "tally cs (exchange_sort vs)" "chain_ok (exchange_sort vs)"
    "sorted_wrt (<) (map val_Sequence (exchange_sort vs))"
    using values_of [OF assms(1-4)] by blast
  let ?vs = "exchange_sort vs"
  have t: "\<And>v. v \<in> set ?vs \<Longrightarrow> val_candidate v \<in> set cs \<and> unat (val_count v) = votes cs (cand_seq (val_candidate v))"
    "val_Sequence ` set ?vs = cand_seq ` set cs"
    using vs(2) by (simp_all add: tally_def val_seq)
  have "cand_seq c \<in> val_Sequence ` set ?vs" using assms(5) t(2) by simp
  then obtain v where v: "v \<in> set ?vs" "cand_seq c = cand_seq (val_candidate v)" unfolding val_seq by blast
  have sb: "val_Superblock v = cand_Superblock c"
    using coherentD [OF assms(1), of "val_candidate v" c] t(1) [OF v(1)] assms(5) v(2) by simp
  have "select_loop copies q ?vs None = Some v"
  proof (rule select_loop_best [OF vs(4) v(1)])
    show "requiredQuorum copies q v \<le> val_count v"
      using assms(6) t(1) [OF v(1)] v(2) sb by (simp add: word_le_nat_alt quorum_for_value)
    show "\<forall>w \<in> set ?vs. val_Sequence v < val_Sequence w \<longrightarrow> val_count w < requiredQuorum copies q w"
      using assms(7) t(1) v(2) by (simp add: word_less_nat_alt [of "val_count _"] quorum_for_value val_seq)
  qed simp
  moreover have "cs \<noteq> []" using assms(5) by auto
  ultimately have "SelectSuperblock cs copies = Inr (val_candidate v)"
    using vs(1,3) assms(3,4) by (simp add: SelectSuperblock_def Let_def not_less)
  then show ?thesis using sb t(1) [OF v(1)] by auto
qed

section \<open>An example\<close>

definition example_header :: Header where
  "example_header = zeroHeader\<lparr>Size := 256, BodyChecksum := ChecksumBytes [], Command := CommandPrepare\<rparr>"

definition example_prepare :: bytes where
  "example_prepare = (case EncodeHeader (replicate 256 0) example_header of Inr (e, h) \<Rightarrow> e | Inl e \<Rightarrow> [])"

definition example_checkpoint :: "u64 \<Rightarrow> CheckpointState" where
  "example_checkpoint base = \<lparr>cs_Header = example_prepare, AcquiredTrailerLastChecksum = zeroID,
     ReleasedTrailerLastChecksum = zeroID, SessionTrailerLastChecksum = zeroID, OldestManifestChecksum = zeroID,
     NewestManifestChecksum = zeroID, SnapshotRootChecksum = zeroID, AcquiredAggregateChecksum = ChecksumBytes [],
     ReleasedAggregateChecksum = ChecksumBytes [], SessionAggregateChecksum = ChecksumBytes [], ParentID = zeroID,
     GrandparentID = zeroID, AcquiredTrailerLastAddress = 0, ReleasedTrailerLastAddress = 0,
     SessionTrailerLastAddress = 0, OldestManifestAddress = 0, NewestManifestAddress = 0, SnapshotRootAddress = 0,
     LogicalStorageSize = base, AcquiredTrailerEncodedSize = 0, ReleasedTrailerEncodedSize = 0,
     SessionTrailerEncodedSize = 0, ManifestBlockCount = 0, cs_Release = 1\<rparr>"

definition example_validation :: "u64 \<Rightarrow> SuperblockValidation" where
  "example_validation copies = \<lparr>sv_Group = zeroID, sv_Membership = \<lparr>Members = replicate MembersMax zeroID,
     mem_ActiveCount = 1, StandbyCount = 0, LocalMember = zeroID\<rparr>, sv_ConfigurationChecksum = zeroID,
     sv_Cluster = DefaultClusterConfig\<lparr>SuperblockCopies := copies\<rparr>\<rparr>"

definition example_superblock :: "u64 \<Rightarrow> u64 \<Rightarrow> Checksum \<Rightarrow> Superblock" where
  "example_superblock copies sequence parent = \<lparr>sb_Checksum = zeroID, sb_FormatVersion = FormatVersion, sb_Release = 1,
     sb_Sequence = sequence, sb_Group = zeroID, sb_ParentChecksum = parent,
     sb_State = \<lparr>ds_Checkpoint = example_checkpoint (the (BlockBase (sv_Cluster (example_validation copies)))),
       ds_LocalMember = zeroID, ds_Members = replicate MembersMax zeroID, ds_CommitMax = - 1, ds_SyncMin = 0,
       ds_SyncMax = 0, ds_LogView = 0, ds_View = 0, ds_ActiveCount = 1, ds_StandbyCount = 0\<rparr>,
     ViewHeaderCount = 0, ConfigurationChecksum = zeroID, sb_ProtocolVersion = ProtocolVersion,
     ViewHeaders = replicate 16 (replicate 256 0)\<rparr>"

lemma example_prepare_ok:
  "\<exists>h. DecodeHeader example_prepare zeroID 1048576 1 = (h, RejectNone) \<and> Command h = CommandPrepare"
  "length example_prepare = 256"
proof -
  have ok: "encodable example_header" "header_wf example_header"
    by (simp_all add: example_header_def encodable_def header_wf_def zeroHeader_def command_IsDefined_def)
  then obtain enc h where e: "EncodeHeader (replicate 256 0) example_header = Inr (enc, h)"
    using EncodeHeader_eq by (metis length_replicate)
  note dec = DecodeHeader_EncodeHeader [OF e ok(2), of 1048576 1]
  have "Size example_header \<le> 1048576" "Author example_header < 1" "Group example_header = zeroID"
    "Command example_header = CommandPrepare"
    by (simp_all add: example_header_def zeroHeader_def zeroID_def)
  moreover from this have "Command h = CommandPrepare" by (subst dec(3)) simp_all
  ultimately show "\<exists>h. DecodeHeader example_prepare zeroID 1048576 1 = (h, RejectNone) \<and> Command h = CommandPrepare"
    "length example_prepare = 256"
    using dec(1,2) e by (simp_all add: example_prepare_def)
qed

lemma example_base: "copies \<in> {4, 6, 8} \<Longrightarrow> \<exists>b. BlockBase (sv_Cluster (example_validation copies)) = Some b"
  by (auto simp: example_validation_def BlockBase_def DefaultClusterConfig_def checkedMul_def checkedAdd_def
      checkedAlignUp_def)

lemma example_superblock_ok:
  assumes "copies \<in> {4, 6, 8}" "sequence \<noteq> 0" "length parent = 16"
  shows "superblock_wf (example_superblock copies sequence parent)"
    "superblock_Validate (example_superblock copies sequence parent) (example_validation copies) = Inr ()"
proof -
  show "superblock_wf (example_superblock copies sequence parent)"
    using example_prepare_ok(2) assms(3)
    by (simp add: superblock_wf_def example_superblock_def state_wf_def checkpoint_wf_def example_checkpoint_def
        zeroID_def list_all_iff)
  obtain b where b: "BlockBase (sv_Cluster (example_validation copies)) = Some b" using example_base [OF assms(1)] by blast
  have "checkpoint_Validate (example_checkpoint b) (checkpoint_validation (example_validation copies) b) = Inr ()"
    using example_prepare_ok(1)
    by (auto simp: checkpoint_Validate_def checkpoint_validation_def example_validation_def DefaultClusterConfig_def
        example_checkpoint_def validEWAHTrailerReference_def validSessionTrailerReference_def checkedMul_def
        checkpoint_references_def validManifestReferences_def validOptionalReference_def Let_def)
  then show "superblock_Validate (example_superblock copies sequence parent) (example_validation copies) = Inr ()"
    unfolding superblock_Validate_def b Let_def using b assms(2)
    by (simp add: example_superblock_def validIdentity_def) (simp add: example_validation_def)
qed

section \<open>Properties\<close>

text \<open>
  C22: a superblock that passes validation can be encoded as any of its copies, and decoding the
  encoded copy at any place of the disk gives back the superblock with its checksum filled in,
  together with whether the copy was found where it belongs.
\<close>

theorem superblock_round_trip:
  assumes "superblock_wf sb" "superblock_Validate sb v = Inr ()" "BlockBase (sv_Cluster v) \<noteq> None"
    and "i < ucast (SuperblockCopies (sv_Cluster v))"
  shows "\<exists>data checksum. superblock_Encode sb (replicate 8192 0) i v = Inr (data, sb\<lparr>sb_Checksum := checksum\<rparr>)
    \<and> DecodeSuperblock data j v = Inr \<lparr>cand_Superblock = sb\<lparr>sb_Checksum := checksum\<rparr>,
        PhysicalIndex = j, MisdirectedIndex = i \<noteq> j\<rparr>"
proof -
  obtain b where "BlockBase (sv_Cluster v) = Some b" using assms(3) by auto
  then show ?thesis
    using superblock_Encode_ok [OF assms(1,2), of "replicate 8192 0" i] DecodeSuperblock_bytes [OF assms(1,2), of b i j] assms(4)
    unfolding sealed_def by auto
qed

theorem superblock_round_trip_witness:
  "\<exists>data sb. superblock_Encode (example_superblock 4 1 zeroID) (replicate 8192 0) 2 (example_validation 4) = Inr (data, sb)
    \<and> DecodeSuperblock data 2 (example_validation 4) = Inr \<lparr>cand_Superblock = sb, PhysicalIndex = 2, MisdirectedIndex = False\<rparr>"
proof -
  have "superblock_wf (example_superblock 4 1 zeroID)"
    "superblock_Validate (example_superblock 4 1 zeroID) (example_validation 4) = Inr ()"
    "BlockBase (sv_Cluster (example_validation 4)) \<noteq> None"
    using example_superblock_ok [of 4 1 zeroID] example_base [of 4] by (simp_all add: zeroID_def)
  moreover have "(2 :: u16) < ucast (SuperblockCopies (sv_Cluster (example_validation 4)))"
    by (simp add: example_validation_def DefaultClusterConfig_def)
  ultimately show ?thesis
    using superblock_round_trip [of "example_superblock 4 1 zeroID" "example_validation 4" 2 2] by auto
qed

text \<open>
  C15: among copies of which equal sequence numbers mean equal superblocks and each superblock is
  the parent of the next, opening selects the newest superblock that enough copies hold: half of
  the copies, or as many as formatting writes for the first superblock.
\<close>

theorem SelectSuperblock_newest:
  assumes "coherent cs" "gapless cs" "length cs \<le> unat copies" "superblockOpenQuorum copies = Some q"
    and "c \<in> set cs" "quorum_for copies q (cand_Superblock c) \<le> votes cs (cand_seq c)"
    and "\<And>d. d \<in> set cs \<Longrightarrow> cand_seq c < cand_seq d \<Longrightarrow> votes cs (cand_seq d) < quorum_for copies q (cand_Superblock d)"
  shows "\<exists>c' \<in> set cs. SelectSuperblock cs copies = Inr c' \<and> cand_Superblock c' = cand_Superblock c"
  using SelectSuperblock_ok [OF assms] .

theorem SelectSuperblock_newest_witness:
  "\<exists>c. SelectSuperblock (replicate 3 \<lparr>cand_Superblock = example_superblock 4 1 zeroID, PhysicalIndex = 0,
       MisdirectedIndex = False\<rparr>) 4 = Inr c \<and> cand_Superblock c = example_superblock 4 1 zeroID"
proof -
  let ?c = "\<lparr>cand_Superblock = example_superblock 4 1 zeroID, PhysicalIndex = 0, MisdirectedIndex = False\<rparr>"
  let ?cs = "replicate 3 ?c"
  have "coherent ?cs" "gapless ?cs" by (auto simp: coherent_def gapless_def)
  moreover have "quorum_for 4 2 (cand_Superblock ?c) \<le> votes ?cs (cand_seq ?c)"
    by (simp add: quorum_for_def superblockWriteCopies_def numeral_3_eq_3)
  moreover have "superblockOpenQuorum 4 = Some 2" by (simp add: superblockOpenQuorum_def)
  ultimately show ?thesis using SelectSuperblock_newest [of ?cs 4 2 ?c] by auto
qed

end
