(* ===== verification/Storage.thy ===== *)
theory Storage
  imports Config
begin

text \<open>
  The file-backed storage of \<^verbatim>\<open>replication/storage.go\<close>. The operating system is a parameter of the
  model: a \<open>Disk\<close> is the file's contents and size together with the outcomes of the calls to
  come. An outcome \<open>Fault e n\<close> makes the call fail with error \<open>e\<close>; a write that fails has
  transferred its first \<open>n\<close> bytes, so that torn writes and crashes in the middle of a sequence of
  writes are behaviours of the model. Calls beyond the listed outcomes succeed. The memory address
  of a buffer is not modelled: the buffers of the library come from \<^verbatim>\<open>NewAlignedBuffer\<close>, whose
  result is always aligned.
\<close>

datatype outcome = Pass | Fault err nat

record Disk =
  cells :: "nat \<Rightarrow> u8"
  disk_size :: nat
  outcomes :: "outcome list"

record FileStorage =
  fs_file :: "Disk option"
  fs_direct :: bool
  fs_closeErr :: "err option"

section \<open>The operating system\<close>

definition next_outcome :: "Disk \<Rightarrow> outcome \<times> Disk" where
  "next_outcome disk =
     (case outcomes disk of [] \<Rightarrow> (Pass, disk) | f # fs \<Rightarrow> (f, disk\<lparr>outcomes := fs\<rparr>))"

definition disk_read :: "Disk \<Rightarrow> nat \<Rightarrow> nat \<Rightarrow> bytes" where
  "disk_read disk n offset = map (\<lambda>i. cells disk (offset + i)) [0..<n]"

definition disk_write :: "Disk \<Rightarrow> bytes \<Rightarrow> nat \<Rightarrow> Disk" where
  "disk_write disk data offset =
     disk\<lparr>cells := (\<lambda>i. if offset \<le> i \<and> i < offset + length data then data ! (i - offset) else cells disk i),
          disk_size := (if data = [] then disk_size disk else max (disk_size disk) (offset + length data))\<rparr>"

definition disk_truncate :: "Disk \<Rightarrow> nat \<Rightarrow> Disk" where
  "disk_truncate disk n =
     disk\<lparr>cells := (\<lambda>i. if i < min n (disk_size disk) then cells disk i else 0), disk_size := n\<rparr>"

section \<open>Storage operations\<close>

definition validateIO :: "FileStorage \<Rightarrow> nat \<Rightarrow> u64 \<Rightarrow> err option" where
  "validateIO storage n offset =
     (if fs_file storage = None then Some ErrStorageClosed
      else if offset > MaxInt64 then Some ErrStorage
      else if \<not> fs_direct storage \<or> n = 0 then None
      else if offset mod SectorSize \<noteq> 0 \<or> n mod 4096 \<noteq> 0 then Some ErrStorageAlignment
      else None)"

text \<open>A read returns the bytes that the source copies into its buffer.\<close>

definition ReadAt :: "FileStorage \<Rightarrow> nat \<Rightarrow> u64 \<Rightarrow> FileStorage \<times> bytes result" where
  "ReadAt storage n offset =
     (case validateIO storage n offset of Some e \<Rightarrow> (storage, Inl e)
      | None \<Rightarrow>
        let disk = the (fs_file storage); (f, disk) = next_outcome disk; storage = storage\<lparr>fs_file := Some disk\<rparr>
        in case f of
             Fault e _ \<Rightarrow> (storage, Inl (ErrJoin ErrStorage e))
           | Pass \<Rightarrow> if unat offset + n > disk_size disk \<and> 0 < n then (storage, Inl ErrShortIO)
                     else (storage, Inr (disk_read disk n (unat offset))))"

definition WriteAt :: "FileStorage \<Rightarrow> bytes \<Rightarrow> u64 \<Rightarrow> FileStorage \<times> err option" where
  "WriteAt storage data offset =
     (case validateIO storage (length data) offset of Some e \<Rightarrow> (storage, Some e)
      | None \<Rightarrow>
        let disk = the (fs_file storage); (f, disk) = next_outcome disk
        in case f of
             Fault e n \<Rightarrow> (storage\<lparr>fs_file := Some (disk_write disk (take n data) (unat offset))\<rparr>,
                           Some (ErrJoin ErrStorage e))
           | Pass \<Rightarrow> (storage\<lparr>fs_file := Some (disk_write disk data (unat offset))\<rparr>, None))"

definition Sync :: "FileStorage \<Rightarrow> FileStorage \<times> err option" where
  "Sync storage =
     (case fs_file storage of None \<Rightarrow> (storage, Some ErrStorageClosed)
      | Some disk \<Rightarrow>
        let (f, disk) = next_outcome disk; storage = storage\<lparr>fs_file := Some disk\<rparr>
        in case f of Fault e _ \<Rightarrow> (storage, Some (ErrJoin ErrStorage e)) | Pass \<Rightarrow> (storage, None))"

text \<open>
  \<^verbatim>\<open>Resize\<close> preallocates and truncates; one outcome stands for the two system calls, and a failure
  leaves the file as it was.
\<close>

definition Resize :: "FileStorage \<Rightarrow> u64 \<Rightarrow> FileStorage \<times> err option" where
  "Resize storage newSize =
     (case fs_file storage of None \<Rightarrow> (storage, Some ErrStorageClosed)
      | Some disk \<Rightarrow>
        if newSize > MaxInt64 then (storage, Some ErrStorage)
        else let (f, disk) = next_outcome disk
        in case f of Fault e _ \<Rightarrow> (storage\<lparr>fs_file := Some disk\<rparr>, Some (ErrJoin ErrStorage e))
           | Pass \<Rightarrow> (storage\<lparr>fs_file := Some (disk_truncate disk (unat newSize))\<rparr>, None))"

definition storage_Size :: "FileStorage \<Rightarrow> FileStorage \<times> u64 result" where
  "storage_Size storage =
     (case fs_file storage of None \<Rightarrow> (storage, Inl ErrStorageClosed)
      | Some disk \<Rightarrow>
        let (f, disk) = next_outcome disk; storage = storage\<lparr>fs_file := Some disk\<rparr>
        in case f of Fault e _ \<Rightarrow> (storage, Inl (ErrJoin ErrStorage e))
           | Pass \<Rightarrow> (storage, Inr (of_nat (disk_size disk))))"

definition Close :: "FileStorage \<Rightarrow> FileStorage \<times> err option" where
  "Close storage =
     (let storage = (case fs_file storage of None \<Rightarrow> storage
        | Some disk \<Rightarrow> (case fst (next_outcome disk) of
              Fault e _ \<Rightarrow> storage\<lparr>fs_file := None, fs_closeErr := Some e\<rparr>
            | Pass \<Rightarrow> storage\<lparr>fs_file := None\<rparr>))
      in (storage, map_option (ErrJoin ErrStorage) (fs_closeErr storage)))"

section \<open>The interface\<close>

text \<open>
  What the stores of the library rely on: a successful write can be read back, a write changes
  nothing outside its range even when it fails, and reading and syncing change nothing.
\<close>

locale storage_api =
  fixes contents :: "'s \<Rightarrow> nat \<Rightarrow> nat \<Rightarrow> bytes"
    and readAt :: "'s \<Rightarrow> nat \<Rightarrow> u64 \<Rightarrow> 's \<times> bytes result"
    and writeAt :: "'s \<Rightarrow> bytes \<Rightarrow> u64 \<Rightarrow> 's \<times> err option"
    and sync :: "'s \<Rightarrow> 's \<times> err option"
  assumes write_same: "writeAt s data offset = (s', None) \<Longrightarrow> contents s' (length data) (unat offset) = data"
    and write_other: "writeAt s data offset = (s', r) \<Longrightarrow> a + n \<le> unat offset \<or> unat offset + length data \<le> a
      \<Longrightarrow> contents s' n a = contents s n a"
    and read_contents: "readAt s n offset = (s', Inr data) \<Longrightarrow> data = contents s n (unat offset)"
    and read_keeps: "readAt s n offset = (s', q) \<Longrightarrow> contents s' = contents s"
    and sync_keeps: "sync s = (s', r) \<Longrightarrow> contents s' = contents s"
begin

lemma write_sync_read:
  assumes "writeAt s data offset = (s1, None)" "sync s1 = (s2, r)" "readAt s2 (length data) offset = (s3, Inr data')"
  shows "data' = data"
  using write_same [OF assms(1)] sync_keeps [OF assms(2)] read_contents [OF assms(3)] by simp

text \<open>Writing one of several equal, adjacent regions leaves the others alone.\<close>

lemma write_region:
  assumes "writeAt s data offset = (s', r)" "unat offset = i * n" "length data = n" "j \<noteq> i"
  shows "contents s' n (j * n) = contents s n (j * n)"
proof -
  have "j * n + n \<le> i * n \<or> i * n + n \<le> j * n"
  proof (cases "j < i")
    case True
    then have "Suc j * n \<le> i * n" by (intro mult_le_mono) simp_all
    then show ?thesis by simp
  next
    case False
    then have "Suc i * n \<le> j * n" using assms(4) by (intro mult_le_mono) simp_all
    then show ?thesis by simp
  qed
  then show ?thesis using write_other [OF assms(1)] assms(2,3) by simp
qed

end

definition contents :: "FileStorage \<Rightarrow> nat \<Rightarrow> nat \<Rightarrow> bytes" where
  "contents storage n offset =
     (case fs_file storage of None \<Rightarrow> [] | Some disk \<Rightarrow> disk_read disk n offset)"

lemma next_outcome_cells: "next_outcome disk = (f, disk') \<Longrightarrow> cells disk' = cells disk \<and> disk_size disk' = disk_size disk"
  by (auto simp: next_outcome_def split: list.splits)

lemma disk_read_cells: "cells d = cells d' \<Longrightarrow> disk_read d n a = disk_read d' n a"
  by (simp add: disk_read_def)

lemma disk_write_same: "disk_read (disk_write d data a) (length data) a = data"
  by (auto simp: disk_read_def disk_write_def intro!: nth_equalityI)

lemma disk_write_other:
  "b + n \<le> a \<or> a + length data \<le> b \<Longrightarrow> disk_read (disk_write d data a) n b = disk_read d n b"
  by (auto simp: disk_read_def disk_write_def)

lemma WriteAt_cases:
  assumes "WriteAt s data offset = (s', r)"
  obtains (invalid) e where "s' = s" "r = Some e"
  | (fault) d d' e n where "fs_file s = Some d" "cells d' = cells d"
      "s' = s\<lparr>fs_file := Some (disk_write d' (take n data) (unat offset))\<rparr>" "r = Some (ErrJoin ErrStorage e)"
  | (pass) d d' where "fs_file s = Some d" "cells d' = cells d"
      "s' = s\<lparr>fs_file := Some (disk_write d' data (unat offset))\<rparr>" "r = None"
proof (cases "validateIO s (length data) offset")
  case None
  then obtain d where d: "fs_file s = Some d" by (auto simp: validateIO_def split: if_splits)
  obtain f d' where n: "next_outcome d = (f, d')" by fastforce
  note c = next_outcome_cells [OF n]
  show ?thesis
  proof (cases f)
    case Pass
    then show ?thesis using pass [OF d conjunct1 [OF c]] assms d n None by (simp add: WriteAt_def)
  next
    case (Fault e k)
    then show ?thesis using fault [OF d conjunct1 [OF c], of k e] assms d n None by (auto simp: WriteAt_def)
  qed
next
  case (Some e)
  then have "s' = s" "r = Some e" using assms by (simp_all add: WriteAt_def)
  then show ?thesis by (rule invalid)
qed

lemma contents_cells:
  "fs_file s = Some d \<Longrightarrow> cells d' = cells d \<Longrightarrow> contents (s\<lparr>fs_file := Some d'\<rparr>) = contents s"
  by (simp add: contents_def fun_eq_iff disk_read_def)

lemma Sync_contents: "Sync s = (s', r) \<Longrightarrow> contents s' = contents s"
proof (cases "fs_file s")
  case (Some d)
  obtain f d' where n: "next_outcome d = (f, d')" by fastforce
  assume "Sync s = (s', r)"
  then have "s' = s\<lparr>fs_file := Some d'\<rparr>" using Some n by (cases f) (simp_all add: Sync_def)
  then show ?thesis using contents_cells [OF Some] next_outcome_cells [OF n] by simp
qed (simp add: Sync_def)

lemma ReadAt_contents:
  assumes "ReadAt s n offset = (s', q)"
  shows "contents s' = contents s \<and> (\<forall>data. q = Inr data \<longrightarrow> data = contents s n (unat offset))"
proof (cases "validateIO s n offset")
  case None
  then obtain d where d: "fs_file s = Some d" by (auto simp: validateIO_def split: if_splits)
  obtain f d' where n: "next_outcome d = (f, d')" by fastforce
  have c: "cells d' = cells d" using next_outcome_cells [OF n] by simp
  have s': "s' = s\<lparr>fs_file := Some d'\<rparr>"
    using assms None d n by (cases f) (auto simp: ReadAt_def Let_def split: if_splits)
  have q: "q = Inr data \<Longrightarrow> data = disk_read d' n (unat offset)" for data
    using assms None d n by (cases f) (auto simp: ReadAt_def Let_def split: if_splits)
  have "contents s n (unat offset) = disk_read d' n (unat offset)"
    unfolding contents_def d using disk_read_cells [OF c] by simp
  then show ?thesis unfolding s' contents_cells [OF d c] using q by auto
qed (use assms in \<open>auto simp: ReadAt_def\<close>)

interpretation fs: storage_api contents ReadAt WriteAt Sync
proof
  fix s s' :: FileStorage and data data' :: bytes and offset :: u64 and r :: "err option" and n a :: nat
  show "contents s' (length data) (unat offset) = data" if "WriteAt s data offset = (s', None)"
    using that by (cases rule: WriteAt_cases) (simp_all add: contents_def disk_write_same)
  show "contents s' n a = contents s n a"
    if "WriteAt s data offset = (s', r)" "a + n \<le> unat offset \<or> unat offset + length data \<le> a"
    using that(1)
  proof (cases rule: WriteAt_cases)
    case (fault d d' e k)
    have "a + n \<le> unat offset \<or> unat offset + length (take k data) \<le> a" using that(2) by auto
    from disk_write_other [OF this] show ?thesis
      using fault(1,3) disk_read_cells [OF fault(2)] by (simp add: contents_def)
  next
    case (pass d d')
    from disk_write_other [OF that(2)] show ?thesis
      using pass(1,3) disk_read_cells [OF pass(2)] by (simp add: contents_def)
  qed simp
  show "contents s' = contents s" if "Sync s = (s', r)" using that by (rule Sync_contents)
  show "contents s' = contents s" if "ReadAt s n offset = (s', q)" for q using ReadAt_contents [OF that] by simp
  show "data = contents s n (unat offset)" if "ReadAt s n offset = (s', Inr data)"
    using ReadAt_contents [OF that] by simp
qed

end
