(* ===== verification/Io_Sequence.thy ===== *)
theory Io_Sequence
  imports Storage
begin

text \<open>
  The I/O sequence of \<^verbatim>\<open>replication/io_control.go\<close>: the resumable state of one storage operation,
  whose physical effects are performed one at a time. The storage it points to is passed and
  returned explicitly.
\<close>

datatype IOPhase =
  IOPhaseNone | IOPhaseQueued | IOPhaseRead | IOPhaseWrite | IOPhaseSync | IOPhaseResize | IOPhaseCompletion

record ioSequence =
  seq_phase :: IOPhase
  seq_buffer :: bytes
  seq_offset :: u64
  seq_size :: u64
  seq_step :: u8
  seq_index :: u64
  seq_generation :: u64
  seq_checksum :: Checksum

definition zeroSequence :: ioSequence where
  "zeroSequence = \<lparr>seq_phase = IOPhaseNone, seq_buffer = [], seq_offset = 0, seq_size = 0, seq_step = 0,
     seq_index = 0, seq_generation = 0, seq_checksum = replicate 16 0\<rparr>"

text \<open>A read fills the buffer of the sequence.\<close>

definition physical :: "FileStorage \<Rightarrow> ioSequence \<Rightarrow> FileStorage \<times> ioSequence \<times> err option" where
  "physical storage s =
     (case seq_phase s of
        IOPhaseRead \<Rightarrow>
          (case ReadAt storage (length (seq_buffer s)) (seq_offset s) of
             (storage, Inl e) \<Rightarrow> (storage, s, Some e)
           | (storage, Inr data) \<Rightarrow> (storage, s\<lparr>seq_buffer := data\<rparr>, None))
      | IOPhaseWrite \<Rightarrow> (let (storage, e) = WriteAt storage (seq_buffer s) (seq_offset s) in (storage, s, e))
      | IOPhaseSync \<Rightarrow> (let (storage, e) = Sync storage in (storage, s, e))
      | IOPhaseResize \<Rightarrow> (let (storage, e) = Resize storage (seq_size s) in (storage, s, e))
      | _ \<Rightarrow> (storage, s, Some ErrIOHandle))"

definition syncNext :: "ioSequence \<Rightarrow> ioSequence" where
  "syncNext s = s\<lparr>seq_phase := IOPhaseSync, seq_buffer := [], seq_size := 0\<rparr>"

end
