(* ===== verification/Superblock_Store.thy ===== *)
theory Superblock_Store
  imports Superblock Io_Sequence
begin

text \<open>
  The superblock store of \<^verbatim>\<open>replication/superblock_store.go\<close>: opening and repairing the copies, and
  writing a new superblock to a rotating majority of them, one copy and one sync at a time. The
  mutex is not modelled; the operations are the atomic steps it makes them.
\<close>

record SuperblockStore =
  ss_storage :: FileStorage
  ss_validation :: SuperblockValidation
  ss_current :: SuperblockCandidate
  ss_ioActive :: bool

fun err_is :: "err \<Rightarrow> err \<Rightarrow> bool" where
  "err_is (ErrJoin a b) target \<longleftrightarrow> err_is a target \<or> err_is b target"
| "err_is e target \<longleftrightarrow> e = target"

section \<open>Persisting\<close>

text \<open>
  Encoding a copy sets the checksum of the superblock that is written, so the superblock is
  returned together with the sequence.
\<close>

definition prepareCopy :: "SuperblockStore \<Rightarrow> ioSequence \<Rightarrow> Superblock \<Rightarrow> (ioSequence \<times> Superblock) result" where
  "prepareCopy store s sb =
     (let physicalIndex = ucast ((seq_index s + ucast (seq_step s)) mod SuperblockCopies (sv_Cluster (ss_validation store))) :: u16
      in bind_result (superblock_Encode sb (replicate 8192 0) physicalIndex (ss_validation store)) (\<lambda>(data, sb).
           Inr (s\<lparr>seq_phase := IOPhaseWrite, seq_buffer := data,
                  seq_offset := ucast physicalIndex * SuperblockBytes, seq_size := SuperblockBytes\<rparr>, sb)))"

definition beginPersist :: "SuperblockStore \<Rightarrow> Superblock \<Rightarrow> (SuperblockStore \<times> ioSequence \<times> Superblock) result" where
  "beginPersist store sb =
     (if ss_ioActive store then Inl ErrIOBackpressure
      else let current = cand_Superblock (ss_current store); v = ss_validation store
      in if sb_Sequence sb \<noteq> sb_Sequence current + 1 \<or> sb_ParentChecksum sb \<noteq> sb_Checksum current
         \<or> durableStateRegressed (sb_State current) (sb_State sb) then Inl ErrInvalidSuperblock
      else bind_result (superblock_Validate sb v) (\<lambda>_.
        if superblockWriteCopies (SuperblockCopies (sv_Cluster v)) = None then Inl ErrInvalidSuperblock
        else bind_result
          (prepareCopy store (zeroSequence\<lparr>seq_index := sb_Sequence sb mod SuperblockCopies (sv_Cluster v)\<rparr>) sb)
          (\<lambda>(s, sb). Inr (store\<lparr>ss_ioActive := True\<rparr>, s, sb))))"

definition advancePersist :: "SuperblockStore \<Rightarrow> ioSequence \<Rightarrow> Superblock
    \<Rightarrow> SuperblockStore \<times> ioSequence \<times> Superblock \<times> err option" where
  "advancePersist store s sb =
     (let (storage, s, e) = physical (ss_storage store) s; store = store\<lparr>ss_storage := storage\<rparr>
      in case e of
        Some e \<Rightarrow> (store, s, sb, Some (if seq_phase s = IOPhaseWrite then ErrJoin ErrStorage e else e))
      | None \<Rightarrow>
        if seq_phase s = IOPhaseWrite then (store, syncNext s, sb, None)
        else let s = s\<lparr>seq_step := seq_step s + 1\<rparr>;
                 writeCopies = (case superblockWriteCopies (SuperblockCopies (sv_Cluster (ss_validation store)))
                                of Some n \<Rightarrow> n | None \<Rightarrow> 0)
        in if seq_step s < writeCopies
           then (case prepareCopy store s sb of
                   Inl e \<Rightarrow> (store, s, sb, Some e) | Inr (s, sb) \<Rightarrow> (store, s, sb, None))
           else (store\<lparr>ss_current := \<lparr>cand_Superblock = sb, PhysicalIndex = ucast (seq_index s),
                   MisdirectedIndex = False\<rparr>\<rparr>, s\<lparr>seq_phase := IOPhaseCompletion\<rparr>, sb, None))"

text \<open>
  The loop of \<^verbatim>\<open>Persist\<close> with a bound on the number of rounds; \<open>None\<close> means that the bound was too
  small. The caller's superblock is a copy, so only the store and the error are returned.
\<close>

fun persist_loop :: "nat \<Rightarrow> SuperblockStore \<Rightarrow> ioSequence \<Rightarrow> Superblock \<Rightarrow> (SuperblockStore \<times> err option) option" where
  "persist_loop fuel store s sb =
     (if seq_phase s = IOPhaseCompletion then Some (store, None)
      else case fuel of 0 \<Rightarrow> None
      | Suc fuel \<Rightarrow>
        (let (store, s, sb, e) = advancePersist store s sb
         in if e \<noteq> None then Some (store, e) else persist_loop fuel store s sb))"

declare persist_loop.simps [simp del]

definition Persist :: "SuperblockStore \<Rightarrow> Superblock \<Rightarrow> (SuperblockStore \<times> err option) option" where
  "Persist store sb =
     (case beginPersist store sb of
        Inl e \<Rightarrow> Some (store, Some e)
      | Inr (store, s, sb) \<Rightarrow>
          map_option (\<lambda>(store, e). (store\<lparr>ss_ioActive := False\<rparr>, e)) (persist_loop 10 store s sb))"

section \<open>Opening\<close>

record OpenScan =
  scan_candidates :: "SuperblockCandidate list"
  scan_physical :: "SuperblockCandidate option list"
  scan_allZero :: bool
  scan_reads :: nat
  scan_error :: "err option"
  scan_incompatible :: nat

fun scan_copies :: "FileStorage \<Rightarrow> SuperblockValidation \<Rightarrow> nat list \<Rightarrow> OpenScan \<Rightarrow> FileStorage \<times> OpenScan" where
  "scan_copies storage v [] scan = (storage, scan)"
| "scan_copies storage v (index # rest) scan =
     (case ReadAt storage 8192 (of_nat index * SuperblockBytes) of
        (storage, Inl e) \<Rightarrow>
          scan_copies storage v rest (scan\<lparr>scan_physical := scan_physical scan @ [None],
            scan_error := (if scan_error scan = None then Some e else scan_error scan)\<rparr>)
      | (storage, Inr data) \<Rightarrow>
          let scan = scan\<lparr>scan_reads := scan_reads scan + 1, scan_allZero := scan_allZero scan \<and> allZero data\<rparr>
          in case DecodeSuperblock data (of_nat index) v of
            Inl e \<Rightarrow> scan_copies storage v rest (scan\<lparr>scan_physical := scan_physical scan @ [None],
              scan_incompatible := (if err_is e ErrIncompatibleConfiguration then scan_incompatible scan + 1
                                    else scan_incompatible scan)\<rparr>)
          | Inr candidate \<Rightarrow> scan_copies storage v rest (scan\<lparr>scan_candidates := scan_candidates scan @ [candidate],
              scan_physical := scan_physical scan @ [Some candidate]\<rparr>))"

fun repair_loop :: "FileStorage \<Rightarrow> SuperblockValidation \<Rightarrow> Superblock \<Rightarrow> SuperblockCandidate option list \<Rightarrow> nat
    \<Rightarrow> FileStorage \<times> err option" where
  "repair_loop storage v selected [] index = (storage, None)"
| "repair_loop storage v selected (p # ps) index =
     (if (case p of Some candidate \<Rightarrow> \<not> MisdirectedIndex candidate
             \<and> sb_Checksum (cand_Superblock candidate) = sb_Checksum selected | None \<Rightarrow> False)
      then repair_loop storage v selected ps (index + 1)
      else case superblock_Encode selected (replicate 8192 0) (of_nat index) v of
        Inl e \<Rightarrow> (storage, Some e)
      | Inr (data, selected) \<Rightarrow>
        (case WriteAt storage data (of_nat index * SuperblockBytes) of
           (storage, Some e) \<Rightarrow> (storage, Some (ErrJoin ErrStorage e))
         | (storage, None) \<Rightarrow>
           (case Sync storage of (storage, Some e) \<Rightarrow> (storage, Some e)
            | (storage, None) \<Rightarrow> repair_loop storage v selected ps (index + 1))))"

definition repairCopies :: "SuperblockStore \<Rightarrow> SuperblockCandidate option list \<Rightarrow> SuperblockStore \<times> err option" where
  "repairCopies store byPhysical =
     (let (storage, e) = repair_loop (ss_storage store) (ss_validation store)
            (cand_Superblock (ss_current store)) byPhysical 0
      in (store\<lparr>ss_storage := storage\<rparr>, e))"

text \<open>
  The availability of the hardware checksum and the optional callback are parameters; the test for
  more than one callback has no counterpart.
\<close>

definition OpenSuperblockStore :: "bool \<Rightarrow> (Superblock \<Rightarrow> err option) option \<Rightarrow> FileStorage \<Rightarrow> SuperblockValidation
    \<Rightarrow> FileStorage \<times> SuperblockStore result" where
  "OpenSuperblockStore hardware beforeRepair storage v =
     (if \<not> hardware then (storage, Inl ErrHardwareChecksumUnavailable)
      else case BlockBase (sv_Cluster v) of None \<Rightarrow> (storage, Inl ErrInvalidConfiguration)
      | Some minimumSize \<Rightarrow>
        (case storage_Size storage of
           (storage, Inl e) \<Rightarrow> (storage, Inl e)
         | (storage, Inr n) \<Rightarrow>
           if n = 0 then (storage, Inl ErrUnformatted)
           else if n < minimumSize \<or> (n - minimumSize) mod BlockSize (sv_Cluster v) \<noteq> 0 then (storage, Inl ErrCorrupt)
           else let copies = unat (SuperblockCopies (sv_Cluster v));
                    (storage, scan) = scan_copies storage v [0..<copies]
                      \<lparr>scan_candidates = [], scan_physical = [], scan_allZero = True, scan_reads = 0,
                       scan_error = None, scan_incompatible = 0\<rparr>
           in if scan_candidates scan = []
           then (storage, Inl
             (if scan_reads scan = 0 \<and> scan_error scan \<noteq> None then ErrJoin ErrStorage (the (scan_error scan))
              else if scan_allZero scan then ErrUnformatted
              else if scan_incompatible scan \<ge> (case superblockOpenQuorum (SuperblockCopies (sv_Cluster v)) of
                     Some q \<Rightarrow> unat q | None \<Rightarrow> 0) then ErrIncompatibleConfiguration
              else ErrCorrupt))
           else case SelectSuperblock (scan_candidates scan) (SuperblockCopies (sv_Cluster v)) of
             Inl e \<Rightarrow> (storage, Inl (ErrJoin (if err_is e ErrSuperblockInitializationIncomplete then ErrUnformatted
                                              else ErrCorrupt) e))
           | Inr selected \<Rightarrow>
             (case (case beforeRepair of None \<Rightarrow> None | Some f \<Rightarrow> f (cand_Superblock selected)) of
                Some e \<Rightarrow> (storage, Inl e)
              | None \<Rightarrow>
                (case repairCopies \<lparr>ss_storage = storage, ss_validation = v, ss_current = selected, ss_ioActive = False\<rparr>
                        (scan_physical scan) of
                   (store, Some e) \<Rightarrow> (ss_storage store, Inl e)
                 | (store, None) \<Rightarrow> (ss_storage store, Inr store)))))"

section \<open>The copies on disk\<close>

abbreviation copies_of :: "SuperblockValidation \<Rightarrow> nat" where
  "copies_of v \<equiv> unat (SuperblockCopies (sv_Cluster v))"

definition disk_copy :: "FileStorage \<Rightarrow> nat \<Rightarrow> bytes" where
  "disk_copy storage p = contents storage 8192 (p * 8192)"

definition write_count :: "SuperblockValidation \<Rightarrow> nat" where
  "write_count v = (case superblockWriteCopies (SuperblockCopies (sv_Cluster v)) of Some w \<Rightarrow> unat w | None \<Rightarrow> 0)"

lemma write_copies_cases:
  assumes "superblockWriteCopies copies = Some w"
  shows "copies = 4 \<and> w = 3 \<or> copies = 6 \<and> w = 4 \<or> copies = 8 \<and> w = 5"
  using assms by (auto simp: superblockWriteCopies_def split: if_splits)

lemma write_count_bounds:
  assumes "superblockWriteCopies (SuperblockCopies (sv_Cluster v)) = Some w"
  shows "copies_of v \<le> 8" "0 < copies_of v" "write_count v = unat w" "unat w < copies_of v" "3 \<le> unat w" "unat w \<le> 5"
  using write_copies_cases [OF assms] assms by (auto simp: write_count_def)

definition slot :: "SuperblockValidation \<Rightarrow> Superblock \<Rightarrow> nat \<Rightarrow> nat" where
  "slot v sb i = (unat (sb_Sequence sb) + i) mod copies_of v"

lemma slot_inj:
  assumes "i < copies_of v" "j < copies_of v" "slot v sb i = slot v sb j"
  shows "i = j"
proof -
  have *: "a = b" if "a \<le> b" "b < copies_of v" "slot v sb a = slot v sb b" for a b
  proof -
    have "copies_of v dvd b - a"
      using that(3) mod_eq_dvd_iff_nat [of "unat (sb_Sequence sb) + a" "unat (sb_Sequence sb) + b" "copies_of v"] that(1)
      by (simp add: slot_def)
    then show ?thesis using that(1,2) nat_dvd_not_less [of "b - a" "copies_of v"] by fastforce
  qed
  show ?thesis using *[of i j] *[of j i] assms by (cases "i \<le> j") auto
qed

lemma small_words:
  fixes a m :: u64 and b :: u8
  assumes "unat m \<le> 8" "0 < unat m" "a < m" "unat b < 8"
  defines "p \<equiv> (unat a + unat b) mod unat m"
  shows "(ucast ((a + ucast b) mod m) :: u16) = of_nat p" "(ucast (ucast ((a + ucast b) mod m) :: u16) :: u64) * 8192 = of_nat (p * 8192)"
    "p < unat m" "unat (of_nat (p * 8192) :: u64) = p * 8192" "(of_nat p :: u16) < ucast m"
proof -
  show lt: "p < unat m" using assms(2) by (simp add: p_def)
  then have p8: "p < 8" using assms(1) by simp
  have ub: "unat (ucast b :: u64) = unat b"
    using assms(4) by (simp add: unsigned_ucast_eq take_bit_nat_eq_self)
  have ab: "unat (a + ucast b) = unat a + unat b"
    using assms(1,3,4) by (subst unat_add_noof) (simp_all add: word_less_nat_alt ub)
  have "unat ((a + ucast b) mod m) = p" by (simp add: unat_mod ab p_def)
  then have w: "(a + ucast b) mod m = of_nat p" by (metis of_nat_unat ucast_id)
  have u16: "unat (of_nat p :: u16) = p" "unat (of_nat p :: u64) = p"
    using p8 by (simp_all add: unsigned_of_nat take_bit_nat_eq_self)
  have "unat (ucast (of_nat p :: u64) :: u16) = p"
    using p8 by (simp add: unsigned_ucast_eq unsigned_of_nat take_bit_nat_eq_self)
  then show c: "(ucast ((a + ucast b) mod m) :: u16) = of_nat p" unfolding w by (simp add: word_unat_eq_iff u16)
  have "unat (ucast (of_nat p :: u16) :: u64) = p"
    using p8 by (simp add: unsigned_ucast_eq unsigned_of_nat take_bit_nat_eq_self)
  then have "(ucast (of_nat p :: u16) :: u64) = of_nat p" by (simp add: word_unat_eq_iff u16)
  then show "(ucast (ucast ((a + ucast b) mod m) :: u16) :: u64) * 8192 = of_nat (p * 8192)" unfolding c by simp
  show "unat (of_nat (p * 8192) :: u64) = p * 8192" using p8 by (intro unat_of_nat64) simp
  have "unat (ucast m :: u16) = unat m"
    using assms(1) by (simp add: unsigned_ucast_eq take_bit_nat_eq_self)
  then show "(of_nat p :: u16) < ucast m" using lt by (simp add: word_less_nat_alt u16)
qed

text \<open>The sequence while copy \<open>i\<close> is being written, and while it is being synced.\<close>

definition writing :: "SuperblockValidation \<Rightarrow> Superblock \<Rightarrow> nat \<Rightarrow> ioSequence \<Rightarrow> bool" where
  "writing v sb i s \<longleftrightarrow> seq_phase s = IOPhaseWrite \<and> seq_buffer s = superblock_bytes sb (of_nat (slot v sb i))
     \<and> seq_offset s = of_nat (slot v sb i * 8192) \<and> unat (seq_step s) = i
     \<and> seq_index s = sb_Sequence sb mod SuperblockCopies (sv_Cluster v)"

definition syncing :: "SuperblockValidation \<Rightarrow> Superblock \<Rightarrow> nat \<Rightarrow> ioSequence \<Rightarrow> bool" where
  "syncing v sb i s \<longleftrightarrow> seq_phase s = IOPhaseSync \<and> unat (seq_step s) = i
     \<and> seq_index s = sb_Sequence sb mod SuperblockCopies (sv_Cluster v)"

text \<open>A superblock the store may write.\<close>

definition writable :: "SuperblockValidation \<Rightarrow> Superblock \<Rightarrow> bool" where
  "writable v sb \<longleftrightarrow> superblock_wf sb \<and> superblock_Validate sb v = Inr ()
     \<and> superblockWriteCopies (SuperblockCopies (sv_Cluster v)) \<noteq> None"

lemma prepareCopy_ok:
  assumes "writable v sb" "ss_validation store = v" "unat (seq_step s) < 8"
    "seq_index s = sb_Sequence sb mod SuperblockCopies (sv_Cluster v)"
  shows "\<exists>s'. prepareCopy store s sb = Inr (s', sealed sb) \<and> writing v sb (unat (seq_step s)) s'"
proof -
  let ?m = "SuperblockCopies (sv_Cluster v)"
  obtain w where w: "superblockWriteCopies ?m = Some w" using assms(1) by (auto simp: writable_def)
  note b = write_count_bounds [OF w]
  have lt: "seq_index s < ?m" using assms(4) b(2) by (simp add: word_less_nat_alt unat_mod)
  note sw = small_words [OF b(1,2) lt assms(3)]
  have p: "(unat (seq_index s) + unat (seq_step s)) mod copies_of v = slot v sb (unat (seq_step s))"
    by (simp add: assms(4) slot_def unat_mod mod_simps)
  have "superblock_Encode sb (replicate 8192 0) (of_nat (slot v sb (unat (seq_step s)))) v
      = Inr (superblock_bytes sb (of_nat (slot v sb (unat (seq_step s)))), sealed sb)"
    using assms(1) sw(5) unfolding p by (intro superblock_Encode_ok) (simp_all add: writable_def)
  then show ?thesis
    using sw(1,2) assms(4) unfolding p prepareCopy_def assms(2) by (simp add: writing_def)
qed

lemma slot_sealed [simp]: "slot v (sealed sb) i = slot v sb i"
  by (simp add: slot_def)

lemma seals [simp]: "writing v (sealed sb) i s = writing v sb i s" "syncing v (sealed sb) i s = syncing v sb i s"
  "writable v (sealed sb) = writable v sb"
  by (simp_all add: writing_def syncing_def writable_def)

lemma advance_write:
  assumes "writing v sb i s" "writable v sb" "advancePersist store s sb = (store', s', sb', e)"
  shows "ss_current store' = ss_current store" "ss_validation store' = ss_validation store"
    "\<And>p. p \<noteq> slot v sb i \<Longrightarrow> disk_copy (ss_storage store') p = disk_copy (ss_storage store) p"
    "e = None \<Longrightarrow> syncing v sb i s' \<and> sb' = sb
       \<and> disk_copy (ss_storage store') (slot v sb i) = superblock_bytes sb (of_nat (slot v sb i))"
proof -
  obtain w where w: "superblockWriteCopies (SuperblockCopies (sv_Cluster v)) = Some w"
    using assms(2) by (auto simp: writable_def)
  note b = write_count_bounds [OF w]
  have "slot v sb i < 8" using b(1,2) by (simp add: slot_def) (meson mod_less_divisor order_less_le_trans)
  then have off: "unat (of_nat (slot v sb i * 8192) :: u64) = slot v sb i * 8192" by (intro unat_of_nat64) simp
  have s: "seq_phase s = IOPhaseWrite" "seq_buffer s = superblock_bytes sb (of_nat (slot v sb i))"
    "seq_offset s = of_nat (slot v sb i * 8192)"
    using assms(1) by (simp_all add: writing_def)
  obtain st r where wr: "WriteAt (ss_storage store) (superblock_bytes sb (of_nat (slot v sb i))) (of_nat (slot v sb i * 8192)) = (st, r)"
    by fastforce
  have st': "ss_storage store' = st" "e = None \<longleftrightarrow> r = None"
    "e = None \<Longrightarrow> s' = syncNext s \<and> sb' = sb"
    and "ss_current store' = ss_current store" "ss_validation store' = ss_validation store"
    using assms(3) s wr by (auto simp: advancePersist_def physical_def Let_def split: option.splits if_splits)
  then show "ss_current store' = ss_current store" "ss_validation store' = ss_validation store" by simp_all
  show "disk_copy (ss_storage store') p = disk_copy (ss_storage store) p" if "p \<noteq> slot v sb i" for p
    unfolding disk_copy_def st'(1) by (rule fs.write_region [OF wr off]) (simp_all add: that)
  show "syncing v sb i s' \<and> sb' = sb \<and> disk_copy (ss_storage store') (slot v sb i) = superblock_bytes sb (of_nat (slot v sb i))"
    if "e = None"
  proof -
    have "contents st (length (superblock_bytes sb (of_nat (slot v sb i)))) (unat (of_nat (slot v sb i * 8192) :: u64))
        = superblock_bytes sb (of_nat (slot v sb i))"
      using wr st'(2) that by (intro fs.write_same) simp
    then have "disk_copy (ss_storage store') (slot v sb i) = superblock_bytes sb (of_nat (slot v sb i))"
      unfolding off st'(1) by (simp add: disk_copy_def)
    then show ?thesis using st'(3) that assms(1) by (simp add: syncing_def writing_def syncNext_def)
  qed
qed

lemma advance_sync:
  assumes "syncing v sb i s" "writable v sb" "ss_validation store = v" "i < write_count v"
    "advancePersist store s sb = (store', s', sb', e)"
  shows "disk_copy (ss_storage store') = disk_copy (ss_storage store)" "ss_validation store' = v"
    "e \<noteq> None \<Longrightarrow> ss_current store' = ss_current store"
    "e = None \<Longrightarrow> i + 1 < write_count v \<Longrightarrow> writing v sb (i + 1) s' \<and> sb' = sealed sb \<and> ss_current store' = ss_current store"
    "e = None \<Longrightarrow> i + 1 = write_count v \<Longrightarrow> seq_phase s' = IOPhaseCompletion \<and> sb' = sb
       \<and> cand_Superblock (ss_current store') = sb"
proof -
  obtain w where w: "superblockWriteCopies (SuperblockCopies (sv_Cluster v)) = Some w"
    using assms(2) by (auto simp: writable_def)
  note b = write_count_bounds [OF w]
  have step: "unat (seq_step s + 1) = i + 1"
    using assms(1,4) b(3,6) by (subst unat_add_noof) (simp_all add: syncing_def)
  have lt: "seq_step s + 1 < w \<longleftrightarrow> i + 1 < write_count v" by (simp add: word_less_nat_alt step b(3))
  obtain st r where sy: "Sync (ss_storage store) = (st, r)" by fastforce
  have ph: "physical (ss_storage store) s = (st, s, r)" using assms(1) sy by (simp add: physical_def syncing_def)
  let ?s = "s\<lparr>seq_step := seq_step s + 1\<rparr>" and ?store = "store\<lparr>ss_storage := st\<rparr>"
  obtain s1 where prep: "prepareCopy ?store ?s sb = Inr (s1, sealed sb)" "writing v sb (i + 1) s1"
    using prepareCopy_ok [OF assms(2), of ?store ?s] assms(1,3,4) step b(3,6) by (auto simp: syncing_def)
  have phase: "seq_phase s = IOPhaseSync" using assms(1) by (simp add: syncing_def)
  have adv: "advancePersist store s sb = (case r of Some e \<Rightarrow> (?store, s, sb, Some e)
      | None \<Rightarrow> if i + 1 < write_count v then (?store, s1, sealed sb, None)
          else (?store\<lparr>ss_current := \<lparr>cand_Superblock = sb, PhysicalIndex = ucast (seq_index s), MisdirectedIndex = False\<rparr>\<rparr>,
            ?s\<lparr>seq_phase := IOPhaseCompletion\<rparr>, sb, None))"
    using prep(1) phase assms(3) w by (auto simp: advancePersist_def ph Let_def lt split: option.splits)
  have "disk_copy st = disk_copy (ss_storage store)"
    using fs.sync_keeps [OF sy] by (simp add: disk_copy_def fun_eq_iff)
  then show "disk_copy (ss_storage store') = disk_copy (ss_storage store)" "ss_validation store' = v"
    "e \<noteq> None \<Longrightarrow> ss_current store' = ss_current store"
    "e = None \<Longrightarrow> i + 1 < write_count v \<Longrightarrow> writing v sb (i + 1) s' \<and> sb' = sealed sb \<and> ss_current store' = ss_current store"
    "e = None \<Longrightarrow> i + 1 = write_count v \<Longrightarrow> seq_phase s' = IOPhaseCompletion \<and> sb' = sb
       \<and> cand_Superblock (ss_current store') = sb"
    using assms(3,5) prep(2) unfolding adv by (auto split: option.splits if_splits)
qed

text \<open>
  What a run of the loop leaves behind: the first \<open>k\<close> copies are written, the next one may be
  damaged, and all others are as before.
\<close>

definition written :: "SuperblockValidation \<Rightarrow> Superblock \<Rightarrow> nat \<Rightarrow> nat \<Rightarrow> FileStorage \<Rightarrow> FileStorage \<Rightarrow> bool" where
  "written v sb i k before after \<longleftrightarrow>
     (\<forall>j. i \<le> j \<and> j < k \<longrightarrow> disk_copy after (slot v sb j) = superblock_bytes sb (of_nat (slot v sb j)))
     \<and> (\<forall>p. p \<notin> slot v sb ` {i..<min (k + 1) (write_count v)} \<longrightarrow> disk_copy after p = disk_copy before p)"

lemma written_sealed: "written v (sealed sb) = written v sb"
  by (simp add: written_def fun_eq_iff)

lemma written_trans:
  assumes "writable v sb" "written v sb i (i + 1) a b" "written v sb (i + 1) k b c" "i + 1 \<le> k" "k \<le> write_count v"
  shows "written v sb i k a c"
proof -
  obtain w where w: "superblockWriteCopies (SuperblockCopies (sv_Cluster v)) = Some w"
    using assms(1) by (auto simp: writable_def)
  note bd = write_count_bounds [OF w]
  have other: "slot v sb i \<notin> slot v sb ` {i + 1..<min (k + 1) (write_count v)}"
  proof
    assume "slot v sb i \<in> slot v sb ` {i + 1..<min (k + 1) (write_count v)}"
    then obtain j where "j \<in> {i + 1..<min (k + 1) (write_count v)}" "slot v sb i = slot v sb j" by blast
    then show False using slot_inj [of i v j sb] bd(3,4) by simp
  qed
  show ?thesis
    unfolding written_def
  proof (intro conjI allI impI)
    fix j
    assume j: "i \<le> j \<and> j < k"
    show "disk_copy c (slot v sb j) = superblock_bytes sb (of_nat (slot v sb j))"
    proof (cases "j = i")
      case True
      have "disk_copy c (slot v sb i) = disk_copy b (slot v sb i)" using assms(3) other by (simp add: written_def)
      then show ?thesis using assms(2) True by (simp add: written_def)
    qed (use j assms(3) in \<open>simp add: written_def\<close>)
  next
    fix p
    assume p: "p \<notin> slot v sb ` {i..<min (k + 1) (write_count v)}"
    then have "p \<notin> slot v sb ` {i + 1..<min (k + 1) (write_count v)}" by auto
    moreover have "p \<noteq> slot v sb i" using p assms(4,5) by auto
    moreover have "p \<notin> slot v sb ` {i..<min (i + 1 + 1) (write_count v)}" using p assms(4,5) by auto
    ultimately show "disk_copy c p = disk_copy a p" using assms(2,3) by (simp add: written_def)
  qed
qed

text \<open>Two rounds of the loop write and sync one copy.\<close>

lemma copy_round:
  assumes "writable v sb" "ss_validation store = v" "writing v sb i s" "i < write_count v"
  obtains (stop) store' e k where "persist_loop (Suc (Suc f)) store s sb = Some (store', Some e)" "k = i \<or> k = i + 1"
      "written v sb i k (ss_storage store) (ss_storage store')" "ss_validation store' = v"
      "ss_current store' = ss_current store"
  | (complete) store' where "persist_loop (Suc (Suc f)) store s sb = Some (store', None)" "i + 1 = write_count v"
      "written v sb i (i + 1) (ss_storage store) (ss_storage store')" "ss_validation store' = v"
      "cand_Superblock (ss_current store') = sb"
  | (more) store' s' where "persist_loop (Suc (Suc f)) store s sb = persist_loop f store' s' (sealed sb)"
      "i + 1 < write_count v" "writing v sb (i + 1) s'"
      "written v sb i (i + 1) (ss_storage store) (ss_storage store')" "ss_validation store' = v"
      "ss_current store' = ss_current store"
proof -
  obtain store1 s1 sb1 e1 where a1: "advancePersist store s sb = (store1, s1, sb1, e1)" by (metis prod_cases4)
  note w1 = advance_write [OF assms(3,1) a1]
  have ph: "seq_phase s \<noteq> IOPhaseCompletion" using assms(3) by (simp add: writing_def)
  show ?thesis
  proof (cases e1)
    case (Some e)
    then have "persist_loop (Suc (Suc f)) store s sb = Some (store1, Some e)"
      using a1 ph by (subst persist_loop.simps) (simp add: Let_def)
    moreover have "written v sb i i (ss_storage store) (ss_storage store1)"
      using w1(3) assms(4) by (auto simp: written_def)
    ultimately show ?thesis using stop [of store1 e i] w1(1,2) assms(2) by simp
  next
    case None
    note y = w1(4) [OF None]
    obtain store2 s2 sb2 e2 where a2: "advancePersist store1 s1 sb = (store2, s2, sb2, e2)" by (metis prod_cases4)
    have v1: "ss_validation store1 = v" "syncing v sb i s1" using w1(2) assms(2) y by auto
    note w2 = advance_sync [OF v1(2) assms(1) v1(1) assms(4) a2]
    have ph1: "seq_phase s1 \<noteq> IOPhaseCompletion" using v1(2) by (simp add: syncing_def)
    have loop: "persist_loop (Suc (Suc f)) store s sb = (if e2 \<noteq> None then Some (store2, e2) else persist_loop f store2 s2 sb2)"
      using a1 a2 ph ph1 None y by (simp add: persist_loop.simps [of "Suc _"] Let_def)
    have one: "written v sb i (i + 1) (ss_storage store) (ss_storage store2)"
      unfolding written_def
    proof (intro conjI allI impI)
      fix p
      assume "p \<notin> slot v sb ` {i..<min (i + 1 + 1) (write_count v)}"
      then have "p \<noteq> slot v sb i" using assms(4) by auto
      then show "disk_copy (ss_storage store2) p = disk_copy (ss_storage store) p" using w1(3) w2(1) by simp
    next
      fix j
      assume "i \<le> j \<and> j < i + 1"
      then have "j = i" by simp
      then show "disk_copy (ss_storage store2) (slot v sb j) = superblock_bytes sb (of_nat (slot v sb j))"
        using y w2(1) by simp
    qed
    consider (failed) e where "e2 = Some e" | (last) "e2 = None" "i + 1 = write_count v"
      | (next_copy) "e2 = None" "i + 1 < write_count v"
      using assms(4) by (cases e2) force+
    then show ?thesis
    proof cases
      case failed
      then show ?thesis using stop [of store2 e "i + 1"] loop one w2(2,3) w1(1) by simp
    next
      case last
      note c = w2(5) [OF last]
      have "persist_loop f store2 s2 sb2 = Some (store2, None)" using c by (subst persist_loop.simps) simp
      then show ?thesis using complete [of store2] loop one w2(2) last c by simp
    next
      case next_copy
      then show ?thesis using more [of store2 s2] loop one w2(2) w2(4) [OF next_copy] w1(1) by simp
    qed
  qed
qed

lemma persist_loop_result:
  assumes "writable v sb" "ss_validation store = v" "writing v sb i s" "i < write_count v" "2 * (write_count v - i) \<le> fuel"
  shows "\<exists>store' e k. persist_loop fuel store s sb = Some (store', e) \<and> i \<le> k \<and> k \<le> write_count v
    \<and> written v sb i k (ss_storage store) (ss_storage store') \<and> ss_validation store' = v
    \<and> (if e = None then k = write_count v \<and> cand_Superblock (ss_current store') \<in> {sb, sealed sb}
       else ss_current store' = ss_current store)"
  using assms
proof (induction "write_count v - i" arbitrary: i store s sb fuel)
  case (Suc n)
  obtain f where fuel: "fuel = Suc (Suc f)" "2 * (write_count v - (i + 1)) \<le> f"
    using Suc.prems(4,5) by (cases fuel; cases "fuel - 1") auto
  from Suc.prems(1-4) show ?case
  proof (cases rule: copy_round [where f = f, consumes 4])
    case (stop store' e k)
    then show ?thesis using Suc.prems(4) fuel(1) by (intro exI [of _ store'] exI [of _ "Some e"] exI [of _ k]) auto
  next
    case (complete store')
    then show ?thesis using fuel(1) by (intro exI [of _ store'] exI [of _ None] exI [of _ "i + 1"]) simp
  next
    case (more store2 s2)
    have "\<exists>store' e k. persist_loop f store2 s2 (sealed sb) = Some (store', e) \<and> i + 1 \<le> k \<and> k \<le> write_count v
        \<and> written v (sealed sb) (i + 1) k (ss_storage store2) (ss_storage store') \<and> ss_validation store' = v
        \<and> (if e = None then k = write_count v \<and> cand_Superblock (ss_current store') \<in> {sealed sb, sealed (sealed sb)}
           else ss_current store' = ss_current store2)"
      using Suc.hyps(2) Suc.prems(1) more fuel(2) by (intro Suc.hyps(1)) simp_all
    then obtain store' e k where r: "persist_loop f store2 s2 (sealed sb) = Some (store', e)" "i + 1 \<le> k" "k \<le> write_count v"
      "written v sb (i + 1) k (ss_storage store2) (ss_storage store')" "ss_validation store' = v"
      "if e = None then k = write_count v \<and> cand_Superblock (ss_current store') \<in> {sb, sealed sb}
       else ss_current store' = ss_current store2"
      unfolding written_sealed sealed_sealed by (metis insert_iff)
    note written_trans [OF Suc.prems(1) more(4) r(4,2,3)]
    then show ?thesis using more r fuel(1) by (intro exI [of _ store'] exI [of _ e] exI [of _ k]) auto
  qed
qed simp

end
