(* ===== verification/Superblock_Crash.thy ===== *)
theory Superblock_Crash
  imports Superblock_Store
begin

text \<open>
  What is left of the superblock copies when writing a new superblock is interrupted, and which
  superblock a store that is opened afterwards selects.
\<close>

section \<open>Rotating copies\<close>

text \<open>
  A history of superblocks: the one with sequence number \<open>m\<close> is \<open>hist m\<close>, and each follows its
  predecessor.
\<close>

definition history :: "(nat \<Rightarrow> Superblock) \<Rightarrow> nat \<Rightarrow> nat \<Rightarrow> bool" where
  "history hist lo hi \<longleftrightarrow> hi < 2 ^ 64 \<and> (\<forall>m. lo \<le> m \<and> m \<le> hi \<longrightarrow> sb_Sequence (hist m) = of_nat m)
     \<and> (\<forall>m. lo \<le> m \<and> m < hi \<longrightarrow> follows (hist m) (hist (m + 1)))"

text \<open>
  The superblock at distance \<open>d\<close> from the slot of sequence number \<open>n\<close>, when \<open>k\<close> copies of the
  next superblock have been written over the copies of a store that writes \<open>w\<close> of \<open>m\<close> copies.
\<close>

definition layout :: "nat \<Rightarrow> nat \<Rightarrow> (nat \<Rightarrow> Superblock) \<Rightarrow> nat \<Rightarrow> nat \<Rightarrow> nat \<Rightarrow> Superblock" where
  "layout m w hist n k d = (if 1 \<le> d \<and> d \<le> k then hist (n + 1) else if d < w then hist n else hist (n + d - m))"

lemma upt_split: "i \<le> j \<Longrightarrow> j \<le> k \<Longrightarrow> [i..<k] = [i..<j] @ [j..<k]"
  using upt_add_eq_append [of i j "k - j"] by simp

lemma layout_list:
  assumes "k < w" "w < m" "m \<le> n + w"
  shows "map (layout m w hist n k) [0..<m] =
    hist n # replicate k (hist (n + 1)) @ replicate (w - 1 - k) (hist n) @ map hist [n + w - m..<n]"
proof -
  have "[0..<m] = 0 # [1..<k + 1] @ [k + 1..<w] @ [w..<m]"
  proof -
    have "[0..<m] = [0..<1] @ [1..<m]" "[1..<m] = [1..<k + 1] @ [k + 1..<m]" "[k + 1..<m] = [k + 1..<w] @ [w..<m]"
      using assms by (intro upt_split; simp)+
    then show ?thesis by simp
  qed
  moreover have "map (layout m w hist n k) [1..<k + 1] = replicate k (hist (n + 1))"
    by (rule nth_equalityI) (simp_all add: layout_def del: upt_Suc)
  moreover have "map (layout m w hist n k) [k + 1..<w] = replicate (w - 1 - k) (hist n)"
    by (rule nth_equalityI) (simp_all add: layout_def)
  moreover have "map (layout m w hist n k) [w..<m] = map hist [n + w - m..<n]"
  proof (rule nth_equalityI)
    show "length (map (layout m w hist n k) [w..<m]) = length (map hist [n + w - m..<n])" using assms by simp
    fix i
    assume "i < length (map (layout m w hist n k) [w..<m])"
    then have "i < m - w" by simp
    moreover have "n + (w + i) - m = n + w - m + i" using assms by simp
    ultimately show "map (layout m w hist n k) [w..<m] ! i = map hist [n + w - m..<n] ! i"
      using assms by (simp add: layout_def)
  qed
  ultimately show ?thesis using assms by (simp add: layout_def)
qed

lemma of_nat64_inj: "a < 2 ^ 64 \<Longrightarrow> b < 2 ^ 64 \<Longrightarrow> (of_nat a :: u64) = of_nat b \<longleftrightarrow> a = b"
  by (metis unat_of_nat64)

lemma of_nat64_less: "a < 2 ^ 64 \<Longrightarrow> b < 2 ^ 64 \<Longrightarrow> (of_nat a :: u64) < of_nat b \<longleftrightarrow> a < b"
  by (simp add: word_less_nat_alt unat_of_nat64)

lemma votes_map: "votes cs s = length (filter (\<lambda>sb. sb_Sequence sb = s) (map cand_Superblock cs))"
  by (simp add: cand_seq_def filter_map comp_def)

lemma hist_own: "history hist lo hi \<Longrightarrow> lo \<le> a \<Longrightarrow> a \<le> hi \<Longrightarrow> sb_Sequence (hist a) = of_nat a"
  unfolding history_def by blast

lemma hist_follows: "history hist lo hi \<Longrightarrow> lo \<le> a \<Longrightarrow> a < hi \<Longrightarrow> follows (hist a) (hist (a + 1))"
  unfolding history_def by blast

lemma hist_seq:
  assumes "history hist lo hi" "lo \<le> a" "a \<le> hi" "s \<le> hi"
  shows "sb_Sequence (hist a) = of_nat s \<longleftrightarrow> a = s"
proof -
  have "sb_Sequence (hist a) = of_nat a" "hi < 2 ^ 64" using assms unfolding history_def by blast+
  then show ?thesis using of_nat64_inj [of a s] assms(3,4) by simp
qed

lemma filter_hist:
  assumes "history hist lo hi" "lo \<le> a" "b \<le> hi" "s \<le> hi"
  shows "length (filter (\<lambda>sb. sb_Sequence sb = of_nat s) (map hist [a..<b])) = (if a \<le> s \<and> s < b then 1 else 0)"
proof -
  have "filter ((\<lambda>sb. sb_Sequence sb = of_nat s) \<circ> hist) [a..<b] = filter (\<lambda>x. x = s) [a..<b]"
    using hist_seq [OF assms(1) _ _ assms(4)] assms(2,3) by (intro filter_cong) auto
  also have "length \<dots> = (if a \<le> s \<and> s < b then 1 else 0)"
  proof -
    have "length (filter (\<lambda>x. x = s) [a..<b]) = card ({x. x = s} \<inter> set [a..<b])"
      by (simp add: distinct_length_filter)
    also have "{x. x = s} \<inter> set [a..<b] = (if a \<le> s \<and> s < b then {s} else {})" by auto
    finally show ?thesis by simp
  qed
  finally show ?thesis by (simp add: filter_map)
qed

lemma votes_layout:
  assumes "history hist (n + w - m) (n + 1)" "k < w" "w < m" "m \<le> n + w" "s \<le> n + 1"
    and "mset (map cand_Superblock cs) = mset (map (layout m w hist n k) [0..<m])"
  shows "votes cs (of_nat s) = (if s = n + 1 then k else if s = n then w - k else if n + w - m \<le> s then 1 else 0)"
proof -
  let ?P = "\<lambda>sb. sb_Sequence sb = (of_nat s :: u64)"
  have "mset (filter ?P (map cand_Superblock cs)) = mset (filter ?P (map (layout m w hist n k) [0..<m]))"
    using arg_cong [OF assms(6), of "filter_mset ?P"] by (simp only: mset_filter)
  then have "votes cs (of_nat s) = length (filter ?P (map (layout m w hist n k) [0..<m]))"
    unfolding votes_map by (metis size_mset)
  also have "\<dots> = (if ?P (hist n) then 1 else 0) + (if ?P (hist (n + 1)) then k else 0)
      + (if ?P (hist n) then w - 1 - k else 0) + (if n + w - m \<le> s \<and> s < n then 1 else 0)"
    unfolding layout_list [OF assms(2-4)]
    using filter_hist [OF assms(1), of "n + w - m" n s] assms(5) by (simp add: filter_replicate)
  also have "?P (hist n) \<longleftrightarrow> s = n" using hist_seq [OF assms(1) _ _ assms(5), of n] assms(3,4) by auto
  also have "?P (hist (n + 1)) \<longleftrightarrow> s = n + 1" using hist_seq [OF assms(1) _ _ assms(5), of "n + 1"] assms(3,4) by auto
  finally show ?thesis using assms(2,5) by (cases "s = n + 1"; cases "s = n") simp_all
qed

text \<open>The sequence numbers on disk while \<open>k\<close> copies of the next superblock are written.\<close>

lemma set_layout:
  assumes "k < w" "w < m" "m \<le> n + w" "mset (map cand_Superblock cs) = mset (map (layout m w hist n k) [0..<m])"
  shows "cand_Superblock ` set cs = hist ` {s. n + w - m \<le> s \<and> s \<le> n \<or> 0 < k \<and> s = n + 1}"
proof -
  have "cand_Superblock ` set cs = set (map (layout m w hist n k) [0..<m])"
    using mset_eq_setD [OF assms(4)] by simp
  also have "\<dots> = hist ` ({n} \<union> {s. 0 < k \<and> s = n + 1} \<union> {n + w - m..<n})"
  proof (cases "k = 0")
    case False
    then show ?thesis unfolding layout_list [OF assms(1-3)] set_simps set_append set_replicate_conv_if set_map set_upt
      by (simp add: image_Un insert_commute)
  next
    case True
    then show ?thesis unfolding layout_list [OF assms(1-3)] set_simps set_append set_replicate_conv_if set_map set_upt
      by (simp add: image_Un)
  qed
  also have "{n} \<union> {s. 0 < k \<and> s = n + 1} \<union> {n + w - m..<n} = {s. n + w - m \<le> s \<and> s \<le> n \<or> 0 < k \<and> s = n + 1}"
    using assms(2) by auto
  finally show ?thesis .
qed

lemma history_candidates:
  assumes "history hist lo (n + 1)" "lo \<le> n"
    and set: "cand_Superblock ` set cs = hist ` {s. lo \<le> s \<and> s \<le> n \<or> 0 < k \<and> s = n + 1}"
  shows "\<And>c. c \<in> set cs \<Longrightarrow> \<exists>s. cand_Superblock c = hist s \<and> cand_seq c = of_nat s \<and> lo \<le> s \<and> s \<le> n + 1"
    and "coherent cs" "gapless cs"
proof -
  let ?S = "{s. lo \<le> s \<and> s \<le> n \<or> 0 < k \<and> s = n + 1}"
  have bound: "n + 1 < 2 ^ 64" using assms(1) by (simp add: history_def)
  have seq: "sb_Sequence (hist s) = of_nat s" if "s \<in> ?S" for s
    using hist_own [OF assms(1), of s] that assms(2) by auto
  have mem: "\<exists>s \<in> ?S. cand_Superblock c = hist s \<and> cand_seq c = of_nat s" if "c \<in> set cs" for c
  proof -
    have "cand_Superblock c \<in> hist ` ?S" unfolding set [symmetric] using that by (rule imageI)
    then obtain s where "cand_Superblock c = hist s" "s \<in> ?S" by (rule imageE)
    then show ?thesis using seq [of s] by (intro bexI [of _ s]) (simp_all add: cand_seq_def)
  qed
  show "\<exists>s. cand_Superblock c = hist s \<and> cand_seq c = of_nat s \<and> lo \<le> s \<and> s \<le> n + 1" if c: "c \<in> set cs" for c
  proof -
    obtain s where "s \<in> ?S" "cand_Superblock c = hist s \<and> cand_seq c = of_nat s" using mem [OF c] by blast
    then show ?thesis using assms(2) by (intro exI [of _ s]) auto
  qed
  show "coherent cs"
    unfolding coherent_def
  proof (intro ballI impI)
    fix c d
    assume cd: "c \<in> set cs" "d \<in> set cs" "cand_seq c = cand_seq d"
    obtain s s' where s: "s \<in> ?S" "cand_Superblock c = hist s" "cand_seq c = of_nat s"
      "s' \<in> ?S" "cand_Superblock d = hist s'" "cand_seq d = of_nat s'"
      using mem [OF cd(1)] mem [OF cd(2)] by blast
    have "s = s'" using of_nat64_inj [of s s'] s cd(3) bound by auto
    then show "cand_Superblock c = cand_Superblock d" using s by simp
  qed
  show "gapless cs"
    unfolding gapless_def
  proof (intro ballI impI)
    fix c
    assume c: "c \<in> set cs" "\<exists>d \<in> set cs. cand_seq c < cand_seq d"
    obtain s where s: "s \<in> ?S" "cand_Superblock c = hist s" "cand_seq c = of_nat s" using mem [OF c(1)] by blast
    obtain d where d: "d \<in> set cs" "cand_seq c < cand_seq d" using c(2) by blast
    obtain s' where s': "s' \<in> ?S" "cand_seq d = of_nat s'" using mem [OF d(1)] by blast
    then have "(of_nat s :: u64) < of_nat s'" using d(2) s(3) by simp
    moreover have "s < 2 ^ 64" "s' < 2 ^ 64" using s(1) s'(1) bound by auto
    ultimately have "s < s'" by (simp add: of_nat64_less)
    then have "s + 1 \<in> ?S" using s(1) s'(1) by auto
    moreover have "follows (hist s) (hist (s + 1))"
      using hist_follows [OF assms(1), of s] s(1) s'(1) \<open>s < s'\<close> assms(2) by auto
    moreover have "hist (s + 1) \<in> cand_Superblock ` set cs" unfolding set using calculation(1) by (rule imageI)
    then obtain e where "hist (s + 1) = cand_Superblock e" "e \<in> set cs" by (rule imageE)
    ultimately show "\<exists>d \<in> set cs. follows (cand_Superblock c) (cand_Superblock d)"
      unfolding s(2) by (intro bexI [of _ e]) simp_all
  qed
qed

lemma SelectSuperblock_none:
  assumes "coherent cs" "gapless cs" "length cs \<le> unat copies" "superblockOpenQuorum copies = Some q" "cs \<noteq> []"
    and "\<And>d. d \<in> set cs \<Longrightarrow> votes cs (cand_seq d) < quorum_for copies q (cand_Superblock d)"
    and "\<And>d. d \<in> set cs \<Longrightarrow> \<not> is_initial (cand_Superblock d)"
  shows "SelectSuperblock cs copies = Inl ErrSuperblockQuorum"
proof -
  obtain vs where vs: "count_candidates [] cs = Inr vs" "tally cs (exchange_sort vs)" "chain_ok (exchange_sort vs)"
    using values_of [OF assms(1-4)] by blast
  let ?vs = "exchange_sort vs"
  have t: "\<And>v. v \<in> set ?vs \<Longrightarrow> val_candidate v \<in> set cs \<and> unat (val_count v) = votes cs (cand_seq (val_candidate v))"
    using vs(2) by (simp add: tally_def val_seq)
  have "select_loop copies q ?vs None = None"
    using t assms(6) by (intro select_loop_none) (simp add: word_less_nat_alt quorum_for_value)
  moreover have "\<not> list_ex (\<lambda>v. is_initial (val_Superblock v)) ?vs" using t assms(7) by (auto simp: list_ex_iff)
  ultimately show ?thesis
    using vs(1,3) assms(3-5) by (simp add: SelectSuperblock_def Let_def not_less)
qed

lemma copies_cases:
  assumes "superblockWriteCopies copies = Some w" "superblockOpenQuorum copies = Some q"
  shows "unat q \<le> unat w" "1 < unat q" "unat w < unat copies" "unat q < unat copies"
  using write_copies_cases [OF assms(1)] assms(2) by (auto simp: superblockOpenQuorum_def)

lemma select_layout:
  assumes "superblockWriteCopies copies = Some w" "superblockOpenQuorum copies = Some q"
    and h: "history hist (n + unat w - unat copies) (n + 1)" "2 + unat copies \<le> n + unat w" "k < unat w"
    and cs: "mset (map cand_Superblock cs) = mset (map (layout (unat copies) (unat w) hist n k) [0..<unat copies])"
  shows "case SelectSuperblock cs copies of
      Inr c \<Rightarrow> cand_Superblock c = (if unat q \<le> k then hist (n + 1) else hist n) \<and> (unat q \<le> k \<or> unat q \<le> unat w - k)
    | Inl e \<Rightarrow> e = ErrSuperblockQuorum \<and> \<not> unat q \<le> k \<and> \<not> unat q \<le> unat w - k"
proof -
  let ?m = "unat copies" and ?w = "unat w"
  note b = copies_cases [OF assms(1,2)]
  define lo where "lo = n + ?w - ?m"
  have lo: "lo \<le> n" "2 \<le> lo" using b(3) h(2) by (simp_all add: lo_def)
  have m: "?m \<le> n + ?w" using h(2) by simp
  note set = set_layout [OF h(3) b(3) m cs, folded lo_def]
  note hc = history_candidates [OF h(1) [folded lo_def] lo(1) set]
  note vt = votes_layout [OF h(1,3) b(3) m _ cs, folded lo_def]
  have len: "length cs \<le> ?m" using arg_cong [OF cs, of size] by simp
  have bound: "n + 1 < 2 ^ 64" using h(1) by (simp add: history_def)
  have cand: "\<exists>c \<in> set cs. cand_Superblock c = hist s \<and> cand_seq c = of_nat s"
    if "lo \<le> s \<and> s \<le> n \<or> 0 < k \<and> s = n + 1" for s
  proof -
    have "hist s \<in> cand_Superblock ` set cs" unfolding set using that by (intro imageI) simp
    then obtain c where "hist s = cand_Superblock c" "c \<in> set cs" by (rule imageE)
    moreover have "sb_Sequence (hist s) = of_nat s"
      using that lo(1) by (intro hist_own [OF h(1) [folded lo_def]]) auto
    ultimately show ?thesis by (intro bexI [of _ c]) (simp_all add: cand_seq_def)
  qed
  have quorum: "quorum_for copies q (hist s) = unat q" if "lo \<le> s" "s \<le> n + 1" for s
  proof -
    have "sb_Sequence (hist s) = of_nat s" using that by (intro hist_own [OF h(1) [folded lo_def]])
    moreover have "(of_nat s :: u64) \<noteq> of_nat 1" using of_nat64_inj [of s 1] that lo(2) bound by simp
    ultimately show ?thesis by (simp add: quorum_for_def is_initial_def)
  qed
  have pick: "\<exists>c. SelectSuperblock cs copies = Inr c \<and> cand_Superblock c = hist s"
    if s: "lo \<le> s \<and> s \<le> n \<or> 0 < k \<and> s = n + 1" "unat q \<le> votes cs (of_nat s)" "s = n \<Longrightarrow> k < unat q" "n \<le> s" for s
  proof -
    obtain c where c: "c \<in> set cs" "cand_Superblock c = hist s" "cand_seq c = of_nat s" using cand [OF s(1)] by blast
    have "\<exists>c' \<in> set cs. SelectSuperblock cs copies = Inr c' \<and> cand_Superblock c' = cand_Superblock c"
    proof (rule SelectSuperblock_ok [OF hc(2,3) len assms(2) c(1)])
      show "quorum_for copies q (cand_Superblock c) \<le> votes cs (cand_seq c)"
        using quorum [of s] s lo(1) c by auto
      fix d
      assume d: "d \<in> set cs" "cand_seq c < cand_seq d"
      obtain s' where s': "cand_Superblock d = hist s'" "cand_seq d = of_nat s'" "lo \<le> s'" "s' \<le> n + 1"
        using hc(1) [OF d(1)] by blast
      have "s < 2 ^ 64" "s' < 2 ^ 64" using s(1) s'(4) bound by auto
      then have "s < s'" using d(2) of_nat64_less [of s s'] unfolding c(3) s'(2) by simp
      then have "s = n" "s' = n + 1" using s s'(4) by auto
      then show "votes cs (cand_seq d) < quorum_for copies q (cand_Superblock d)"
        using vt [of s'] s'(1,2) s(3) quorum [of s'] s'(3,4) by simp
    qed
    then show ?thesis using c(2) by auto
  qed
  consider (new) "unat q \<le> k" | (old) "\<not> unat q \<le> k" "unat q \<le> ?w - k" | (lost) "\<not> unat q \<le> k" "\<not> unat q \<le> ?w - k" by blast
  then show ?thesis
  proof cases
    case new
    then show ?thesis using pick [of "n + 1"] vt [of "n + 1"] b(2) by auto
  next
    case old
    then show ?thesis using pick [of n] vt [of n] lo(1) by auto
  next
    case lost
    have "SelectSuperblock cs copies = Inl ErrSuperblockQuorum"
    proof (rule SelectSuperblock_none [OF hc(2,3) len assms(2)])
      show "cs \<noteq> []" using cand [of n] lo(1) by auto
      fix d
      assume d: "d \<in> set cs"
      obtain s where s: "cand_Superblock d = hist s" "cand_seq d = of_nat s" "lo \<le> s" "s \<le> n + 1"
        using hc(1) [OF d] by blast
      have "votes cs (of_nat s) < unat q" using vt [of s] s(4) lost b(2) by simp
      then show "votes cs (cand_seq d) < quorum_for copies q (cand_Superblock d)" using quorum [of s] s by simp
      have "(of_nat s :: u64) \<noteq> of_nat 1" using of_nat64_inj [of s 1] s lo(2) bound by simp
      then show "\<not> is_initial (cand_Superblock d)" using s(2) by (simp add: is_initial_def cand_seq_def)
    qed
    then show ?thesis using lost by simp
  qed
qed

section \<open>Reading the copies back\<close>

definition copy_view :: "FileStorage \<Rightarrow> SuperblockValidation \<Rightarrow> nat \<Rightarrow> SuperblockCandidate option" where
  "copy_view storage v p = (case DecodeSuperblock (disk_copy storage p) (of_nat p) v of Inl e \<Rightarrow> None | Inr c \<Rightarrow> Some c)"

text \<open>The candidates that opening the store finds when every read succeeds.\<close>

definition readable :: "FileStorage \<Rightarrow> SuperblockValidation \<Rightarrow> SuperblockCandidate list" where
  "readable storage v = List.map_filter (copy_view storage v) [0..<copies_of v]"

definition rel :: "nat \<Rightarrow> nat \<Rightarrow> nat \<Rightarrow> nat" where
  "rel m n p = (p + (m - n mod m)) mod m"

definition holds_layout :: "SuperblockValidation \<Rightarrow> (nat \<Rightarrow> Superblock) \<Rightarrow> nat \<Rightarrow> nat \<Rightarrow> FileStorage \<Rightarrow> bool" where
  "holds_layout v hist n k storage \<longleftrightarrow> (\<forall>p < copies_of v. disk_copy storage p =
     superblock_bytes (layout (copies_of v) (write_count v) hist n k (rel (copies_of v) n p)) (of_nat p))"

text \<open>The superblocks of the history carry their checksum and belong to the validated cluster.\<close>

definition stored_history :: "SuperblockValidation \<Rightarrow> (nat \<Rightarrow> Superblock) \<Rightarrow> nat \<Rightarrow> bool" where
  "stored_history v hist n \<longleftrightarrow> history hist (n + write_count v - copies_of v) (n + 1)
     \<and> 2 + copies_of v \<le> n + write_count v
     \<and> (\<forall>m. n + write_count v - copies_of v \<le> m \<and> m \<le> n + 1 \<longrightarrow> writable v (hist m) \<and> sealed (hist m) = hist m)
     \<and> BlockBase (sv_Cluster v) \<noteq> None"

lemma mset_rotation: "mset (map (\<lambda>p. f (rel m n p)) [0..<m]) = mset (map f [0..<m])"
proof -
  have "map (rel m n) [0..<m] = rotate (m - n mod m) [0..<m]"
    by (rule nth_equalityI) (auto simp: nth_rotate rel_def add.commute)
  moreover have "mset (rotate r xs) = mset xs" for r and xs :: "nat list"
    unfolding rotate_drop_take by (metis append_take_drop_id mset_append union_commute)
  ultimately have "mset (map (rel m n) [0..<m]) = mset [0..<m]" by simp
  then have "image_mset f (mset (map (rel m n) [0..<m])) = image_mset f (mset [0..<m])" by (rule arg_cong)
  then show ?thesis by (simp add: mset_map [symmetric] comp_def del: mset_map mset_upt)
qed

lemma write_count_le: "write_count v \<le> copies_of v"
proof (cases "superblockWriteCopies (SuperblockCopies (sv_Cluster v))")
  case (Some w)
  then show ?thesis using write_count_bounds(3,4) [OF Some] by simp
qed (simp add: write_count_def)

lemma layout_in_history:
  assumes "d < m" "w < m" "m \<le> n + w"
  shows "\<exists>s. layout m w hist n k d = hist s \<and> n + w - m \<le> s \<and> s \<le> n + 1"
  using assms unfolding layout_def by (intro exI [of _ "if 1 \<le> d \<and> d \<le> k then n + 1 else if d < w then n else n + d - m"]) auto

lemma readable_layout:
  assumes "stored_history v hist n" "holds_layout v hist n k storage"
  shows "mset (map cand_Superblock (readable storage v)) =
    mset (map (layout (copies_of v) (write_count v) hist n k) [0..<copies_of v])"
proof -
  let ?l = "\<lambda>p. layout (copies_of v) (write_count v) hist n k (rel (copies_of v) n p)"
  have h: "\<And>m. n + write_count v - copies_of v \<le> m \<Longrightarrow> m \<le> n + 1 \<Longrightarrow> writable v (hist m) \<and> sealed (hist m) = hist m"
    "2 + copies_of v \<le> n + write_count v" and "BlockBase (sv_Cluster v) \<noteq> None"
    using assms(1) unfolding stored_history_def by blast+
  then obtain base where base: "BlockBase (sv_Cluster v) = Some base" by auto
  have "writable v (hist (n + 1))" using h(1) [of "n + 1"] write_count_le [of v] by auto
  then obtain w where w: "superblockWriteCopies (SuperblockCopies (sv_Cluster v)) = Some w" by (auto simp: writable_def)
  note b = write_count_bounds [OF w]
  have view: "copy_view storage v p = Some \<lparr>cand_Superblock = ?l p, PhysicalIndex = of_nat p, MisdirectedIndex = False\<rparr>"
    if p: "p < copies_of v" for p
  proof -
    have "rel (copies_of v) n p < copies_of v" using b(2) by (simp add: rel_def)
    then obtain s where s: "?l p = hist s" "n + write_count v - copies_of v \<le> s" "s \<le> n + 1"
      using layout_in_history [of "rel (copies_of v) n p" "copies_of v" "write_count v" n hist k] b(3,4) h(2) by auto
    have ok: "writable v (hist s)" "sealed (hist s) = hist s" using h(1) [OF s(2,3)] by simp_all
    have "disk_copy storage p = superblock_bytes (hist s) (of_nat p)"
      using assms(2) p s(1) by (simp add: holds_layout_def)
    moreover have "DecodeSuperblock (superblock_bytes (hist s) (of_nat p)) (of_nat p) v =
        Inr \<lparr>cand_Superblock = sealed (hist s), PhysicalIndex = of_nat p, MisdirectedIndex = (of_nat p :: u16) \<noteq> of_nat p\<rparr>"
      using ok(1) by (intro DecodeSuperblock_bytes [OF _ _ base]) (simp_all add: writable_def)
    ultimately show ?thesis using ok(2) s(1) by (simp add: copy_view_def)
  qed
  have "readable storage v = map (\<lambda>p. \<lparr>cand_Superblock = ?l p, PhysicalIndex = of_nat p, MisdirectedIndex = False\<rparr>) [0..<copies_of v]"
    unfolding readable_def List.map_filter_def using view by (auto simp: filter_id_conv)
  then show ?thesis
    using mset_rotation [of "layout (copies_of v) (write_count v) hist n k" "copies_of v" n] by (simp add: comp_def)
qed

section \<open>Crashes\<close>

definition script :: "FileStorage \<Rightarrow> outcome list \<Rightarrow> bool" where
  "script storage os \<longleftrightarrow> (\<exists>d. fs_file storage = Some d \<and> outcomes d = os)"

lemma WriteAt_script:
  assumes "script st (f # os)" "validateIO st (length data) off = None"
  shows "f = Pass \<Longrightarrow> \<exists>st'. WriteAt st data off = (st', None) \<and> script st' os"
    "f = Fault x 0 \<Longrightarrow> \<exists>st'. WriteAt st data off = (st', Some (ErrJoin ErrStorage x)) \<and> contents st' = contents st"
proof -
  obtain d where d: "fs_file st = Some d" "outcomes d = f # os" using assms(1) by (auto simp: script_def)
  show "\<exists>st'. WriteAt st data off = (st', None) \<and> script st' os" if "f = Pass"
    using d assms(2) that by (simp add: WriteAt_def next_outcome_def script_def disk_write_def)
  show "\<exists>st'. WriteAt st data off = (st', Some (ErrJoin ErrStorage x)) \<and> contents st' = contents st" if "f = Fault x 0"
    using d assms(2) that
    by (auto simp: WriteAt_def next_outcome_def contents_def fun_eq_iff disk_read_def disk_write_def)
qed

lemma Sync_script:
  "script st (Pass # os) \<Longrightarrow> \<exists>st'. Sync st = (st', None) \<and> script st' os"
  by (auto simp: script_def Sync_def next_outcome_def)

lemma validateIO_copy:
  assumes "p < 8" "fs_file st \<noteq> None"
  shows "validateIO st 8192 (of_nat (p * 8192)) = None"
proof -
  have u: "unat (of_nat (p * 8192) :: u64) = p * 8192" using assms(1) by (intro unat_of_nat64) simp
  have "of_nat (p * 8192) \<le> (MaxInt64 :: u64)" using u assms(1) by (simp add: word_le_nat_alt)
  moreover have "(of_nat (p * 8192) :: u64) mod 4096 = 0"
  proof -
    have "unat ((of_nat (p * 8192) :: u64) mod 4096) = p * 8192 mod 4096" unfolding unat_mod u by simp
    moreover have "p * 8192 mod 4096 = 0" using mod_mult_self1_is_0 [of 4096 "p * 2"] by (simp add: mult.commute)
    ultimately show ?thesis by (simp add: unat_eq_0)
  qed
  ultimately show ?thesis using assms(2) by (auto simp: validateIO_def)
qed

text \<open>Exactly the copies \<open>i\<close> to \<open>k - 1\<close> have been written.\<close>

definition copied :: "SuperblockValidation \<Rightarrow> Superblock \<Rightarrow> nat \<Rightarrow> nat \<Rightarrow> FileStorage \<Rightarrow> FileStorage \<Rightarrow> bool" where
  "copied v sb i k before after \<longleftrightarrow> (\<forall>p. disk_copy after p =
     (if p \<in> slot v sb ` {i..<k} then superblock_bytes sb (of_nat p) else disk_copy before p))"

lemma copied_sealed: "copied v (sealed sb) = copied v sb"
  by (simp add: copied_def fun_eq_iff)

lemma copied_step:
  assumes "copied v sb (i + 1) k b c" "i + 1 \<le> k"
    and "\<And>p. p \<noteq> slot v sb i \<Longrightarrow> disk_copy b p = disk_copy a p"
    and "disk_copy b (slot v sb i) = superblock_bytes sb (of_nat (slot v sb i))"
  shows "copied v sb i k a c"
proof -
  have "{i..<k} = insert i {i + 1..<k}" using assms(2) by auto
  then show ?thesis using assms(1,3,4) by (auto simp: copied_def)
qed

lemma writing_valid:
  assumes "writable v sb" "writing v sb i s" "fs_file st \<noteq> None"
  shows "validateIO st (length (seq_buffer s)) (seq_offset s) = None"
proof -
  obtain w where w: "superblockWriteCopies (SuperblockCopies (sv_Cluster v)) = Some w"
    using assms(1) by (auto simp: writable_def)
  note b = write_count_bounds [OF w]
  have "slot v sb i < 8" using b(1,2) by (simp add: slot_def) (meson mod_less_divisor order_less_le_trans)
  then show ?thesis using validateIO_copy assms(2,3) by (auto simp: writing_def)
qed

lemma round_pass:
  assumes "writable v sb" "ss_validation store = v" "writing v sb i s" "i + 1 < write_count v"
    "script (ss_storage store) (Pass # Pass # os)"
  shows "\<exists>store' s'. persist_loop (Suc (Suc f)) store s sb = persist_loop f store' s' (sealed sb)
    \<and> writing v sb (i + 1) s' \<and> script (ss_storage store') os \<and> ss_validation store' = v
    \<and> ss_current store' = ss_current store
    \<and> (\<forall>p. p \<noteq> slot v sb i \<longrightarrow> disk_copy (ss_storage store') p = disk_copy (ss_storage store) p)
    \<and> disk_copy (ss_storage store') (slot v sb i) = superblock_bytes sb (of_nat (slot v sb i))"
proof -
  have s: "seq_phase s = IOPhaseWrite" using assms(3) by (simp add: writing_def)
  have "fs_file (ss_storage store) \<noteq> None" using assms(5) by (auto simp: script_def)
  note val = writing_valid [OF assms(1,3) this]
  obtain st1 where st1: "WriteAt (ss_storage store) (seq_buffer s) (seq_offset s) = (st1, None)" "script st1 (Pass # os)"
    using WriteAt_script(1) [OF assms(5) val refl] by blast
  obtain store1 s1 sb1 e1 where a1: "advancePersist store s sb = (store1, s1, sb1, e1)" by (metis prod_cases4)
  have e1: "e1 = None" "ss_storage store1 = st1"
    using a1 st1(1) s by (auto simp: advancePersist_def physical_def Let_def)
  note w1 = advance_write [OF assms(3,1) a1] and y = advance_write(4) [OF assms(3,1) a1 e1(1)]
  obtain st2 where st2: "Sync st1 = (st2, None)" "script st2 os" using Sync_script [OF st1(2)] by blast
  obtain store2 s2 sb2 e2 where a2: "advancePersist store1 s1 sb = (store2, s2, sb2, e2)" by (metis prod_cases4)
  have v1: "ss_validation store1 = v" "syncing v sb i s1" "i < write_count v" using w1(2) assms(2,4) y by auto
  have ph: "seq_phase s1 = IOPhaseSync" using v1(2) by (simp add: syncing_def)
  have phys: "physical (ss_storage store1) s1 = (st2, s1, None)" using ph st2(1) e1(2) by (simp add: physical_def)
  have e2: "ss_storage store2 = st2"
    using a2 ph by (auto simp: advancePersist_def phys Let_def split: if_splits sum.splits)
  note w2 = advance_sync [OF v1(2) assms(1) v1(1,3) a2]
  have "e2 = None"
  proof -
    obtain w where w: "superblockWriteCopies (SuperblockCopies (sv_Cluster v)) = Some w"
      using assms(1) by (auto simp: writable_def)
    have step: "unat (seq_step s1 + 1) = i + 1"
      using v1(2,3) write_count_bounds(3,6) [OF w] by (subst unat_add_noof) (simp_all add: syncing_def)
    have "\<exists>s'. prepareCopy (store1\<lparr>ss_storage := st2\<rparr>) (s1\<lparr>seq_step := seq_step s1 + 1\<rparr>) sb = Inr (s', sealed sb)"
      using prepareCopy_ok [OF assms(1), of "store1\<lparr>ss_storage := st2\<rparr>" "s1\<lparr>seq_step := seq_step s1 + 1\<rparr>"]
        v1 step write_count_bounds(3,6) [OF w] by (auto simp: syncing_def)
    then show ?thesis using a2 ph by (auto simp: advancePersist_def phys Let_def split: if_splits)
  qed
  note c = w2(4) [OF this assms(4)]
  have "persist_loop (Suc (Suc f)) store s sb = persist_loop f store2 s2 (sealed sb)"
    using a1 a2 s ph e1(1) \<open>e2 = None\<close> y c by (simp add: persist_loop.simps [of "Suc _"] Let_def)
  then show ?thesis
    using c w2(1,2) w1 y e2 st2(2) by (intro exI [of _ store2] exI [of _ s2]) simp
qed

lemma round_last:
  assumes "writable v sb" "ss_validation store = v" "writing v sb i s" "i + 1 = write_count v"
    "script (ss_storage store) (Pass # Pass # os)"
  shows "\<exists>store'. persist_loop (Suc (Suc f)) store s sb = Some (store', None)"
proof -
  have s: "seq_phase s = IOPhaseWrite" using assms(3) by (simp add: writing_def)
  have "fs_file (ss_storage store) \<noteq> None" using assms(5) by (auto simp: script_def)
  note val = writing_valid [OF assms(1,3) this]
  obtain st1 where st1: "WriteAt (ss_storage store) (seq_buffer s) (seq_offset s) = (st1, None)" "script st1 (Pass # os)"
    using WriteAt_script(1) [OF assms(5) val refl] by blast
  obtain st2 where st2: "Sync st1 = (st2, None)" using Sync_script [OF st1(2)] by blast
  obtain w where w: "superblockWriteCopies (SuperblockCopies (sv_Cluster v)) = Some w"
    using assms(1) by (auto simp: writable_def)
  have "unat (seq_step s + 1) = i + 1"
    using assms(3,4) write_count_bounds(3,6) [OF w] by (subst unat_add_noof) (simp_all add: writing_def)
  then have "\<not> seq_step s + 1 < w" using assms(4) write_count_bounds(3) [OF w] by (simp add: word_less_nat_alt)
  then obtain store' s' sb' where a: "advancePersist (store\<lparr>ss_storage := st1\<rparr>) (syncNext s) sb = (store', s', sb', None)"
    "seq_phase s' = IOPhaseCompletion"
    using st2 w assms(2) by (simp add: advancePersist_def physical_def syncNext_def Let_def)
  have "advancePersist store s sb = (store\<lparr>ss_storage := st1\<rparr>, syncNext s, sb, None)"
    using s st1(1) by (simp add: advancePersist_def physical_def Let_def)
  moreover have "seq_phase (syncNext s) = IOPhaseSync" by (simp add: syncNext_def)
  moreover have "persist_loop f store' s' sb' = Some (store', None)" using a(2) by (subst persist_loop.simps) simp
  ultimately show ?thesis using s a by (simp add: persist_loop.simps [of "Suc _"] Let_def)
qed

lemma persist_loop_passes:
  assumes "writable v sb" "ss_validation store = v" "writing v sb i s" "i < write_count v"
    "script (ss_storage store) (replicate (2 * (write_count v - i)) Pass @ os)" "2 * (write_count v - i) \<le> fuel"
  shows "\<exists>store'. persist_loop fuel store s sb = Some (store', None)"
  using assms
proof (induction "write_count v - i" arbitrary: i store s sb fuel)
  case (Suc n)
  obtain f where fuel: "fuel = Suc (Suc f)" "2 * (write_count v - (i + 1)) \<le> f"
    using Suc.prems(4,6) by (cases fuel; cases "fuel - 1") auto
  have sc: "script (ss_storage store) (Pass # Pass # replicate (2 * n) Pass @ os)"
    using Suc.prems(5) unfolding Suc.hyps(2) [symmetric] by simp
  show ?case
  proof (cases "i + 1 = write_count v")
    case True
    then show ?thesis using round_last [OF Suc.prems(1-3) True sc] fuel(1) by blast
  next
    case False
    then have i: "i + 1 < write_count v" using Suc.prems(4) by simp
    obtain store2 s2 where r: "persist_loop (Suc (Suc f)) store s sb = persist_loop f store2 s2 (sealed sb)"
      "writing v sb (i + 1) s2" "script (ss_storage store2) (replicate (2 * n) Pass @ os)" "ss_validation store2 = v"
      using round_pass [OF Suc.prems(1-3) i sc, of f] by blast
    have "\<exists>store'. persist_loop f store2 s2 (sealed sb) = Some (store', None)"
    proof (rule Suc.hyps(1))
      show "n = write_count v - (i + 1)" using Suc.hyps(2) by simp
      then show "script (ss_storage store2) (replicate (2 * (write_count v - (i + 1))) Pass @ os)" using r(3) by simp
    qed (use Suc.prems(1) r i fuel(2) in simp_all)
    then show ?thesis using r(1) fuel(1) by simp
  qed
qed simp

lemma persist_loop_crash:
  assumes "writable v sb" "ss_validation store = v" "writing v sb i s" "i + j < write_count v"
    "script (ss_storage store) (replicate (2 * j) Pass @ Fault x 0 # os)" "2 * (write_count v - i) \<le> fuel"
  shows "\<exists>store'. persist_loop fuel store s sb = Some (store', Some (ErrJoin ErrStorage (ErrJoin ErrStorage x)))
    \<and> copied v sb i (i + j) (ss_storage store) (ss_storage store') \<and> ss_validation store' = v
    \<and> ss_current store' = ss_current store"
  using assms
proof (induction j arbitrary: i store s sb fuel)
  case 0
  have s: "seq_phase s = IOPhaseWrite" using 0(3) by (simp add: writing_def)
  have op: "script (ss_storage store) (Fault x 0 # os)" "fs_file (ss_storage store) \<noteq> None"
    using 0(5) by (auto simp: script_def)
  obtain st' where st': "WriteAt (ss_storage store) (seq_buffer s) (seq_offset s) = (st', Some (ErrJoin ErrStorage x))"
      "contents st' = contents (ss_storage store)"
    using WriteAt_script(2) [OF op(1) writing_valid [OF 0(1,3) op(2)] refl] by blast
  obtain f where f: "fuel = Suc f" using 0(4,6) by (cases fuel) auto
  have "persist_loop fuel store s sb = Some (store\<lparr>ss_storage := st'\<rparr>, Some (ErrJoin ErrStorage (ErrJoin ErrStorage x)))"
    unfolding f by (subst persist_loop.simps) (simp add: advancePersist_def physical_def s st'(1) Let_def)
  then show ?case using st'(2) 0(2) by (auto simp: copied_def disk_copy_def)
next
  case (Suc j)
  obtain f where fuel: "fuel = Suc (Suc f)" "2 * (write_count v - (i + 1)) \<le> f"
    using Suc.prems(4,6) by (cases fuel; cases "fuel - 1") auto
  have sc: "script (ss_storage store) (Pass # Pass # replicate (2 * j) Pass @ Fault x 0 # os)" "i + 1 < write_count v"
    using Suc.prems(4,5) by simp_all
  obtain store2 s2 where r: "persist_loop (Suc (Suc f)) store s sb = persist_loop f store2 s2 (sealed sb)"
    "writing v sb (i + 1) s2" "script (ss_storage store2) (replicate (2 * j) Pass @ Fault x 0 # os)"
    "ss_validation store2 = v" "ss_current store2 = ss_current store"
    "\<And>p. p \<noteq> slot v sb i \<Longrightarrow> disk_copy (ss_storage store2) p = disk_copy (ss_storage store) p"
    "disk_copy (ss_storage store2) (slot v sb i) = superblock_bytes sb (of_nat (slot v sb i))"
    using round_pass [OF Suc.prems(1-3) sc(2,1), of f] by blast
  have "\<exists>store'. persist_loop f store2 s2 (sealed sb) = Some (store', Some (ErrJoin ErrStorage (ErrJoin ErrStorage x)))
    \<and> copied v (sealed sb) (i + 1) (i + 1 + j) (ss_storage store2) (ss_storage store') \<and> ss_validation store' = v
    \<and> ss_current store' = ss_current store2"
    using Suc.prems(1,4) r(2-4) fuel(2) by (intro Suc.IH) simp_all
  then obtain store' where "persist_loop f store2 s2 (sealed sb) = Some (store', Some (ErrJoin ErrStorage (ErrJoin ErrStorage x)))"
    "copied v sb (i + 1) (i + 1 + j) (ss_storage store2) (ss_storage store')" "ss_validation store' = v"
    "ss_current store' = ss_current store2"
    unfolding copied_sealed by blast
  moreover from copied_step [OF this(2) _ r(6,7)] have "copied v sb i (i + Suc j) (ss_storage store) (ss_storage store')"
    by simp
  ultimately show ?case using r(1,5) fuel(1) by (intro exI [of _ store']) simp
qed

lemma rel_base:
  assumes "0 < (m :: nat)"
  shows "n + a + (m - n mod m) = a + m * (n div m + 1)"
proof -
  define q r where "q = n div m" and "r = n mod m"
  have "n = m * q + r" "r < m" using assms by (simp_all add: q_def r_def)
  then show ?thesis unfolding q_def [symmetric] r_def [symmetric] by simp
qed

lemma rel_slot:
  assumes "0 < m" "a < m"
  shows "rel m n ((n + a) mod m) = a"
proof -
  have "n + a + (m - n mod m) = a + m * (n div m + 1)" using rel_base [OF assms(1), of n a] by simp
  then have "(n + a + (m - n mod m)) mod m = a"
    using mod_mult_self2 [of a m "n div m + 1"] assms(2) by (simp only: mod_less)
  then show ?thesis by (simp add: rel_def mod_simps)
qed

lemma slot_rel:
  assumes "0 < m" "p < m"
  shows "(n + rel m n p) mod m = p"
proof -
  have "n + (p + (m - n mod m)) = p + m * (n div m + 1)" using rel_base [OF assms(1), of n p] by simp
  then have "(n + (p + (m - n mod m))) mod m = p"
    using mod_mult_self2 [of p m "n div m + 1"] assms(2) by (simp only: mod_less)
  then show ?thesis by (simp add: rel_def mod_simps)
qed

lemma slot_iff:
  assumes "unat (sb_Sequence sb) = n + 1" "p < copies_of v" "k < copies_of v"
  shows "p \<in> slot v sb ` {0..<k} \<longleftrightarrow> 1 \<le> rel (copies_of v) n p \<and> rel (copies_of v) n p \<le> k"
proof -
  let ?m = "copies_of v" and ?d = "rel (copies_of v) n p"
  have sl: "slot v sb j = (n + (j + 1)) mod ?m" for j by (simp add: slot_def assms(1) add.assoc add.commute)
  show ?thesis
  proof
    assume "p \<in> slot v sb ` {0..<k}"
    then obtain j where j: "p = (n + (j + 1)) mod ?m" "j < k" using sl by auto
    then have "?d = j + 1" using rel_slot [of ?m "j + 1" n] assms(3) by simp
    then show "1 \<le> ?d \<and> ?d \<le> k" using j(2) by simp
  next
    assume d: "1 \<le> ?d \<and> ?d \<le> k"
    have "p = slot v sb (?d - 1)" unfolding sl using d slot_rel [of ?m p n] assms(2) by simp
    then show "p \<in> slot v sb ` {0..<k}" using d by (intro image_eqI [of _ _ "?d - 1"]) auto
  qed
qed

lemma layout_copied:
  assumes "holds_layout v hist n 0 before" "copied v (hist (n + 1)) 0 k before after"
    and "unat (sb_Sequence (hist (n + 1))) = n + 1" "k < copies_of v"
  shows "holds_layout v hist n k after"
  unfolding holds_layout_def
proof (intro allI impI)
  fix p
  assume p: "p < copies_of v"
  let ?d = "rel (copies_of v) n p"
  have "disk_copy after p = (if 1 \<le> ?d \<and> ?d \<le> k then superblock_bytes (hist (n + 1)) (of_nat p) else disk_copy before p)"
    using assms(2) slot_iff [OF assms(3) p assms(4)] by (simp add: copied_def)
  moreover have "disk_copy before p = superblock_bytes (layout (copies_of v) (write_count v) hist n 0 ?d) (of_nat p)"
    using assms(1) p by (simp add: holds_layout_def)
  ultimately show "disk_copy after p = superblock_bytes (layout (copies_of v) (write_count v) hist n k ?d) (of_nat p)"
    by (auto simp: layout_def)
qed

lemma layout_next:
  assumes "0 < m" "p < m" "w < m" "0 < w"
  shows "layout m w hist n w (rel m n p) = layout m w hist (n + 1) 0 (rel m (n + 1) p)"
proof -
  let ?d = "rel m n p"
  have d: "?d < m" using assms(1) by (simp add: rel_def)
  have p: "(n + ?d) mod m = p" using slot_rel [OF assms(1,2)] .
  have e: "rel m (n + 1) p = (if ?d = 0 then m - 1 else ?d - 1)"
  proof (cases "?d = 0")
    case True
    then have "p = (n + 1 + (m - 1)) mod m" using p assms(1) by simp
    then show ?thesis using rel_slot [of m "m - 1" "n + 1"] assms(1) True by simp
  next
    case False
    then have "p = (n + 1 + (?d - 1)) mod m" using p by simp
    then show ?thesis using rel_slot [of m "?d - 1" "n + 1"] d False assms(1) by simp
  qed
  show ?thesis unfolding e using d assms(3,4) by (auto simp: layout_def)
qed

lemma beginPersist_ok:
  assumes "writable v sb" "ss_validation store = v" "\<not> ss_ioActive store" "follows (cand_Superblock (ss_current store)) sb"
  shows "\<exists>s. beginPersist store sb = Inr (store\<lparr>ss_ioActive := True\<rparr>, s, sealed sb) \<and> writing v sb 0 s"
proof -
  let ?s = "zeroSequence\<lparr>seq_index := sb_Sequence sb mod SuperblockCopies (sv_Cluster v)\<rparr>"
  obtain s where "prepareCopy store ?s sb = Inr (s, sealed sb)" "writing v sb 0 s"
    using prepareCopy_ok [OF assms(1,2), of ?s] by (auto simp: zeroSequence_def)
  then show ?thesis
    using assms by (auto simp: beginPersist_def Let_def follows_def writable_def)
qed

lemma stored_write:
  assumes "stored_history v hist n"
  obtains w q where "superblockWriteCopies (SuperblockCopies (sv_Cluster v)) = Some w"
    "superblockOpenQuorum (SuperblockCopies (sv_Cluster v)) = Some q" "write_count v = unat w"
    "writable v (hist (n + 1))" "follows (hist n) (hist (n + 1))" "sealed (hist (n + 1)) = hist (n + 1)"
    "unat (sb_Sequence (hist (n + 1))) = n + 1"
proof -
  have h: "history hist (n + write_count v - copies_of v) (n + 1)" "2 + copies_of v \<le> n + write_count v"
    "\<And>m. n + write_count v - copies_of v \<le> m \<Longrightarrow> m \<le> n + 1 \<Longrightarrow> writable v (hist m) \<and> sealed (hist m) = hist m"
    using assms unfolding stored_history_def by blast+
  have new: "writable v (hist (n + 1))" "sealed (hist (n + 1)) = hist (n + 1)"
    using h(3) [of "n + 1"] write_count_le [of v] by auto
  then obtain w where w: "superblockWriteCopies (SuperblockCopies (sv_Cluster v)) = Some w" by (auto simp: writable_def)
  obtain q where "superblockOpenQuorum (SuperblockCopies (sv_Cluster v)) = Some q"
    using write_copies_cases [OF w] by (auto simp: superblockOpenQuorum_def)
  moreover have "follows (hist n) (hist (n + 1))" using hist_follows [OF h(1), of n] write_count_le [of v] by simp
  moreover have "unat (sb_Sequence (hist (n + 1))) = n + 1"
    using hist_own [OF h(1), of "n + 1"] h(1) write_count_le [of v] unat_of_nat64 [of "n + 1"]
    unfolding history_def by auto
  ultimately show ?thesis using that w new write_count_bounds(3) [OF w] by blast
qed

lemma Persist_passes:
  assumes "stored_history v hist n" "ss_validation store = v" "\<not> ss_ioActive store"
    "cand_Superblock (ss_current store) = hist n" "script (ss_storage store) (replicate (2 * write_count v) Pass @ os)"
  shows "\<exists>store'. Persist store (hist (n + 1)) = Some (store', None)"
proof -
  obtain w q where wq: "superblockWriteCopies (SuperblockCopies (sv_Cluster v)) = Some w" "write_count v = unat w"
    "writable v (hist (n + 1))" "follows (hist n) (hist (n + 1))" "sealed (hist (n + 1)) = hist (n + 1)"
    using stored_write [OF assms(1)] by metis
  note b = write_count_bounds [OF wq(1)]
  obtain s where s: "beginPersist store (hist (n + 1)) = Inr (store\<lparr>ss_ioActive := True\<rparr>, s, hist (n + 1))"
    "writing v (hist (n + 1)) 0 s"
    using beginPersist_ok [OF wq(3) assms(2,3)] wq(4,5) assms(4) by auto
  have "2 * (write_count v - 0) \<le> 10" "0 < write_count v" using wq(2) b by simp_all
  then obtain store' where "persist_loop 10 (store\<lparr>ss_ioActive := True\<rparr>) s (hist (n + 1)) = Some (store', None)"
    using persist_loop_passes [OF wq(3), of "store\<lparr>ss_ioActive := True\<rparr>" 0 s os 10] s(2) assms(2,5) by auto
  then show ?thesis using s(1) by (simp add: Persist_def)
qed

definition open_count :: "SuperblockValidation \<Rightarrow> nat" where
  "open_count v = (case superblockOpenQuorum (SuperblockCopies (sv_Cluster v)) of Some q \<Rightarrow> unat q | None \<Rightarrow> 0)"

section \<open>An example\<close>

primrec example_history :: "u64 \<Rightarrow> nat \<Rightarrow> Superblock" where
  "example_history copies 0 = sealed (example_superblock copies 0 zeroID)"
| "example_history copies (Suc m) =
     sealed (example_superblock copies (of_nat (Suc m)) (sb_Checksum (example_history copies m)))"

definition example_store :: "u64 \<Rightarrow> nat \<Rightarrow> nat \<Rightarrow> outcome list \<Rightarrow> SuperblockStore" where
  "example_store copies w n os = \<lparr>ss_storage = \<lparr>fs_file = Some \<lparr>cells = (\<lambda>i. superblock_bytes
       (layout (unat copies) w (example_history copies) n 0 (rel (unat copies) n (i div 8192))) (of_nat (i div 8192)) ! (i mod 8192)),
       disk_size = 8192 * unat copies, outcomes = os\<rparr>, fs_direct = True, fs_closeErr = None\<rparr>,
     ss_validation = example_validation copies,
     ss_current = \<lparr>cand_Superblock = example_history copies n, PhysicalIndex = 0, MisdirectedIndex = False\<rparr>,
     ss_ioActive = False\<rparr>"

lemma example_history_ok:
  assumes "copies \<in> {4, 6, 8}" "0 < m" "m < 2 ^ 64"
  shows "writable (example_validation copies) (example_history copies m)"
    "sealed (example_history copies m) = example_history copies m"
    "sb_Sequence (example_history copies m) = of_nat m"
    "follows (example_history copies m) (example_history copies (m + 1))"
proof -
  obtain k where k: "m = Suc k" using assms(2) by (cases m) auto
  have len: "length (sb_Checksum (example_history copies j)) = 16" for j by (cases j) (simp_all add: superblock_checksum_def)
  have ne: "(of_nat (Suc k) :: u64) \<noteq> 0"
    using unat_of_nat64 [of m] assms(2,3) unfolding k by (metis unsigned_0 less_numeral_extra(3))
  show "writable (example_validation copies) (example_history copies m)"
    using example_superblock_ok [OF assms(1) ne len [of k]] assms(1) unfolding k writable_def example_history.simps sealed_fields
    by (auto simp: example_validation_def superblockWriteCopies_def)
  show "sealed (example_history copies m) = example_history copies m" by (simp add: k)
  have seq: "sb_Sequence (example_history copies j) = of_nat j" for j by (cases j) (simp_all add: example_superblock_def)
  show "sb_Sequence (example_history copies m) = of_nat m" by (rule seq)
  have st: "sb_State (example_history copies j) = sb_State (example_superblock copies 0 zeroID)" for j
    by (cases j) (simp_all add: example_superblock_def)
  have par: "sb_ParentChecksum (example_history copies (m + 1)) = sb_Checksum (example_history copies m)"
    by (simp add: example_superblock_def)
  show "follows (example_history copies m) (example_history copies (m + 1))"
    unfolding follows_def seq st par by (simp add: durableStateRegressed_def)
qed

lemma example_stored:
  assumes "copies \<in> {4, 6, 8}" "unat copies + 2 \<le> n" "n < 1000"
  shows "stored_history (example_validation copies) (example_history copies) n"
proof -
  let ?v = "example_validation copies"
  have m: "copies_of ?v = unat copies" by (simp add: example_validation_def)
  have lo: "0 < m" "m < 2 ^ 64" if "n + write_count ?v - copies_of ?v \<le> m" "m \<le> n + 1" for m
    using that assms(2,3) m by simp_all
  have "2 + copies_of ?v \<le> n + write_count ?v" using assms(2) m by simp
  moreover have "history (example_history copies) (n + write_count ?v - copies_of ?v) (n + 1)"
    unfolding history_def using example_history_ok(3,4) [OF assms(1)] lo assms(3) by auto
  moreover have "BlockBase (sv_Cluster ?v) \<noteq> None" using example_base [OF assms(1)] by auto
  ultimately show ?thesis unfolding stored_history_def using example_history_ok(1,2) [OF assms(1)] lo by blast
qed

lemma example_store_layout:
  assumes "write_count (example_validation copies) = w"
  shows "holds_layout (example_validation copies) (example_history copies) n 0 (ss_storage (example_store copies w n os))"
  unfolding holds_layout_def
proof (intro allI impI)
  fix p
  let ?b = "superblock_bytes (layout (unat copies) w (example_history copies) n 0 (rel (unat copies) n p)) (of_nat p)"
  have "disk_copy (ss_storage (example_store copies w n os)) p = map (\<lambda>i. ?b ! i) [0..<8192]"
    by (simp add: disk_copy_def contents_def example_store_def disk_read_def)
  also have "\<dots> = ?b" using map_nth [of ?b] by simp
  finally show "disk_copy (ss_storage (example_store copies w n os)) p = superblock_bytes (layout (copies_of (example_validation copies))
      (write_count (example_validation copies)) (example_history copies) n 0 (rel (copies_of (example_validation copies)) n p)) (of_nat p)"
    using assms by (simp add: example_validation_def)
qed

lemma example_counts:
  "write_count (example_validation 6) = 4" "open_count (example_validation 6) = 3"
  "write_count (example_validation 4) = 3"
  by (simp_all add: write_count_def open_count_def example_validation_def superblockWriteCopies_def superblockOpenQuorum_def)

section \<open>Properties\<close>

text \<open>
  C28: \<^verbatim>\<open>Persist\<close> returns for every superblock, whatever the outcomes of the calls to the operating
  system: the loop over its phases ends after at most ten of them.
\<close>

theorem Persist_returns:
  assumes "superblock_wf sb"
  shows "\<exists>store' e. Persist store sb = Some (store', e)"
proof (cases "beginPersist store sb")
  case (Inr r)
  let ?v = "ss_validation store" and ?s = "zeroSequence\<lparr>seq_index := sb_Sequence sb mod SuperblockCopies (sv_Cluster (ss_validation store))\<rparr>"
  have w: "writable ?v sb"
    using Inr assms by (auto simp: beginPersist_def Let_def writable_def bind_result_Inr_conv split: if_splits)
  obtain s where s: "prepareCopy store ?s sb = Inr (s, sealed sb)" "writing ?v sb 0 s"
    using prepareCopy_ok [OF w refl, of ?s] by (auto simp: zeroSequence_def)
  have r: "r = (store\<lparr>ss_ioActive := True\<rparr>, s, sealed sb)"
    using Inr s(1) by (auto simp: beginPersist_def Let_def bind_result_Inr_conv split: if_splits)
  obtain n where n: "superblockWriteCopies (SuperblockCopies (sv_Cluster ?v)) = Some n" using w by (auto simp: writable_def)
  have "writable ?v (sealed sb)" "writing ?v (sealed sb) 0 s"
    using w s(2) by (simp_all add: writable_def writing_def slot_def)
  moreover have "0 < write_count ?v" "2 * (write_count ?v - 0) \<le> 10" using write_count_bounds [OF n] by simp_all
  ultimately obtain store' e where "persist_loop 10 (store\<lparr>ss_ioActive := True\<rparr>) s (sealed sb) = Some (store', e)"
    using persist_loop_result [of ?v "sealed sb" "store\<lparr>ss_ioActive := True\<rparr>" 0 s 10] by auto
  then show ?thesis using Inr r by (auto simp: Persist_def)
qed (simp add: Persist_def)

theorem Persist_returns_witness:
  "\<exists>store' e. Persist (example_store 4 3 9 [Pass, Fault ErrStorage 0]) (example_history 4 10) = Some (store', e)"
proof -
  have "superblock_wf (example_history 4 10)" using example_history_ok(1) [of 4 10] by (simp add: writable_def)
  then show ?thesis by (rule Persist_returns)
qed



text \<open>
  C13: an update that reports success has written its copies; the copies are then as a run of
  successful updates leaves them, with the new superblock as the current one, and opening the
  store selects the new superblock.
\<close>

theorem Persist_complete:
  assumes "stored_history v hist n" "holds_layout v hist n 0 (ss_storage store)"
    and "ss_validation store = v" "\<not> ss_ioActive store" "cand_Superblock (ss_current store) = hist n"
    and "Persist store (hist (n + 1)) = Some (store', None)"
  shows "holds_layout v hist (n + 1) 0 (ss_storage store') \<and> cand_Superblock (ss_current store') = hist (n + 1)
    \<and> ss_validation store' = v \<and> \<not> ss_ioActive store'"
proof -
  obtain w q where wq: "superblockWriteCopies (SuperblockCopies (sv_Cluster v)) = Some w"
    "superblockOpenQuorum (SuperblockCopies (sv_Cluster v)) = Some q" "write_count v = unat w"
    "writable v (hist (n + 1))" "follows (hist n) (hist (n + 1))" "sealed (hist (n + 1)) = hist (n + 1)"
    "unat (sb_Sequence (hist (n + 1))) = n + 1"
    using stored_write [OF assms(1)] by blast
  note b = write_count_bounds [OF wq(1)]
  obtain s where s: "beginPersist store (hist (n + 1)) = Inr (store\<lparr>ss_ioActive := True\<rparr>, s, hist (n + 1))"
    "writing v (hist (n + 1)) 0 s"
    using beginPersist_ok [OF wq(4) assms(3,4)] wq(5,6) assms(5) by auto
  have "2 * (write_count v - 0) \<le> 10" "0 < write_count v" using wq(3) b by simp_all
  then obtain store1 e k where p: "persist_loop 10 (store\<lparr>ss_ioActive := True\<rparr>) s (hist (n + 1)) = Some (store1, e)"
    "written v (hist (n + 1)) 0 k (ss_storage store) (ss_storage store1)" "ss_validation store1 = v"
    "e = None \<Longrightarrow> k = write_count v \<and> cand_Superblock (ss_current store1) = hist (n + 1)"
    using persist_loop_result [OF wq(4), of "store\<lparr>ss_ioActive := True\<rparr>" 0 s 10] s(2) assms(3) wq(6)
    by (auto split: if_splits)
  have "Some (store1\<lparr>ss_ioActive := False\<rparr>, e) = Some (store', None)"
    using s(1) p(1) assms(6) by (simp add: Persist_def)
  then have st: "store' = store1\<lparr>ss_ioActive := False\<rparr>" "k = write_count v"
      "cand_Superblock (ss_current store1) = hist (n + 1)" using p(4) by auto
  have "copied v (hist (n + 1)) 0 (write_count v) (ss_storage store) (ss_storage store1)"
    using p(2) unfolding st(2) by (auto simp: copied_def written_def)
  then have "holds_layout v hist n (write_count v) (ss_storage store1)"
    using layout_copied [OF assms(2) _ wq(7)] wq(3) b(4) by simp
  then have "holds_layout v hist (n + 1) 0 (ss_storage store1)"
    using layout_next [of "copies_of v" _ "write_count v" hist n] wq(3) b by (simp add: holds_layout_def)
  then show ?thesis using st p(3) by simp
qed

theorem Persist_complete_witness:
  "\<exists>store'. Persist (example_store 4 3 9 (replicate 6 Pass)) (example_history 4 10) = Some (store', None)
    \<and> cand_Superblock (ss_current store') = example_history 4 10"
proof -
  have hyps: "stored_history (example_validation 4) (example_history 4) 9"
    "holds_layout (example_validation 4) (example_history 4) 9 0 (ss_storage (example_store 4 3 9 (replicate 6 Pass)))"
    "ss_validation (example_store 4 3 9 (replicate 6 Pass)) = example_validation 4" "\<not> ss_ioActive (example_store 4 3 9 (replicate 6 Pass))"
    "cand_Superblock (ss_current (example_store 4 3 9 (replicate 6 Pass))) = example_history 4 9"
    using example_stored [of 4 9] example_store_layout [OF example_counts(3)] by (simp_all add: example_store_def)
  obtain store' where p: "Persist (example_store 4 3 9 (replicate 6 Pass)) (example_history 4 (9 + 1)) = Some (store', None)"
    using Persist_passes [OF hyps(1,3-5), of "[]"] by (auto simp: example_counts script_def example_store_def)
  show ?thesis using Persist_complete [OF hyps p] p by auto
qed

end
