(* ===== verification/Prepare_Header.thy ===== *)
theory Prepare_Header
  imports Config
begin

text \<open>
  The fields of a prepare header as the replica reads them, and the count of a set of replicas
  kept as bits (\<^verbatim>\<open>replication/replica.go\<close>).
\<close>

definition prepareOp :: "Header \<Rightarrow> Op" where
  "prepareOp header = get64 (gslice 96 104 (Fields header))"

definition prepareCommit :: "Header \<Rightarrow> Op" where
  "prepareCommit header = get64 (gslice 104 112 (Fields header))"

definition prepareTimestamp :: "Header \<Rightarrow> u64" where
  "prepareTimestamp header = get64 (gslice 112 120 (Fields header))"

definition prepareRequest :: "Header \<Rightarrow> RequestNo" where
  "prepareRequest header = get32 (gslice 120 124 (Fields header))"

definition prepareOperation :: "Header \<Rightarrow> Operation" where
  "prepareOperation header = Fields header ! 124"

definition prepareClient :: "Header \<Rightarrow> ClientID" where
  "prepareClient header = gslice 80 96 (Fields header)"

definition prepareRequestChecksum :: "Header \<Rightarrow> Checksum" where
  "prepareRequestChecksum header = gslice 32 48 (Fields header)"

definition prepareParent :: "Header \<Rightarrow> Checksum" where
  "prepareParent header = gslice 0 16 (Fields header)"

text \<open>The number of bits set, as the standard library counts them.\<close>

definition countAckBits :: "u16 \<Rightarrow> u8" where
  "countAckBits val = of_nat (length (filter (bit val) [0..<16]))"

text \<open>The replicas whose bit is set.\<close>

definition voters :: "u16 \<Rightarrow> nat set" where
  "voters val = {i. i < 16 \<and> bit val i}"

lemma countAckBits_voters: "unat (countAckBits val) = card (voters val)"
proof -
  have "voters val = set (filter (bit val) [0..<16])" by (auto simp: voters_def)
  then have "card (voters val) = length (filter (bit val) [0..<16])"
    by (simp only: distinct_card [OF distinct_filter [OF distinct_upt]])
  moreover have "length (filter (bit val) [0..<16]) \<le> 16" by (rule le_trans [OF length_filter_le]) simp
  ultimately show ?thesis by (simp add: countAckBits_def unsigned_of_nat take_bit_nat_eq_self)
qed

lemma voters_set: "i < 16 \<Longrightarrow> voters (val OR push_bit i 1) = insert i (voters val)"
  by (auto simp: voters_def bit_simps)

lemma voters_0 [simp]: "voters 0 = {}"
  by (simp add: voters_def)

lemma voters_test: "i < 16 \<Longrightarrow> val AND push_bit i 1 \<noteq> 0 \<longleftrightarrow> i \<in> voters val"
  by (simp add: voters_def push_bit_of_1 and_exp_eq_0_iff_not_bit)

end
