(* ===== verification/Wal.thy ===== *)
theory Wal
  imports Prepare_Header Checkpoint Io_Sequence
begin

unbundle bit_operations_syntax

text \<open>
  The write-ahead log of \<^verbatim>\<open>replication/wal.go\<close> and \<^verbatim>\<open>replication/wal_recovery.go\<close>: a ring of
  prepare slots on disk with a ring of redundant headers. Appending writes the prepare, syncs,
  writes the sector of the header ring and syncs again; recovery reads both rings, classifies
  each slot and finds the end of the hash chain from the checkpoint.

  Locking is not modelled: every operation of the source holds the log's mutex. Allocating the
  aligned buffers of \<^verbatim>\<open>NewWAL\<close> does not fail in the model.
\<close>

section \<open>Layout\<close>

record WALLayout =
  HeaderBase :: u64
  HeaderSize :: u64
  PrepareBase :: u64
  PrepareStride :: u64
  PrepareSize :: u64
  ReplyBase :: u64
  ReplyStride :: u64
  ReplySize :: u64
  layout_BlockBase :: u64

definition DeriveWALLayout :: "ClusterConfig \<Rightarrow> WALLayout option" where
  "DeriveWALLayout cfg = do {
     superblockSize \<leftarrow> checkedMul (SuperblockCopies cfg) SuperblockBytes;
     headerBytes \<leftarrow> checkedMul (JournalSlots cfg) HeaderBytes;
     headerSize \<leftarrow> checkedAlignUp headerBytes SectorSize;
     prepareBase \<leftarrow> checkedAdd superblockSize headerSize;
     prepareStride \<leftarrow> checkedAlignUp (cfg_MessageSizeMax cfg) SectorSize;
     prepareSize \<leftarrow> checkedMul (JournalSlots cfg) prepareStride;
     replyBase \<leftarrow> checkedAdd prepareBase prepareSize;
     replySize \<leftarrow> checkedMul (ClientsMax cfg) prepareStride;
     endOffset \<leftarrow> checkedAdd replyBase replySize;
     blockBase \<leftarrow> checkedAlignUp endOffset (BlockSize cfg);
     Some \<lparr>HeaderBase = superblockSize, HeaderSize = headerSize, PrepareBase = prepareBase,
       PrepareStride = prepareStride, PrepareSize = prepareSize, ReplyBase = replyBase,
       ReplyStride = prepareStride, ReplySize = replySize, layout_BlockBase = blockBase\<rparr>
   }"

section \<open>The log\<close>

record WALSlot =
  Authoritative :: bytes
  Redundant :: bytes
  PrepareChecksum :: Checksum
  slot_Op :: Op
  slot_Generation :: u64
  Inhabited :: bool
  Dirty :: bool
  Faulty :: bool

record WAL =
  wal_storage :: FileStorage
  wal_config :: ClusterConfig
  wal_group :: GroupID
  wal_memberCount :: u8
  wal_layout :: WALLayout
  slots :: "WALSlot list"
  headerRing :: bytes
  prepareBuffer :: bytes
  wal_ioActive :: bool

definition zeroSlot :: WALSlot where
  "zeroSlot = \<lparr>Authoritative = replicate 256 0, Redundant = replicate 256 0, PrepareChecksum = zeroID,
     slot_Op = 0, slot_Generation = 0, Inhabited = False, Dirty = False, Faulty = False\<rparr>"

definition reservedHeader :: "GroupID \<Rightarrow> Op \<Rightarrow> Header" where
  "reservedHeader grp physicalSlot = zeroHeader\<lparr>Group := grp, Protocol := ProtocolVersion,
     Command := CommandPrepare, Author := 0,
     Fields := (copy_at 96 104 (put64 physicalSlot) (Fields zeroHeader))[124 := OperationReserved]\<rparr>"

definition ReservedPrepareHeader :: "GroupID \<Rightarrow> Op \<Rightarrow> u8 \<Rightarrow> u32 \<Rightarrow> bytes result" where
  "ReservedPrepareHeader grp physicalSlot memberCount messageSizeMax =
     bind_result (SealFrame (replicate 256 0) (reservedHeader grp physicalSlot)) (\<lambda>(encoded, header).
       if snd (DecodeHeader encoded grp messageSizeMax memberCount) \<noteq> RejectNone then Inl ErrInvalidWAL
       else Inr encoded)"

abbreviation header_at :: "nat \<Rightarrow> bytes \<Rightarrow> bytes" where
  "header_at index ring \<equiv> gslice (index * 256) ((index + 1) * 256) ring"

abbreviation put_header :: "nat \<Rightarrow> bytes \<Rightarrow> bytes \<Rightarrow> bytes" where
  "put_header index encoded ring \<equiv> copy_at (index * 256) ((index + 1) * 256) encoded ring"

fun reserve_slots :: "WAL \<Rightarrow> nat list \<Rightarrow> WAL result" where
  "reserve_slots wal [] = Inr wal"
| "reserve_slots wal (index # rest) =
     bind_result (ReservedPrepareHeader (wal_group wal) (of_nat index) (wal_memberCount wal)
         (ucast (cfg_MessageSizeMax (wal_config wal)))) (\<lambda>reserved.
       reserve_slots (wal\<lparr>slots := (slots wal)[index := (slots wal ! index)\<lparr>Authoritative := reserved, Redundant := reserved\<rparr>],
         headerRing := put_header index reserved (headerRing wal)\<rparr>) rest)"

definition NewWAL :: "FileStorage \<Rightarrow> ClusterConfig \<Rightarrow> GroupID \<Rightarrow> u8 \<Rightarrow> WAL result" where
  "NewWAL storage cfg grp memberCount =
     (case DeriveWALLayout cfg of None \<Rightarrow> Inl ErrInvalidWAL
      | Some layout \<Rightarrow>
        if JournalSlots cfg > MaxInt64 \<or> cfg_MessageSizeMax cfg > MaxInt64 \<or> memberCount = 0 then Inl ErrInvalidWAL
        else reserve_slots \<lparr>wal_storage = storage, wal_config = cfg, wal_group = grp, wal_memberCount = memberCount,
            wal_layout = layout, slots = replicate (unat (JournalSlots cfg)) zeroSlot,
            headerRing = replicate (unat (HeaderSize layout)) 0,
            prepareBuffer = replicate (unat (PrepareStride layout)) 0, wal_ioActive = False\<rparr>
          [0..<unat (JournalSlots cfg)])"

definition prepareOffset :: "WAL \<Rightarrow> u64 \<Rightarrow> u64 option" where
  "prepareOffset wal slot = do {
     offset \<leftarrow> checkedMul slot (PrepareStride (wal_layout wal));
     checkedAdd (PrepareBase (wal_layout wal)) offset
   }"

section \<open>Appending\<close>

abbreviation wal_slot :: "WAL \<Rightarrow> u64 \<Rightarrow> WALSlot" where
  "wal_slot wal index \<equiv> slots wal ! unat index"

abbreviation put_slot :: "u64 \<Rightarrow> WALSlot \<Rightarrow> WAL \<Rightarrow> WAL" where
  "put_slot index s wal \<equiv> wal\<lparr>slots := (slots wal)[unat index := s]\<rparr>"

abbreviation wal_DecodeHeader :: "WAL \<Rightarrow> bytes \<Rightarrow> Header \<times> RejectReason" where
  "wal_DecodeHeader wal encoded \<equiv>
     DecodeHeader encoded (wal_group wal) (ucast (cfg_MessageSizeMax (wal_config wal))) (wal_memberCount wal)"

abbreviation wal_DecodeFrame :: "WAL \<Rightarrow> bytes \<Rightarrow> Header \<times> bytes \<times> RejectReason" where
  "wal_DecodeFrame wal frame \<equiv>
     DecodeFrame frame (wal_group wal) (ucast (cfg_MessageSizeMax (wal_config wal))) (wal_memberCount wal)"

definition beginAppend :: "WAL \<Rightarrow> bytes \<Rightarrow> Op \<Rightarrow> WAL \<times> ioSequence result" where
  "beginAppend wal frame reusableThrough =
     (if wal_ioActive wal then (wal, Inl ErrIOBackpressure)
      else let (header, _, reason) = wal_DecodeFrame wal frame
      in if reason \<noteq> RejectNone \<or> Command header \<noteq> CommandPrepare then (wal, Inl ErrInvalidWAL)
      else let op = get64 (gslice 96 104 (Fields header)); index = op mod JournalSlots (wal_config wal);
               s = wal_slot wal index
      in if Inhabited s \<and> slot_Op s \<noteq> op \<and> slot_Op s > reusableThrough then (wal, Inl ErrWALSlotUnsafe)
      else let s = s\<lparr>slot_Generation := slot_Generation s + 1, Authoritative := gslice 0 256 frame,
                     slot_Op := op, Dirty := True\<rparr>;
               n = length (prepareBuffer wal);
               wal = (put_slot index s wal)\<lparr>prepareBuffer := copy_at 0 n frame (replicate n 0)\<rparr>
      in case prepareOffset wal index of None \<Rightarrow> (wal, Inl ErrInvalidWAL)
         | Some offset \<Rightarrow>
           (wal\<lparr>wal_ioActive := True\<rparr>,
            Inr \<lparr>seq_phase = IOPhaseWrite, seq_buffer = prepareBuffer wal, seq_offset = offset, seq_size = of_nat n,
              seq_step = 0, seq_index = index, seq_generation = slot_Generation s, seq_checksum = HeaderChecksum header\<rparr>))"

definition advanceAppend :: "WAL \<Rightarrow> ioSequence \<Rightarrow> bytes \<Rightarrow> WAL \<times> ioSequence \<times> err option" where
  "advanceAppend wal sequence frame =
     (let s = wal_slot wal (seq_index sequence);
          (storage, sequence, e) = physical (wal_storage wal) sequence; wal = wal\<lparr>wal_storage := storage\<rparr>
      in case e of Some e \<Rightarrow> (wal, sequence, Some (ErrJoin ErrStorage e))
      | None \<Rightarrow>
        if seq_step sequence = 0 \<or> seq_step sequence = 2
        then (wal, (syncNext sequence)\<lparr>seq_step := seq_step sequence + 1\<rparr>, None)
        else if seq_step sequence = 1
        then let headerOffset = seq_index sequence * HeaderBytes;
                 wal = wal\<lparr>headerRing := copy_at (unat headerOffset) (unat (headerOffset + HeaderBytes)) (gslice 0 256 frame)
                             (headerRing wal)\<rparr>;
                 sectorOffset = headerOffset AND NOT (SectorSize - 1)
             in (wal, sequence\<lparr>seq_phase := IOPhaseWrite,
                   seq_buffer := gslice (unat sectorOffset) (unat (sectorOffset + SectorSize)) (headerRing wal),
                   seq_offset := HeaderBase (wal_layout wal) + sectorOffset, seq_size := SectorSize,
                   seq_step := seq_step sequence + 1\<rparr>, None)
        else if seq_step sequence = 3
        then if slot_Generation s \<noteq> seq_generation sequence \<or> Authoritative s \<noteq> gslice 0 256 frame
             then (wal, sequence, Some ErrInvalidWAL)
             else (put_slot (seq_index sequence) (s\<lparr>Redundant := Authoritative s, PrepareChecksum := seq_checksum sequence,
                     Inhabited := True, Dirty := False, Faulty := False\<rparr>) wal,
                   sequence\<lparr>seq_phase := IOPhaseCompletion, seq_step := seq_step sequence + 1\<rparr>, None)
        else (wal, sequence\<lparr>seq_step := seq_step sequence + 1\<rparr>, None))"

text \<open>
  The loop of \<^verbatim>\<open>Append\<close> with a bound on the number of rounds; \<open>None\<close> means that the bound was too
  small.
\<close>

fun append_loop :: "nat \<Rightarrow> WAL \<Rightarrow> ioSequence \<Rightarrow> bytes \<Rightarrow> (WAL \<times> err option) option" where
  "append_loop fuel wal sequence frame =
     (if seq_phase sequence = IOPhaseCompletion then Some (wal, None)
      else case fuel of 0 \<Rightarrow> None
      | Suc fuel \<Rightarrow>
        (let (wal, sequence, e) = advanceAppend wal sequence frame
         in if e \<noteq> None then Some (wal, e) else append_loop fuel wal sequence frame))"

declare append_loop.simps [simp del]

definition Append :: "WAL \<Rightarrow> bytes \<Rightarrow> Op \<Rightarrow> (WAL \<times> err option) option" where
  "Append wal frame reusableThrough =
     (case beginAppend wal frame reusableThrough of
        (wal, Inl e) \<Rightarrow> Some (wal, Some e)
      | (wal, Inr sequence) \<Rightarrow>
          map_option (\<lambda>(wal, e). (wal\<lparr>wal_ioActive := False\<rparr>, e)) (append_loop 4 wal sequence frame))"

section \<open>Classification of slots\<close>

datatype WALCandidateKind = WALCandidateInvalid | WALCandidateReserved | WALCandidateOrdinary

record WALCandidate =
  wc_Kind :: WALCandidateKind
  wc_Op :: Op
  wc_View :: View
  wc_HeaderChecksum :: Checksum
  wc_BodyChecksum :: Checksum

datatype WALRecoveryDecision =
    WALRecoveryClean | WALRecoveryCleanEmpty | WALRecoveryLocalRepair | WALRecoveryRemoteRepair
  | WALRecoveryTruncate | WALRecoveryFail

record WALRecoveryView =
  rv_LogView :: View
  rv_HeadOp :: Op

record WALRecoveryContext =
  PhysicalSlot :: u64
  ctx_JournalSlots :: u64
  RetainedMin :: Op
  PrepareMax :: Op
  UntrustedMax :: Op
  Installed :: WALRecoveryView

definition candidatesEqual :: "WALCandidate \<Rightarrow> WALCandidate \<Rightarrow> bool" where
  "candidatesEqual left right \<longleftrightarrow> wc_Op left = wc_Op right \<and> wc_View left = wc_View right
     \<and> wc_HeaderChecksum left = wc_HeaderChecksum right \<and> wc_BodyChecksum left = wc_BodyChecksum right"

definition retainedOrdinary :: "WALCandidate \<Rightarrow> WALRecoveryContext \<Rightarrow> bool" where
  "retainedOrdinary candidate ctx \<longleftrightarrow>
     wc_Kind candidate = WALCandidateOrdinary \<and> wc_Op candidate \<ge> RetainedMin ctx \<and> wc_Op candidate \<le> PrepareMax ctx"

definition futureWALCandidate :: "WALCandidate \<Rightarrow> WALRecoveryContext \<Rightarrow> bool" where
  "futureWALCandidate candidate ctx \<longleftrightarrow> wc_Kind candidate = WALCandidateOrdinary \<and> wc_Op candidate > PrepareMax ctx"

definition impossibleWALCandidate :: "WALCandidate \<Rightarrow> WALRecoveryContext \<Rightarrow> bool" where
  "impossibleWALCandidate candidate ctx \<longleftrightarrow> wc_Kind candidate = WALCandidateOrdinary
     \<and> (ctx_JournalSlots ctx = 0 \<or> wc_Op candidate mod ctx_JournalSlots ctx \<noteq> PhysicalSlot ctx)"

definition obsoleteWALCandidate :: "WALCandidate \<Rightarrow> WALRecoveryView \<Rightarrow> bool" where
  "obsoleteWALCandidate candidate installed \<longleftrightarrow> wc_Kind candidate = WALCandidateOrdinary
     \<and> wc_Op candidate > rv_HeadOp installed \<and> wc_View candidate < rv_LogView installed"

definition ClassifyWALSlot :: "WALCandidate \<Rightarrow> WALCandidate \<Rightarrow> WALRecoveryContext \<Rightarrow> WALRecoveryDecision" where
  "ClassifyWALSlot header prepare ctx =
     (if impossibleWALCandidate header ctx \<or> impossibleWALCandidate prepare ctx then WALRecoveryFail
      else if futureWALCandidate header ctx \<or> futureWALCandidate prepare ctx then WALRecoveryTruncate
      else let obsoleteHeader = obsoleteWALCandidate header (Installed ctx);
               obsoletePrepare = obsoleteWALCandidate prepare (Installed ctx)
      in if obsoleteHeader \<or> obsoletePrepare
      then if wc_Kind header = WALCandidateInvalid \<or> wc_Kind prepare = WALCandidateInvalid then WALRecoveryRemoteRepair
           else let retainedHeader = wc_Kind header = WALCandidateOrdinary \<and> \<not> obsoleteHeader;
                    retainedPrepare = wc_Kind prepare = WALCandidateOrdinary \<and> \<not> obsoletePrepare
           in if \<not> retainedHeader \<and> \<not> retainedPrepare then WALRecoveryTruncate
           else if obsoleteHeader \<and> retainedOrdinary prepare ctx then WALRecoveryLocalRepair
           else WALRecoveryRemoteRepair
      else if wc_Kind header = WALCandidateOrdinary \<and> wc_Kind prepare = WALCandidateOrdinary \<and> candidatesEqual header prepare
      then WALRecoveryClean
      else if wc_Kind header = WALCandidateReserved \<and> wc_Kind prepare = WALCandidateReserved then WALRecoveryCleanEmpty
      else if wc_Kind header = WALCandidateReserved \<and> retainedOrdinary prepare ctx then WALRecoveryLocalRepair
      else if wc_Kind header = WALCandidateInvalid \<and> retainedOrdinary prepare ctx \<and> wc_Op prepare = UntrustedMax ctx
      then WALRecoveryLocalRepair
      else if wc_Kind header = WALCandidateOrdinary \<and> retainedOrdinary prepare ctx \<and> wc_Op prepare > wc_Op header
      then WALRecoveryLocalRepair
      else WALRecoveryRemoteRepair)"

section \<open>Recovery\<close>

record WALRecoveryReport =
  report_HeadOp :: Op
  HeadHeader :: Header
  FaultySlots :: u32
  report_UntrustedMax :: Op

definition invalidCandidate :: WALCandidate where
  "invalidCandidate = \<lparr>wc_Kind = WALCandidateInvalid, wc_Op = 0, wc_View = 0, wc_HeaderChecksum = zeroID,
     wc_BodyChecksum = zeroID\<rparr>"

definition recoveryCandidate :: "Header \<Rightarrow> u64 \<Rightarrow> WALCandidate" where
  "recoveryCandidate header physicalSlot =
     (let op = prepareOp header
      in if prepareOperation header = OperationReserved
      then if op \<noteq> physicalSlot then invalidCandidate
           else \<lparr>wc_Kind = WALCandidateReserved, wc_Op = op, wc_View = 0, wc_HeaderChecksum = HeaderChecksum header,
             wc_BodyChecksum = BodyChecksum header\<rparr>
      else \<lparr>wc_Kind = WALCandidateOrdinary, wc_Op = op, wc_View = View header, wc_HeaderChecksum = HeaderChecksum header,
             wc_BodyChecksum = BodyChecksum header\<rparr>)"

definition decodeRecoveryHeader :: "WAL \<Rightarrow> bytes \<Rightarrow> u64 \<Rightarrow> WALCandidate" where
  "decodeRecoveryHeader wal encoded physicalSlot =
     (let (header, reason) = wal_DecodeHeader wal encoded
      in if reason \<noteq> RejectNone \<or> Command header \<noteq> CommandPrepare then invalidCandidate
      else recoveryCandidate header physicalSlot)"

definition decodeRecoveryPrepare :: "WAL \<Rightarrow> bytes \<Rightarrow> u64 \<Rightarrow> WALCandidate \<times> bytes" where
  "decodeRecoveryPrepare wal data slot =
     (if allZero data
      then case ReservedPrepareHeader (wal_group wal) slot (wal_memberCount wal) (ucast (cfg_MessageSizeMax (wal_config wal))) of
             Inl e \<Rightarrow> (invalidCandidate, replicate 256 0)
           | Inr reserved \<Rightarrow> (invalidCandidate\<lparr>wc_Kind := WALCandidateReserved, wc_Op := slot\<rparr>, reserved)
      else if length data < 256 then (invalidCandidate, replicate 256 0)
      else let n = get32 (gslice 96 100 data) :: u32
      in if n < 256 \<or> ucast n > PrepareStride (wal_layout wal) \<or> \<not> allZero (drop (unat n) data)
      then (invalidCandidate, replicate 256 0)
      else let (header, _, reason) = wal_DecodeFrame wal (take (unat n) data)
      in if reason \<noteq> RejectNone \<or> Command header \<noteq> CommandPrepare then (invalidCandidate, replicate 256 0)
      else (recoveryCandidate header slot, take 256 data))"

definition maxCandidateOp :: "Op \<Rightarrow> WALCandidate \<Rightarrow> Op" where
  "maxCandidateOp current candidate =
     (if wc_Kind candidate = WALCandidateOrdinary \<and> wc_Op candidate > current then wc_Op candidate else current)"

definition prepareMaximum :: "WAL \<Rightarrow> Op \<Rightarrow> Op option" where
  "prepareMaximum wal checkpoint =
     (case CheckpointInterval (wal_config wal) of None \<Rightarrow> None
      | Some interval \<Rightarrow>
        (case checkedAdd checkpoint interval of None \<Rightarrow> None
         | Some first \<Rightarrow>
           (case checkedAdd (if checkpoint = 0 then first - 1 else first) (CompactionOps (wal_config wal)) of
              None \<Rightarrow> None
            | Some trigger \<Rightarrow> checkedAdd trigger (2 * cfg_PipelineMax (wal_config wal)))))"

definition installRecoveredSlot :: "WAL \<Rightarrow> nat \<Rightarrow> bytes \<Rightarrow> WALCandidate \<Rightarrow> bool \<Rightarrow> WAL" where
  "installRecoveredSlot wal slot encoded candidate faulty =
     wal\<lparr>slots := (slots wal)[slot := (slots wal ! slot)\<lparr>Authoritative := encoded, Redundant := encoded,
       PrepareChecksum := wc_HeaderChecksum candidate, slot_Op := wc_Op candidate, Inhabited := True,
       Dirty := faulty, Faulty := faulty\<rparr>]\<rparr>"

text \<open>The source panics when the reserved header cannot be built; the model returns the error.\<close>

definition installReservedSlot :: "WAL \<Rightarrow> nat \<Rightarrow> WAL result" where
  "installReservedSlot wal slot =
     bind_result (ReservedPrepareHeader (wal_group wal) (of_nat slot) (wal_memberCount wal)
         (ucast (cfg_MessageSizeMax (wal_config wal)))) (\<lambda>reserved.
       Inr (wal\<lparr>slots := (slots wal)[slot := (slots wal ! slot)\<lparr>Authoritative := reserved, Redundant := reserved,
         PrepareChecksum := zeroID, slot_Op := of_nat slot, Inhabited := False, Dirty := False, Faulty := False\<rparr>]\<rparr>))"

record RecoveryScan =
  headerCandidates :: "WALCandidate list"
  prepareCandidates :: "WALCandidate list"
  prepareHeaders :: "bytes list"
  untrustedMax :: Op

text \<open>The loop that reads the prepare of each slot.\<close>

fun scan_slots :: "WAL \<Rightarrow> nat list \<Rightarrow> RecoveryScan \<Rightarrow> WAL \<times> RecoveryScan result" where
  "scan_slots wal [] scan = (wal, Inr scan)"
| "scan_slots wal (slot # rest) scan =
     (let candidate = decodeRecoveryHeader wal (header_at slot (headerRing wal)) (of_nat slot);
          scan = scan\<lparr>headerCandidates := headerCandidates scan @ [candidate],
                      untrustedMax := maxCandidateOp (untrustedMax scan) candidate\<rparr>
      in case prepareOffset wal (of_nat slot) of None \<Rightarrow> (wal, Inl ErrWALRecovery)
      | Some offset \<Rightarrow>
        (case ReadAt (wal_storage wal) (length (prepareBuffer wal)) offset of
           (storage, Inl e) \<Rightarrow> (wal\<lparr>wal_storage := storage\<rparr>, Inl (ErrJoin ErrWALRecovery e))
         | (storage, Inr data) \<Rightarrow>
           let wal = wal\<lparr>wal_storage := storage, prepareBuffer := data\<rparr>;
               (candidate, encoded) = decodeRecoveryPrepare wal data (of_nat slot)
           in scan_slots wal rest (scan\<lparr>prepareCandidates := prepareCandidates scan @ [candidate],
                prepareHeaders := prepareHeaders scan @ [encoded],
                untrustedMax := maxCandidateOp (untrustedMax scan) candidate\<rparr>)))"

record RecoveryInstall =
  ri_wal :: WAL
  repairHeaders :: bool
  ri_faulty :: u32

definition install_slot :: "RecoveryScan \<Rightarrow> WALRecoveryContext \<Rightarrow> nat \<Rightarrow> RecoveryInstall \<Rightarrow> RecoveryInstall result" where
  "install_slot scan ctx slot r =
     (let wal = ri_wal r; encoded = prepareHeaders scan ! slot; candidate = prepareCandidates scan ! slot
      in case ClassifyWALSlot (headerCandidates scan ! slot) candidate ctx of
        WALRecoveryClean \<Rightarrow> Inr (r\<lparr>ri_wal := installRecoveredSlot wal slot encoded candidate False\<rparr>)
      | WALRecoveryCleanEmpty \<Rightarrow> bind_result (installReservedSlot wal slot) (\<lambda>wal. Inr (r\<lparr>ri_wal := wal\<rparr>))
      | WALRecoveryLocalRepair \<Rightarrow>
          let wal = installRecoveredSlot wal slot encoded candidate False
          in Inr (r\<lparr>ri_wal := wal\<lparr>headerRing := put_header slot encoded (headerRing wal)\<rparr>, repairHeaders := True\<rparr>)
      | WALRecoveryTruncate \<Rightarrow> bind_result (installReservedSlot wal slot) (\<lambda>wal.
          Inr (r\<lparr>ri_wal := wal\<lparr>headerRing := put_header slot (Authoritative (slots wal ! slot)) (headerRing wal)\<rparr>,
                 repairHeaders := True\<rparr>))
      | WALRecoveryRemoteRepair \<Rightarrow> bind_result (installReservedSlot wal slot) (\<lambda>wal.
          Inr (r\<lparr>ri_wal := wal\<lparr>slots := (slots wal)[slot := (slots wal ! slot)\<lparr>Dirty := True, Faulty := True\<rparr>]\<rparr>,
                 ri_faulty := ri_faulty r + 1\<rparr>))
      | WALRecoveryFail \<Rightarrow> Inl ErrWALRecovery)"

fun install_slots :: "RecoveryScan \<Rightarrow> (nat \<Rightarrow> WALRecoveryContext) \<Rightarrow> nat list \<Rightarrow> RecoveryInstall \<Rightarrow> RecoveryInstall result" where
  "install_slots scan ctx [] r = Inr r"
| "install_slots scan ctx (slot # rest) r = bind_result (install_slot scan (ctx slot) slot r) (install_slots scan ctx rest)"

text \<open>The loop that follows the hash chain from the checkpoint, with a bound on its rounds.\<close>

fun recover_head :: "nat \<Rightarrow> WAL \<Rightarrow> Op \<Rightarrow> Header \<Rightarrow> Op \<Rightarrow> (Header \<times> Op) option" where
  "recover_head fuel wal untrusted head headOp =
     (let next = headOp + 1; recovered = wal_slot wal (next mod JournalSlots (wal_config wal))
      in if \<not> next \<le> untrusted then Some (head, headOp)
      else if \<not> Inhabited recovered \<or> slot_Op recovered \<noteq> next then Some (head, headOp)
      else let (candidate, reason) = wal_DecodeHeader wal (Authoritative recovered)
      in if reason \<noteq> RejectNone \<or> prepareParent candidate \<noteq> HeaderChecksum head then Some (head, headOp)
      else case fuel of 0 \<Rightarrow> None | Suc fuel \<Rightarrow> recover_head fuel wal untrusted candidate next)"

declare recover_head.simps [simp del]

definition recover_finish :: "WAL \<Rightarrow> CheckpointState \<Rightarrow> Op \<Rightarrow> Op \<Rightarrow> u32 \<Rightarrow> WAL \<times> WALRecoveryReport result option" where
  "recover_finish wal checkpoint commitMax untrusted faulty =
     (let (head, reason) = wal_DecodeHeader wal (cs_Header checkpoint)
      in if reason \<noteq> RejectNone \<or> Command head \<noteq> CommandPrepare then (wal, Some (Inl ErrWALRecovery))
      else case recover_head (length (slots wal)) wal untrusted head (PrepareOp checkpoint) of
        None \<Rightarrow> (wal, None)
      | Some (head, headOp) \<Rightarrow>
          (wal, Some (if commitMax > headOp \<and> faulty = 0 then Inl ErrWALRecovery
             else Inr \<lparr>report_HeadOp = headOp, HeadHeader = head, FaultySlots = faulty, report_UntrustedMax = untrusted\<rparr>)))"

text \<open>
  \<open>None\<close> as the result means that the bound on the loop over the hash chain was too small. When a
  slot cannot be classified, the log is returned as it was read: the source has then changed slots
  of a log that its caller discards.
\<close>

definition Recover :: "WAL \<Rightarrow> CheckpointState \<Rightarrow> Op \<Rightarrow> WALRecoveryView \<Rightarrow> WAL \<times> WALRecoveryReport result option" where
  "Recover wal checkpoint commitMax installed =
     (case ReadAt (wal_storage wal) (length (headerRing wal)) (HeaderBase (wal_layout wal)) of
        (storage, Inl e) \<Rightarrow> (wal\<lparr>wal_storage := storage\<rparr>, Some (Inl (ErrJoin ErrWALRecovery e)))
      | (storage, Inr ring) \<Rightarrow>
        (case scan_slots (wal\<lparr>wal_storage := storage, headerRing := ring\<rparr>) [0..<length (slots wal)]
                \<lparr>headerCandidates = [], prepareCandidates = [], prepareHeaders = [], untrustedMax = PrepareOp checkpoint\<rparr> of
           (wal, Inl e) \<Rightarrow> (wal, Some (Inl e))
         | (wal, Inr scan) \<Rightarrow>
           (case prepareMaximum wal (PrepareOp checkpoint) of None \<Rightarrow> (wal, Some (Inl ErrWALRecovery))
            | Some prepareMax \<Rightarrow>
              let ctx = (\<lambda>slot. \<lparr>PhysicalSlot = of_nat slot, ctx_JournalSlots = JournalSlots (wal_config wal),
                     RetainedMin = PrepareOp checkpoint, PrepareMax = prepareMax, UntrustedMax = untrustedMax scan,
                     Installed = installed\<rparr>)
              in case install_slots scan ctx [0..<length (slots wal)] \<lparr>ri_wal = wal, repairHeaders = False, ri_faulty = 0\<rparr> of
                Inl e \<Rightarrow> (wal, Some (Inl e))
              | Inr r \<Rightarrow>
                let wal = ri_wal r; faulty = ri_faulty r
                in if faulty \<noteq> 0 \<and> wal_memberCount wal = 1 then (wal, Some (Inl ErrWALUncertainSolo))
                else if repairHeaders r
                then case WriteAt (wal_storage wal) (headerRing wal) (HeaderBase (wal_layout wal)) of
                       (storage, Some e) \<Rightarrow> (wal\<lparr>wal_storage := storage\<rparr>, Some (Inl (ErrJoin ErrWALRecovery e)))
                     | (storage, None) \<Rightarrow>
                       (case Sync storage of
                          (storage, Some e) \<Rightarrow> (wal\<lparr>wal_storage := storage\<rparr>, Some (Inl (ErrJoin ErrWALRecovery e)))
                        | (storage, None) \<Rightarrow>
                          recover_finish (wal\<lparr>wal_storage := storage\<rparr>) checkpoint commitMax (untrustedMax scan) faulty)
                else recover_finish wal checkpoint commitMax (untrustedMax scan) faulty)))"

section \<open>Reading\<close>

text \<open>The result is the frame; the caller's buffer is not modelled apart from its length.\<close>

definition ReadPrepare :: "WAL \<Rightarrow> Op \<Rightarrow> nat \<Rightarrow> WAL \<times> bytes result" where
  "ReadPrepare wal op n =
     (if of_nat n < PrepareStride (wal_layout wal) then (wal, Inl ErrInvalidWAL)
      else case prepareOffset wal (op mod JournalSlots (wal_config wal)) of None \<Rightarrow> (wal, Inl ErrInvalidWAL)
      | Some offset \<Rightarrow>
        (case ReadAt (wal_storage wal) (unat (PrepareStride (wal_layout wal))) offset of
           (storage, Inl e) \<Rightarrow> (wal\<lparr>wal_storage := storage\<rparr>, Inl (ErrJoin ErrStorage e))
         | (storage, Inr data) \<Rightarrow>
           (wal\<lparr>wal_storage := storage\<rparr>,
            if length data < 256 then Inl ErrInvalidWAL
            else let m = get32 (gslice 96 100 data) :: u32
            in if m < 256 \<or> ucast m > PrepareStride (wal_layout wal) \<or> \<not> allZero (drop (unat m) data)
            then Inl ErrInvalidWAL
            else let frame = take (unat m) data; (header, _, reason) = wal_DecodeFrame wal frame
            in if reason \<noteq> RejectNone \<or> Command header \<noteq> CommandPrepare \<or> prepareOp header \<noteq> op
            then Inl ErrInvalidWAL else Inr frame)))"

definition RecoveredHeader :: "WAL \<Rightarrow> Op \<Rightarrow> Header \<times> bool" where
  "RecoveredHeader wal op =
     (let s = wal_slot wal (op mod JournalSlots (wal_config wal))
      in if \<not> Inhabited s \<or> slot_Op s \<noteq> op \<or> Faulty s then (zeroHeader, False)
      else let (header, reason) = wal_DecodeHeader wal (Authoritative s) in (header, reason = RejectNone))"

definition JoinEvidence :: "WAL \<Rightarrow> Op \<Rightarrow> Header \<times> bool \<times> bool" where
  "JoinEvidence wal op =
     (let s = wal_slot wal (op mod JournalSlots (wal_config wal))
      in if Faulty s then (zeroHeader, False, False)
      else if \<not> Inhabited s \<or> slot_Op s \<noteq> op then (zeroHeader, False, True)
      else let (header, reason) = wal_DecodeHeader wal (Authoritative s)
      in if reason \<noteq> RejectNone then (zeroHeader, False, False) else (header, True, Dirty s))"

fun discard_slots :: "WAL \<Rightarrow> Op \<Rightarrow> nat list \<Rightarrow> WAL result" where
  "discard_slots wal head [] = Inr wal"
| "discard_slots wal head (index # rest) =
     (let s = slots wal ! index
      in if \<not> Inhabited s \<or> slot_Op s \<le> head then discard_slots wal head rest
      else bind_result (installReservedSlot
             (wal\<lparr>slots := (slots wal)[index := s\<lparr>slot_Generation := slot_Generation s + 1\<rparr>]\<rparr>) index) (\<lambda>wal.
           discard_slots (wal\<lparr>headerRing := put_header index (Authoritative (slots wal ! index)) (headerRing wal)\<rparr>) head rest))"

definition DiscardAfter :: "WAL \<Rightarrow> Op \<Rightarrow> WAL result" where
  "DiscardAfter wal head = discard_slots wal head [0..<length (slots wal)]"

end
