(* ===== verification/Wal_Durability.thy ===== *)
theory Wal_Durability
  imports Wal Superblock
begin

unbundle bit_operations_syntax

text \<open>
  What the write-ahead log keeps: an append never damages another slot, an append that reports
  success is durable, and recovery finds every durable slot again.
\<close>

section \<open>Layout of the rings\<close>

lemma DeriveWALLayout_Some:
  assumes "DeriveWALLayout cfg = Some l"
  shows "unat (HeaderBase l) = unat (SuperblockCopies cfg) * 8192"
    "unat (HeaderSize l) = align_up (unat (JournalSlots cfg) * 256) 4096"
    "unat (PrepareBase l) = prepare_base cfg" "unat (PrepareStride l) = prepare_stride cfg"
    "unat (ReplyBase l) = reply_base cfg" "reply_base cfg < 2 ^ 64"
    "BlockBase cfg = Some (layout_BlockBase l)"
proof -
  obtain sb hb hs pb stride ps rb rs en b where steps:
    "checkedMul (SuperblockCopies cfg) SuperblockBytes = Some sb"
    "checkedMul (JournalSlots cfg) HeaderBytes = Some hb" "checkedAlignUp hb SectorSize = Some hs"
    "checkedAdd sb hs = Some pb" "checkedAlignUp (cfg_MessageSizeMax cfg) SectorSize = Some stride"
    "checkedMul (JournalSlots cfg) stride = Some ps" "checkedAdd pb ps = Some rb"
    "checkedMul (ClientsMax cfg) stride = Some rs" "checkedAdd rb rs = Some en"
    "checkedAlignUp en (BlockSize cfg) = Some b"
    and l: "l = \<lparr>HeaderBase = sb, HeaderSize = hs, PrepareBase = pb, PrepareStride = stride, PrepareSize = ps,
       ReplyBase = rb, ReplyStride = stride, ReplySize = rs, layout_BlockBase = b\<rparr>"
    using assms unfolding DeriveWALLayout_def bind_eq_Some_conv by (metis option.inject)
  note vals = steps [unfolded checkedMul_eq_Some checkedAdd_eq_Some checkedAlignUp_eq_Some]
  have a: "unat sb = unat (SuperblockCopies cfg) * 8192" "unat hs = align_up (unat (JournalSlots cfg) * 256) 4096"
    using vals(1-3) by (simp_all add: align_up_def)
  have b: "unat pb = prepare_base cfg" "unat stride = prepare_stride cfg"
    using vals(1-5) by (simp_all add: prepare_base_def prepare_stride_def align_up_def)
  then have c: "unat rb = reply_base cfg" using vals(6-7) by (simp add: reply_base_def)
  show "unat (HeaderBase l) = unat (SuperblockCopies cfg) * 8192"
    "unat (HeaderSize l) = align_up (unat (JournalSlots cfg) * 256) 4096"
    "unat (PrepareBase l) = prepare_base cfg" "unat (PrepareStride l) = prepare_stride cfg"
    "unat (ReplyBase l) = reply_base cfg" using a b c by (simp_all add: l)
  show "reply_base cfg < 2 ^ 64" using unat_less64 [of rb] c by simp
  show "BlockBase cfg = Some (layout_BlockBase l)"
    unfolding BlockBase_def l by (simp add: steps)
qed

text \<open>A log as \<^verbatim>\<open>NewWAL\<close> builds it: buffers and slots have the sizes of the layout.\<close>

definition wal_ok :: "WAL \<Rightarrow> bool" where
  "wal_ok wal \<longleftrightarrow> DeriveWALLayout (wal_config wal) = Some (wal_layout wal)
     \<and> JournalSlots (wal_config wal) \<noteq> 0 \<and> length (slots wal) = unat (JournalSlots (wal_config wal))
     \<and> length (headerRing wal) = unat (HeaderSize (wal_layout wal))
     \<and> length (prepareBuffer wal) = unat (PrepareStride (wal_layout wal))"

abbreviation wal_stride :: "WAL \<Rightarrow> nat" where
  "wal_stride wal \<equiv> prepare_stride (wal_config wal)"

abbreviation header_base :: "WAL \<Rightarrow> nat" where
  "header_base wal \<equiv> unat (HeaderBase (wal_layout wal))"

text \<open>What the disk holds for a slot: its prepare and its redundant header.\<close>

definition disk_prepare :: "WAL \<Rightarrow> nat \<Rightarrow> bytes" where
  "disk_prepare wal i = contents (wal_storage wal) (wal_stride wal) (prepare_base (wal_config wal) + i * wal_stride wal)"

definition disk_header :: "WAL \<Rightarrow> nat \<Rightarrow> bytes" where
  "disk_header wal i = contents (wal_storage wal) 256 (header_base wal + i * 256)"

lemma wal_ok_sizes:
  assumes "wal_ok wal"
  shows "length (prepareBuffer wal) = wal_stride wal" "length (slots wal) * 256 \<le> length (headerRing wal)"
    "4096 dvd length (headerRing wal)" "prepare_base (wal_config wal) = header_base wal + length (headerRing wal)"
    "prepare_base (wal_config wal) + length (slots wal) * wal_stride wal < 2 ^ 64" "0 < length (slots wal)"
proof -
  note l = DeriveWALLayout_Some [of "wal_config wal" "wal_layout wal"]
  have d: "DeriveWALLayout (wal_config wal) = Some (wal_layout wal)" using assms by (simp add: wal_ok_def)
  show "length (prepareBuffer wal) = wal_stride wal" using l(4) [OF d] assms by (simp add: wal_ok_def)
  have r: "length (headerRing wal) = align_up (length (slots wal) * 256) 4096"
    using l(2) [OF d] assms by (simp add: wal_ok_def)
  show "length (slots wal) * 256 \<le> length (headerRing wal)" "4096 dvd length (headerRing wal)"
    unfolding r by (rule align_up_ge, simp) (rule align_up_dvd)
  show "prepare_base (wal_config wal) = header_base wal + length (headerRing wal)"
    using l(1) [OF d] assms r by (simp add: prepare_base_def wal_ok_def)
  show "prepare_base (wal_config wal) + length (slots wal) * wal_stride wal < 2 ^ 64"
    using l(6) [OF d] assms by (simp add: reply_base_def wal_ok_def)
  show "0 < length (slots wal)" using assms by (simp add: wal_ok_def unat_gt_0)
qed

lemma prepareOffset_ok:
  assumes "wal_ok wal" "unat i < length (slots wal)"
  shows "\<exists>off. prepareOffset wal i = Some off \<and> unat off = prepare_base (wal_config wal) + unat i * wal_stride wal"
proof -
  note z = wal_ok_sizes [OF assms(1)]
  have d: "DeriveWALLayout (wal_config wal) = Some (wal_layout wal)" using assms by (simp add: wal_ok_def)
  note l = DeriveWALLayout_Some [OF d]
  have "unat i * wal_stride wal \<le> length (slots wal) * wal_stride wal" using assms(2) by (intro mult_le_mono1) simp
  then have lt: "prepare_base (wal_config wal) + unat i * wal_stride wal < 2 ^ 64" using z(5) by linarith
  have "\<exists>m. checkedMul i (PrepareStride (wal_layout wal)) = Some m"
    using checkedMul_eq_None [of i "PrepareStride (wal_layout wal)"] l(4) lt by (cases "checkedMul i (PrepareStride (wal_layout wal))") auto
  then obtain m where m: "checkedMul i (PrepareStride (wal_layout wal)) = Some m" by blast
  then have um: "unat m = unat i * wal_stride wal" using l(4) by (simp add: checkedMul_eq_Some)
  have "\<exists>off. checkedAdd (PrepareBase (wal_layout wal)) m = Some off"
    using checkedAdd_eq_None [of "PrepareBase (wal_layout wal)" m] l(3) um lt by (cases "checkedAdd (PrepareBase (wal_layout wal)) m") auto
  then obtain off where off: "checkedAdd (PrepareBase (wal_layout wal)) m = Some off" by blast
  then have "unat off = prepare_base (wal_config wal) + unat i * wal_stride wal"
    using um l(3) by (simp add: checkedAdd_eq_Some)
  then show ?thesis using m off by (simp add: prepareOffset_def)
qed

lemma WriteAt_agree:
  assumes "WriteAt s data offset = (s', r)" "unat offset \<le> a" "a + n \<le> unat offset + length data"
    "contents s n a = gslice (a - unat offset) (a - unat offset + n) data"
  shows "contents s' n a = contents s n a"
  using assms(1)
proof (cases rule: WriteAt_cases)
  case (fault d d' e k)
  have old: "cells d (a + i) = data ! (a - unat offset + i)" if "i < n" for i
  proof -
    have "cells d (a + i) = contents s n a ! i" using that fault(1) by (simp add: contents_def disk_read_def)
    also have "\<dots> = data ! (a - unat offset + i)" unfolding assms(4) using that assms(2,3) by (subst nth_slice) simp_all
    finally show ?thesis .
  qed
  have "disk_read (disk_write d' (take k data) (unat offset)) n a = disk_read d n a"
    unfolding disk_read_def disk_write_def using fault(2) old assms(2,3) by (auto simp: add.commute)
  then show ?thesis using fault(1,3) by (simp add: contents_def)
next
  case (pass d d')
  have "disk_read (disk_write d' data (unat offset)) n a = gslice (a - unat offset) (a - unat offset + n) data"
    using assms(2,3) by (intro nth_equalityI) (auto simp: disk_read_def disk_write_def nth_slice)
  then show ?thesis using pass(1,3) assms(4) by (simp add: contents_def)
qed simp

lemma WriteAt_part:
  assumes "WriteAt s data offset = (s', None)" "unat offset \<le> a" "a + n \<le> unat offset + length data"
  shows "contents s' n a = gslice (a - unat offset) (a - unat offset + n) data"
  using assms(1)
proof (cases rule: WriteAt_cases)
  case (pass d d')
  have "disk_read (disk_write d' data (unat offset)) n a = gslice (a - unat offset) (a - unat offset + n) data"
    using assms(2,3) by (intro nth_equalityI) (auto simp: disk_read_def disk_write_def nth_slice)
  then show ?thesis using pass(1,3) by (simp add: contents_def)
qed simp_all

section \<open>Appending\<close>

text \<open>The sector of the header ring that holds the header of a slot.\<close>

definition sector :: "nat \<Rightarrow> nat" where
  "sector i = i * 256 div 4096 * 4096"

lemma sector_bounds: "sector i \<le> i * 256" "(i + 1) * 256 \<le> sector i + 4096" "4096 dvd sector i"
proof -
  have "i * 256 div 4096 = i div 16" using div_mult_mult2 [of 256 i 16] by simp
  then have s: "sector i = i div 16 * 4096" by (simp add: sector_def)
  obtain q r where "i = q * 16 + r" "r < 16" "i div 16 = q"
    by (metis div_mult_mod_eq mod_less_divisor zero_less_numeral)
  then show "sector i \<le> i * 256" "(i + 1) * 256 \<le> sector i + 4096" unfolding s by simp_all
  show "4096 dvd sector i" by (simp add: s)
qed

lemma sector_fits:
  assumes "wal_ok wal" "i < length (slots wal)"
  shows "sector i + 4096 \<le> length (headerRing wal)"
proof -
  note z = wal_ok_sizes [OF assms(1)]
  obtain k where k: "length (headerRing wal) = 4096 * k" using z(3) by (auto simp: dvd_def)
  have "i * 256 < 4096 * k" using z(2) assms(2) k by linarith
  then have "i * 256 div 4096 < k" by (simp add: div_less_iff_less_mult mult.commute)
  then have "(i * 256 div 4096 + 1) * 4096 \<le> k * 4096" by (intro mult_le_mono1) simp
  then show ?thesis by (simp add: sector_def k)
qed

lemma header_words:
  assumes "wal_ok wal" "unat index < length (slots wal)"
  shows "unat (index * HeaderBytes) = unat index * 256" "unat (index * HeaderBytes + HeaderBytes) = (unat index + 1) * 256"
    "unat ((index * HeaderBytes) AND NOT (SectorSize - 1)) = sector (unat index)"
    "unat (((index * HeaderBytes) AND NOT (SectorSize - 1)) + SectorSize) = sector (unat index) + 4096"
    "unat (HeaderBase (wal_layout wal) + ((index * HeaderBytes) AND NOT (SectorSize - 1))) = header_base wal + sector (unat index)"
proof -
  note z = wal_ok_sizes [OF assms(1)]
  have lim: "header_base wal + length (headerRing wal) < 2 ^ 64" using z(4,5) by simp
  have fits: "sector (unat index) + 4096 \<le> length (headerRing wal)" by (rule sector_fits [OF assms])
  note b = sector_bounds [of "unat index"]
  have n: "(unat index + 1) * 256 < 2 ^ 64" using b(2) fits lim by linarith
  show m: "unat (index * HeaderBytes) = unat index * 256"
    using n by (simp add: unat_word_ariths)
  show "unat (index * HeaderBytes + HeaderBytes) = (unat index + 1) * 256"
    using m n by (subst unat_add_noof) simp_all
  have "(SectorSize - 1 :: u64) = mask 12" by (simp add: mask_eq_exp_minus_1)
  then show s: "unat ((index * HeaderBytes) AND NOT (SectorSize - 1)) = sector (unat index)"
    using unat_and_not_mask [of "index * HeaderBytes" 12] m by (simp add: sector_def)
  show "unat (((index * HeaderBytes) AND NOT (SectorSize - 1)) + SectorSize) = sector (unat index) + 4096"
    using s fits lim by (subst unat_add_noof) simp_all
  show "unat (HeaderBase (wal_layout wal) + ((index * HeaderBytes) AND NOT (SectorSize - 1))) = header_base wal + sector (unat index)"
    using s fits lim by (subst unat_add_noof) simp_all
qed

text \<open>The frame as it stands in its slot, padded with zeros.\<close>

definition padded :: "WAL \<Rightarrow> bytes \<Rightarrow> bytes" where
  "padded wal frame = copy_at 0 (wal_stride wal) frame (replicate (wal_stride wal) 0)"

text \<open>What one append may change, and what it must have done when it reports success.\<close>

definition append_effect :: "WAL \<Rightarrow> nat \<Rightarrow> bytes \<Rightarrow> WAL \<Rightarrow> err option \<Rightarrow> bool" where
  "append_effect wal i frame wal' e \<longleftrightarrow>
     wal_config wal' = wal_config wal \<and> wal_group wal' = wal_group wal \<and> wal_memberCount wal' = wal_memberCount wal
     \<and> wal_layout wal' = wal_layout wal \<and> length (prepareBuffer wal') = length (prepareBuffer wal)
     \<and> (\<forall>p. p < length (slots wal) \<and> p \<noteq> i \<longrightarrow> disk_prepare wal' p = disk_prepare wal p)
     \<and> (\<forall>p. p < length (slots wal) \<and> p \<noteq> i \<and> disk_header wal p = header_at p (headerRing wal) \<longrightarrow>
          disk_header wal' p = disk_header wal p)
     \<and> headerRing wal' \<in> {headerRing wal, put_header i (gslice 0 256 frame) (headerRing wal)}
     \<and> (if e = None
        then disk_prepare wal' i = padded wal frame \<and> disk_header wal' i = gslice 0 256 frame
          \<and> headerRing wal' = put_header i (gslice 0 256 frame) (headerRing wal)
          \<and> (\<exists>c. slots wal' = (slots wal)[i := (slots wal ! i)\<lparr>Redundant := Authoritative (slots wal ! i),
               PrepareChecksum := c, Inhabited := True, Dirty := False, Faulty := False\<rparr>])
        else slots wal' = slots wal)"

definition append_start :: "WAL \<Rightarrow> nat \<Rightarrow> bytes \<Rightarrow> ioSequence \<Rightarrow> bool" where
  "append_start wal i frame s \<longleftrightarrow> i < length (slots wal) \<and> unat (seq_index s) = i \<and> seq_phase s = IOPhaseWrite
     \<and> seq_step s = 0 \<and> seq_buffer s = padded wal frame
     \<and> unat (seq_offset s) = prepare_base (wal_config wal) + i * wal_stride wal
     \<and> slot_Generation (slots wal ! i) = seq_generation s \<and> Authoritative (slots wal ! i) = gslice 0 256 frame
     \<and> 256 \<le> length frame"

lemma append_loop_Suc:
  "seq_phase s \<noteq> IOPhaseCompletion \<Longrightarrow> append_loop (Suc f) wal s frame =
     (let (wal, s, e) = advanceAppend wal s frame in if e \<noteq> None then Some (wal, e) else append_loop f wal s frame)"
  by (subst append_loop.simps) simp

lemma advance_prepare:
  assumes "seq_phase s = IOPhaseWrite" "seq_step s = 0 \<or> seq_step s = 2" "WriteAt (wal_storage wal) (seq_buffer s) (seq_offset s) = (st, e)"
  shows "advanceAppend wal s frame = (case e of
      Some e \<Rightarrow> (wal\<lparr>wal_storage := st\<rparr>, s, Some (ErrJoin ErrStorage e))
    | None \<Rightarrow> (wal\<lparr>wal_storage := st\<rparr>, (syncNext s)\<lparr>seq_step := seq_step s + 1\<rparr>, None))"
  using assms by (auto simp: advanceAppend_def physical_def split: option.splits)

lemma advance_header:
  assumes "seq_phase s = IOPhaseSync" "seq_step s = 1" "Sync (wal_storage wal) = (st, e)"
  shows "advanceAppend wal s frame = (case e of
      Some e \<Rightarrow> (wal\<lparr>wal_storage := st\<rparr>, s, Some (ErrJoin ErrStorage e))
    | None \<Rightarrow>
      let off = seq_index s * HeaderBytes; so = off AND NOT (SectorSize - 1);
          ring = copy_at (unat off) (unat (off + HeaderBytes)) (gslice 0 256 frame) (headerRing wal)
      in (wal\<lparr>wal_storage := st, headerRing := ring\<rparr>, s\<lparr>seq_phase := IOPhaseWrite,
           seq_buffer := gslice (unat so) (unat (so + SectorSize)) ring,
           seq_offset := HeaderBase (wal_layout wal) + so, seq_size := SectorSize, seq_step := 2\<rparr>, None))"
  using assms by (auto simp: advanceAppend_def physical_def Let_def split: option.splits)

lemma advance_finish:
  assumes "seq_phase s = IOPhaseSync" "seq_step s = 3" "Sync (wal_storage wal) = (st, e)"
    "slot_Generation (wal_slot wal (seq_index s)) = seq_generation s"
    "Authoritative (wal_slot wal (seq_index s)) = gslice 0 256 frame"
  shows "advanceAppend wal s frame = (case e of
      Some e \<Rightarrow> (wal\<lparr>wal_storage := st\<rparr>, s, Some (ErrJoin ErrStorage e))
    | None \<Rightarrow> (put_slot (seq_index s) ((wal_slot wal (seq_index s))\<lparr>Redundant := Authoritative (wal_slot wal (seq_index s)),
         PrepareChecksum := seq_checksum s, Inhabited := True, Dirty := False, Faulty := False\<rparr>) (wal\<lparr>wal_storage := st\<rparr>),
         s\<lparr>seq_phase := IOPhaseCompletion, seq_step := 4\<rparr>, None))"
  using assms by (auto simp: advanceAppend_def physical_def Let_def split: option.splits)

lemma regions_apart: "p \<noteq> i \<Longrightarrow> p * n + n \<le> i * n \<or> i * n + n \<le> p * (n :: nat)"
  by (cases "p < i") (metis Suc_leI mult_Suc mult_le_mono1 add.commute, metis Suc_leI linorder_neqE_nat mult_Suc mult_le_mono1 add.commute)

lemma prepare_write:
  assumes "wal_ok wal" "WriteAt st data off = (st', r)" "length data = wal_stride wal"
    "unat off = prepare_base (wal_config wal) + i * wal_stride wal"
  shows "p \<noteq> i \<Longrightarrow> contents st' (wal_stride wal) (prepare_base (wal_config wal) + p * wal_stride wal)
      = contents st (wal_stride wal) (prepare_base (wal_config wal) + p * wal_stride wal)"
    "p < length (slots wal) \<Longrightarrow> contents st' 256 (header_base wal + p * 256) = contents st 256 (header_base wal + p * 256)"
    "r = None \<Longrightarrow> contents st' (wal_stride wal) (prepare_base (wal_config wal) + i * wal_stride wal) = data"
proof -
  note z = wal_ok_sizes [OF assms(1)]
  note other = fs.write_other [OF assms(2)]
  show "contents st' (wal_stride wal) (prepare_base (wal_config wal) + p * wal_stride wal)
      = contents st (wal_stride wal) (prepare_base (wal_config wal) + p * wal_stride wal)" if "p \<noteq> i"
    using other [of "prepare_base (wal_config wal) + p * wal_stride wal" "wal_stride wal"] assms(3,4)
      regions_apart [OF that, of "wal_stride wal"] by auto
  show "contents st' 256 (header_base wal + p * 256) = contents st 256 (header_base wal + p * 256)" if "p < length (slots wal)"
  proof -
    have "(p + 1) * 256 \<le> length (slots wal) * 256" using that by (intro mult_le_mono1) simp
    then show ?thesis using other [of "header_base wal + p * 256" 256] z(2,4) assms(4) by simp
  qed
  show "contents st' (wal_stride wal) (prepare_base (wal_config wal) + i * wal_stride wal) = data" if "r = None"
    using fs.write_same [of st data off st'] assms(2-4) that by simp
qed

lemma header_write:
  assumes "wal_ok wal" "i < length (slots wal)" "length enc = 256" "ring = put_header i enc (headerRing wal)"
    "WriteAt st (gslice (sector i) (sector i + 4096) ring) off = (st', r)" "unat off = header_base wal + sector i"
  shows "contents st' (wal_stride wal) (prepare_base (wal_config wal) + p * wal_stride wal)
      = contents st (wal_stride wal) (prepare_base (wal_config wal) + p * wal_stride wal)"
    "p \<noteq> i \<Longrightarrow> p < length (slots wal) \<Longrightarrow> contents st 256 (header_base wal + p * 256) = header_at p (headerRing wal) \<Longrightarrow>
      contents st' 256 (header_base wal + p * 256) = contents st 256 (header_base wal + p * 256)"
    "r = None \<Longrightarrow> contents st' 256 (header_base wal + i * 256) = enc"
proof -
  note z = wal_ok_sizes [OF assms(1)]
  note b = sector_bounds [of i]
  have fits: "sector i + 4096 \<le> length (headerRing wal)" by (rule sector_fits [OF assms(1,2)])
  have ring: "length ring = length (headerRing wal)" by (simp add: assms(4))
  have len: "length (gslice (sector i) (sector i + 4096) ring) = 4096" using fits ring by simp
  have inside: "gslice (header_base wal + q * 256 - unat off) (header_base wal + q * 256 - unat off + 256)
      (gslice (sector i) (sector i + 4096) ring) = header_at q ring"
    if "sector i \<le> q * 256" "(q + 1) * 256 \<le> sector i + 4096" for q
    using that assms(6) by (simp add: gslice_gslice add.commute)
  show "contents st' (wal_stride wal) (prepare_base (wal_config wal) + p * wal_stride wal)
      = contents st (wal_stride wal) (prepare_base (wal_config wal) + p * wal_stride wal)"
    using fs.write_other [OF assms(5), of "prepare_base (wal_config wal) + p * wal_stride wal" "wal_stride wal"] len fits z(4) assms(6) by simp
  show "contents st' 256 (header_base wal + i * 256) = enc" if "r = None"
  proof -
    have "(i + 1) * 256 \<le> length (headerRing wal)" using b(2) fits by linarith
    then have "header_at i ring = enc" unfolding assms(4) using assms(3) by (intro slice_copy_at_same) simp_all
    then show ?thesis
      using WriteAt_part [of st _ off st' "header_base wal + i * 256" 256] assms(5,6) that len b(1,2) inside [of i] by simp
  qed
  assume p: "p \<noteq> i" "p < length (slots wal)" "contents st 256 (header_base wal + p * 256) = header_at p (headerRing wal)"
  have same: "header_at p ring = header_at p (headerRing wal)"
    unfolding assms(4) using p(1) by (cases "p < i") (auto intro: slice_copy_at_before slice_copy_at_after)
  show "contents st' 256 (header_base wal + p * 256) = contents st 256 (header_base wal + p * 256)"
  proof (cases "sector i \<le> p * 256 \<and> (p + 1) * 256 \<le> sector i + 4096")
    case True
    then show ?thesis
      using WriteAt_agree [OF assms(5), of "header_base wal + p * 256" 256] p(3) inside [of p] same len assms(6) by simp
  next
    case False
    obtain k where k: "sector i = k * 4096" using b(3) by (metis dvd_def mult.commute)
    have "p + 1 \<le> 16 * k \<or> 16 * k + 16 \<le> p" using False unfolding k by simp linarith
    then have "(p + 1) * 256 \<le> sector i \<or> sector i + 4096 \<le> p * 256" unfolding k by auto
    then show ?thesis
      using fs.write_other [OF assms(5), of "header_base wal + p * 256" 256] len assms(6) by auto
  qed
qed

lemma append_effect_error:
  assumes "wal_ok wal" "i < length (slots wal)"
    and "\<And>p. p \<noteq> i \<Longrightarrow> contents st (wal_stride wal) (prepare_base (wal_config wal) + p * wal_stride wal)
      = contents (wal_storage wal) (wal_stride wal) (prepare_base (wal_config wal) + p * wal_stride wal)"
    and "\<And>p. p \<noteq> i \<Longrightarrow> p < length (slots wal) \<Longrightarrow> contents (wal_storage wal) 256 (header_base wal + p * 256) = header_at p (headerRing wal)
      \<Longrightarrow> contents st 256 (header_base wal + p * 256) = contents (wal_storage wal) 256 (header_base wal + p * 256)"
    and "ring \<in> {headerRing wal, put_header i (gslice 0 256 frame) (headerRing wal)}"
  shows "append_effect wal i frame (wal\<lparr>headerRing := ring, wal_storage := st\<rparr>) (Some e)"
  unfolding append_effect_def disk_prepare_def disk_header_def using assms by auto

lemma append_front:
  assumes "seq_phase s = IOPhaseWrite" "seq_step s = 0" "WriteAt (wal_storage wal) (seq_buffer s) (seq_offset s) = (st1, e1)"
    "Sync st1 = (st2, e2)" "off = seq_index s * HeaderBytes" "so = off AND NOT (SectorSize - 1)"
    "ring = copy_at (unat off) (unat (off + HeaderBytes)) (gslice 0 256 frame) (headerRing wal)"
  shows "\<exists>s2. seq_phase s2 = IOPhaseWrite \<and> seq_step s2 = 2 \<and> seq_index s2 = seq_index s \<and> seq_generation s2 = seq_generation s
    \<and> seq_buffer s2 = gslice (unat so) (unat (so + SectorSize)) ring \<and> seq_offset s2 = HeaderBase (wal_layout wal) + so
    \<and> append_loop 4 wal s frame =
        (case e1 of Some e \<Rightarrow> Some (wal\<lparr>wal_storage := st1\<rparr>, Some (ErrJoin ErrStorage e))
         | None \<Rightarrow> (case e2 of Some e \<Rightarrow> Some (wal\<lparr>wal_storage := st2\<rparr>, Some (ErrJoin ErrStorage e))
           | None \<Rightarrow> append_loop 2 (wal\<lparr>wal_storage := st2, headerRing := ring\<rparr>) s2 frame))"
proof -
  let ?s1 = "(syncNext s)\<lparr>seq_step := 1\<rparr>" and ?w1 = "wal\<lparr>wal_storage := st1\<rparr>"
  let ?s2 = "?s1\<lparr>seq_phase := IOPhaseWrite, seq_buffer := gslice (unat so) (unat (so + SectorSize)) ring,
        seq_offset := HeaderBase (wal_layout wal) + so, seq_size := SectorSize, seq_step := 2\<rparr>"
  have four: "(4 :: nat) = Suc (Suc 2)" by simp
  note adv1 = advance_prepare [OF assms(1) disjI1 [OF assms(2)] assms(3), of frame]
  have l1: "append_loop 4 wal s frame = (case e1 of Some e \<Rightarrow> Some (?w1, Some (ErrJoin ErrStorage e))
      | None \<Rightarrow> append_loop (Suc 2) ?w1 ?s1 frame)"
    unfolding four using adv1 assms(1,2) by (subst append_loop_Suc) (auto split: option.splits)
  have ph1: "seq_phase ?s1 = IOPhaseSync" "seq_step ?s1 = 1" "seq_index ?s1 = seq_index s" by (simp_all add: syncNext_def)
  have "Sync (wal_storage ?w1) = (st2, e2)" using assms(4) by simp
  from advance_header [OF ph1(1,2) this, of frame]
  have adv2: "advanceAppend ?w1 ?s1 frame = (case e2 of Some e \<Rightarrow> (wal\<lparr>wal_storage := st2\<rparr>, ?s1, Some (ErrJoin ErrStorage e))
      | None \<Rightarrow> (wal\<lparr>wal_storage := st2, headerRing := ring\<rparr>, ?s2, None))"
    unfolding ph1(3) by (simp add: assms(5-7) Let_def split: option.splits)
  have "append_loop (Suc 2) ?w1 ?s1 frame = (case e2 of Some e \<Rightarrow> Some (wal\<lparr>wal_storage := st2\<rparr>, Some (ErrJoin ErrStorage e))
      | None \<Rightarrow> append_loop 2 (wal\<lparr>wal_storage := st2, headerRing := ring\<rparr>) ?s2 frame)"
    using adv2 ph1(1) by (subst append_loop_Suc) (auto split: option.splits)
  then show ?thesis using l1 by (intro exI [of _ ?s2]) (simp add: syncNext_def split: option.splits)
qed

lemma append_tail:
  assumes "seq_phase s = IOPhaseWrite" "seq_step s = 2" "WriteAt (wal_storage wal) (seq_buffer s) (seq_offset s) = (st3, e3)"
    "Sync st3 = (st4, e4)" "slot_Generation (wal_slot wal (seq_index s)) = seq_generation s"
    "Authoritative (wal_slot wal (seq_index s)) = gslice 0 256 frame"
  shows "\<exists>c. append_loop 2 wal s frame =
    (case e3 of Some e \<Rightarrow> Some (wal\<lparr>wal_storage := st3\<rparr>, Some (ErrJoin ErrStorage e))
     | None \<Rightarrow> (case e4 of Some e \<Rightarrow> Some (wal\<lparr>wal_storage := st4\<rparr>, Some (ErrJoin ErrStorage e))
       | None \<Rightarrow> Some (put_slot (seq_index s) ((wal_slot wal (seq_index s))\<lparr>Redundant := Authoritative (wal_slot wal (seq_index s)),
         PrepareChecksum := c, Inhabited := True, Dirty := False, Faulty := False\<rparr>) (wal\<lparr>wal_storage := st4\<rparr>), None)))"
proof -
  let ?s1 = "(syncNext s)\<lparr>seq_step := 3\<rparr>" and ?w1 = "wal\<lparr>wal_storage := st3\<rparr>"
  have two: "(2 :: nat) = Suc (Suc 0)" by simp
  note adv1 = advance_prepare [OF assms(1) disjI2 [OF assms(2)] assms(3), of frame]
  have l1: "append_loop 2 wal s frame = (case e3 of Some e \<Rightarrow> Some (?w1, Some (ErrJoin ErrStorage e))
      | None \<Rightarrow> append_loop (Suc 0) ?w1 ?s1 frame)"
    unfolding two using adv1 assms(1,2) by (subst append_loop_Suc) (auto split: option.splits)
  have ph1: "seq_phase ?s1 = IOPhaseSync" "seq_step ?s1 = 3" "seq_index ?s1 = seq_index s"
    "seq_generation ?s1 = seq_generation s" by (simp_all add: syncNext_def)
  have "Sync (wal_storage ?w1) = (st4, e4)" using assms(4) by simp
  note adv2 = advance_finish [OF ph1(1,2) this, of frame]
  have "append_loop (Suc 0) ?w1 ?s1 frame = (case e4 of Some e \<Rightarrow> Some (wal\<lparr>wal_storage := st4\<rparr>, Some (ErrJoin ErrStorage e))
      | None \<Rightarrow> Some (put_slot (seq_index s) ((wal_slot wal (seq_index s))\<lparr>Redundant := Authoritative (wal_slot wal (seq_index s)),
         PrepareChecksum := seq_checksum ?s1, Inhabited := True, Dirty := False, Faulty := False\<rparr>) (wal\<lparr>wal_storage := st4\<rparr>), None))"
    using adv2 ph1 assms(5,6) by (subst append_loop_Suc) (auto simp: append_loop.simps [of 0] split: option.splits)
  then show ?thesis using l1 by (intro exI [of _ "seq_checksum ?s1"]) (simp split: option.splits)
qed

lemma append_loop_effect:
  assumes "wal_ok wal" "append_start wal i frame s"
  shows "\<exists>wal' e. append_loop 4 wal s frame = Some (wal', e) \<and> append_effect wal i frame wal' e"
proof -
  have a: "seq_phase s = IOPhaseWrite" "seq_step s = 0" "slot_Generation (wal_slot wal (seq_index s)) = seq_generation s"
    "Authoritative (wal_slot wal (seq_index s)) = gslice 0 256 frame" "unat (seq_index s) = i" "i < length (slots wal)"
    "256 \<le> length frame" "length (seq_buffer s) = wal_stride wal" "seq_buffer s = padded wal frame"
    "unat (seq_offset s) = prepare_base (wal_config wal) + i * wal_stride wal"
    using assms(2) by (simp_all add: append_start_def padded_def)
  note w = header_words [OF assms(1), of "seq_index s", unfolded a(5), OF a(6)]
  define off where "off = seq_index s * HeaderBytes"
  define so where "so = off AND NOT (SectorSize - 1)"
  define ring where "ring = put_header i (gslice 0 256 frame) (headerRing wal)"
  have ring: "ring = copy_at (unat off) (unat (off + HeaderBytes)) (gslice 0 256 frame) (headerRing wal)"
    by (simp add: ring_def off_def w)
  have so: "unat so = sector i" "unat (so + SectorSize) = sector i + 4096"
    "unat (HeaderBase (wal_layout wal) + so) = header_base wal + sector i"
    unfolding so_def off_def by (simp_all only: w)
  obtain st1 e1 where s1: "WriteAt (wal_storage wal) (seq_buffer s) (seq_offset s) = (st1, e1)" by fastforce
  obtain st2 e2 where s2: "Sync st1 = (st2, e2)" by fastforce
  obtain st3 e3 where s3: "WriteAt st2 (gslice (sector i) (sector i + 4096) ring) (HeaderBase (wal_layout wal) + so) = (st3, e3)" by fastforce
  obtain st4 e4 where s4: "Sync st3 = (st4, e4)" by fastforce
  note c2 = Sync_contents [OF s2] and c4 = Sync_contents [OF s4]
  note p1 = prepare_write [OF assms(1) s1 a(8,10)]
  have g: "length (gslice 0 256 frame) = 256" using a(7) by simp
  note p3 = header_write [OF assms(1) a(6) g ring_def s3 so(3)]
  have eff1: "append_effect wal i frame (wal\<lparr>wal_storage := st\<rparr>) (Some e)" if "contents st = contents st1" for st e
    using append_effect_error [OF assms(1) a(6), of st "headerRing wal" frame e] p1(1,2) that by simp
  have eff3: "append_effect wal i frame (wal\<lparr>headerRing := ring, wal_storage := st\<rparr>) (Some e)" if "contents st = contents st3" for st e
    using append_effect_error [OF assms(1) a(6), of st ring frame e] p1(1,2) p3(1,2) c2 that by (simp add: ring_def)
  let ?w2 = "wal\<lparr>wal_storage := st2, headerRing := ring\<rparr>"
  obtain sq where sq: "seq_phase sq = IOPhaseWrite" "seq_step sq = 2" "seq_index sq = seq_index s"
      "seq_generation sq = seq_generation s" "seq_buffer sq = gslice (sector i) (sector i + 4096) ring"
      "seq_offset sq = HeaderBase (wal_layout wal) + so"
    "append_loop 4 wal s frame = (case e1 of Some e \<Rightarrow> Some (wal\<lparr>wal_storage := st1\<rparr>, Some (ErrJoin ErrStorage e))
         | None \<Rightarrow> (case e2 of Some e \<Rightarrow> Some (wal\<lparr>wal_storage := st2\<rparr>, Some (ErrJoin ErrStorage e))
           | None \<Rightarrow> append_loop 2 ?w2 sq frame))"
    using append_front [OF a(1,2) s1 s2 off_def so_def ring] unfolding so by blast
  have "WriteAt (wal_storage ?w2) (seq_buffer sq) (seq_offset sq) = (st3, e3)" using s3 sq(5,6) by simp
  moreover have "slot_Generation (wal_slot ?w2 (seq_index sq)) = seq_generation sq"
      "Authoritative (wal_slot ?w2 (seq_index sq)) = gslice 0 256 frame" using a(3,4) sq(3,4) by simp_all
  ultimately obtain c where t: "append_loop 2 ?w2 sq frame =
    (case e3 of Some e \<Rightarrow> Some (?w2\<lparr>wal_storage := st3\<rparr>, Some (ErrJoin ErrStorage e))
     | None \<Rightarrow> (case e4 of Some e \<Rightarrow> Some (?w2\<lparr>wal_storage := st4\<rparr>, Some (ErrJoin ErrStorage e))
       | None \<Rightarrow> Some (put_slot (seq_index sq) ((wal_slot ?w2 (seq_index sq))\<lparr>Redundant := Authoritative (wal_slot ?w2 (seq_index sq)),
         PrepareChecksum := c, Inhabited := True, Dirty := False, Faulty := False\<rparr>) (?w2\<lparr>wal_storage := st4\<rparr>), None)))"
    using append_tail [OF sq(1,2) _ s4] by blast
  have eff4: "append_effect wal i frame (wal\<lparr>headerRing := ring, wal_storage := st4, slots := (slots wal)[i := (slots wal ! i)\<lparr>Redundant :=
           Authoritative (slots wal ! i), PrepareChecksum := c, Inhabited := True, Dirty := False, Faulty := False\<rparr>]\<rparr>) None"
    if "e1 = None" "e3 = None"
    using p1 p3 c2 c4 that a(9) unfolding append_effect_def disk_prepare_def disk_header_def by (auto simp: ring_def)
  show ?thesis
    using sq(7) t eff1 [OF refl] eff1 [OF c2] eff3 [OF refl] eff3 [OF c4] eff4 sq(3) a(5)
    by (cases e1; cases e2; cases e3; cases e4) auto
qed

section \<open>The durable log\<close>

text \<open>
  A slot is durable when the disk holds its prepare and its redundant header, so that it can be
  recovered; the header ring in memory agrees with the disk there.
\<close>

definition slot_durable :: "WAL \<Rightarrow> nat \<Rightarrow> bool" where
  "slot_durable wal i \<longleftrightarrow> disk_header wal i = Authoritative (slots wal ! i)
     \<and> header_at i (headerRing wal) = Authoritative (slots wal ! i)
     \<and> (\<exists>frame h body. wal_DecodeFrame wal frame = (h, body, RejectNone) \<and> Command h = CommandPrepare
          \<and> gslice 0 256 frame = Authoritative (slots wal ! i) \<and> disk_prepare wal i = padded wal frame
          \<and> prepareOp h = slot_Op (slots wal ! i) \<and> unat (prepareOp h mod JournalSlots (wal_config wal)) = i)"

abbreviation slot_clean :: "WAL \<Rightarrow> nat \<Rightarrow> bool" where
  "slot_clean wal i \<equiv> Inhabited (slots wal ! i) \<and> \<not> Dirty (slots wal ! i)"

definition wal_inv :: "WAL \<Rightarrow> bool" where
  "wal_inv wal \<longleftrightarrow> wal_ok wal \<and> (\<forall>i < length (slots wal). slot_clean wal i \<longrightarrow> slot_durable wal i)"

lemma slot_durable_kept:
  assumes "slot_durable wal p" "append_effect wal i frame wal' e" "p \<noteq> i" "p < length (slots wal)"
  shows "slot_durable wal' p"
proof -
  have e: "wal_config wal' = wal_config wal" "wal_group wal' = wal_group wal" "wal_memberCount wal' = wal_memberCount wal"
    "disk_prepare wal' p = disk_prepare wal p"
    "disk_header wal p = header_at p (headerRing wal) \<longrightarrow> disk_header wal' p = disk_header wal p"
    "headerRing wal' \<in> {headerRing wal, put_header i (gslice 0 256 frame) (headerRing wal)}"
    using assms(2-4) by (simp_all add: append_effect_def)
  have s: "slots wal' ! p = slots wal ! p"
    using assms(2,3) by (auto simp: append_effect_def split: if_splits)
  have r: "header_at p (headerRing wal') = header_at p (headerRing wal)"
    using e(6) assms(3) by (cases "p < i") (auto simp: slice_copy_at_before slice_copy_at_after)
  show ?thesis
    using assms(1) e(5) unfolding slot_durable_def s r e(1-4) padded_def by simp
qed

text \<open>
  Starting an append marks its slot as dirty and leaves everything else as it is; on an error the
  slot is not even touched, because the offset of a slot always exists.
\<close>

definition started :: "WAL \<Rightarrow> nat \<Rightarrow> bytes \<Rightarrow> Op \<Rightarrow> WAL" where
  "started wal i frame op = wal\<lparr>slots := (slots wal)[i := (slots wal ! i)\<lparr>slot_Generation := slot_Generation (slots wal ! i) + 1,
       Authoritative := gslice 0 256 frame, slot_Op := op, Dirty := True\<rparr>],
     prepareBuffer := padded wal frame, wal_ioActive := True\<rparr>"

lemma beginAppend_cases:
  assumes "wal_ok wal"
  obtains (stop) e where "beginAppend wal frame r = (wal, Inl e)"
  | (start) h body i s where "wal_DecodeFrame wal frame = (h, body, RejectNone)" "Command h = CommandPrepare"
      "i = unat (prepareOp h mod JournalSlots (wal_config wal))" "i < length (slots wal)"
      "beginAppend wal frame r = (started wal i frame (prepareOp h), Inr s)"
      "append_start (started wal i frame (prepareOp h)) i frame s"
proof -
  obtain h body q where d: "wal_DecodeFrame wal frame = (h, body, q)" by (metis prod_cases3)
  let ?index = "prepareOp h mod JournalSlots (wal_config wal)"
  let ?s = "wal_slot wal ?index"
  show ?thesis
  proof (cases "wal_ioActive wal \<or> q \<noteq> RejectNone \<or> Command h \<noteq> CommandPrepare
      \<or> Inhabited ?s \<and> slot_Op ?s \<noteq> prepareOp h \<and> slot_Op ?s > r")
    case True
    then have "\<exists>e. beginAppend wal frame r = (wal, Inl e)"
      using d by (auto simp: beginAppend_def Let_def prepareOp_def)
    then show ?thesis using stop by blast
  next
    case False
    have ok: "JournalSlots (wal_config wal) \<noteq> 0" "length (slots wal) = unat (JournalSlots (wal_config wal))"
      using assms by (simp_all add: wal_ok_def)
    have i: "unat ?index < length (slots wal)" using ok by (simp add: unat_mod unat_gt_0)
    note z = wal_ok_sizes [OF assms]
    obtain off where off: "prepareOffset wal ?index = Some off"
      "unat off = prepare_base (wal_config wal) + unat ?index * wal_stride wal"
      using prepareOffset_ok [OF assms i] by blast
    have len: "256 \<le> length frame" using d False by (auto simp: DecodeFrame_def split: if_splits prod.splits)
    let ?w = "started wal (unat ?index) frame (prepareOp h)"
    have pad: "copy_at 0 (length (prepareBuffer wal)) frame (replicate (length (prepareBuffer wal)) 0) = padded wal frame"
      by (simp add: padded_def z(1))
    have "prepareOffset (w\<lparr>slots := x, prepareBuffer := y\<rparr>) = prepareOffset w" for w x y
      by (simp add: prepareOffset_def fun_eq_iff)
    then have "beginAppend wal frame r = (?w, Inr \<lparr>seq_phase = IOPhaseWrite, seq_buffer = padded wal frame, seq_offset = off,
        seq_size = of_nat (length (prepareBuffer wal)), seq_step = 0, seq_index = ?index,
        seq_generation = slot_Generation ?s + 1, seq_checksum = HeaderChecksum h\<rparr>)"
      unfolding beginAppend_def started_def using d False off(1) pad by (simp add: Let_def prepareOp_def)
    moreover have "append_start ?w (unat ?index) frame \<lparr>seq_phase = IOPhaseWrite, seq_buffer = padded wal frame, seq_offset = off,
        seq_size = of_nat (length (prepareBuffer wal)), seq_step = 0, seq_index = ?index,
        seq_generation = slot_Generation ?s + 1, seq_checksum = HeaderChecksum h\<rparr>"
      using i off(2) len by (simp add: append_start_def started_def padded_def)
    ultimately show ?thesis using start [OF _ _ refl i] d False by auto
  qed
qed

lemma started_simps:
  "wal_config (started wal i frame op) = wal_config wal" "wal_group (started wal i frame op) = wal_group wal"
  "wal_memberCount (started wal i frame op) = wal_memberCount wal" "wal_layout (started wal i frame op) = wal_layout wal"
  "headerRing (started wal i frame op) = headerRing wal" "length (slots (started wal i frame op)) = length (slots wal)"
  "disk_prepare (started wal i frame op) = disk_prepare wal" "disk_header (started wal i frame op) = disk_header wal"
  "p \<noteq> i \<Longrightarrow> slots (started wal i frame op) ! p = slots wal ! p"
  "i < length (slots wal) \<Longrightarrow> Authoritative (slots (started wal i frame op) ! i) = gslice 0 256 frame"
  "i < length (slots wal) \<Longrightarrow> slot_Op (slots (started wal i frame op) ! i) = op"
  "i < length (slots wal) \<Longrightarrow> Dirty (slots (started wal i frame op) ! i)"
  by (simp_all add: started_def disk_prepare_def disk_header_def fun_eq_iff)

lemma started_ok: "wal_ok wal \<Longrightarrow> wal_ok (started wal i frame op)"
  using wal_ok_sizes(1) [of wal] by (simp add: wal_ok_def started_def padded_def)

lemma slot_durable_started:
  "slot_durable wal p \<Longrightarrow> p \<noteq> i \<Longrightarrow> slot_durable (started wal i frame op) p"
  by (simp add: slot_durable_def started_simps padded_def)

lemma append_effect_ok:
  assumes "append_effect wal i frame wal' e" "wal_ok wal"
  shows "wal_ok wal'" "length (slots wal') = length (slots wal)"
  using assms by (auto simp: append_effect_def wal_ok_def split: if_splits)

lemma append_effect_durable:
  assumes "append_effect wal i frame wal' None" "wal_ok wal" "i < length (slots wal)"
    and "Authoritative (slots wal ! i) = gslice 0 256 frame" "slot_Op (slots wal ! i) = prepareOp h"
    and "wal_DecodeFrame wal frame = (h, body, RejectNone)" "Command h = CommandPrepare"
    and "unat (prepareOp h mod JournalSlots (wal_config wal)) = i"
  shows "slot_durable wal' i"
proof -
  have e: "wal_config wal' = wal_config wal" "wal_group wal' = wal_group wal" "wal_memberCount wal' = wal_memberCount wal"
    "disk_prepare wal' i = padded wal frame" "disk_header wal' i = gslice 0 256 frame"
    "headerRing wal' = put_header i (gslice 0 256 frame) (headerRing wal)"
    "Authoritative (slots wal' ! i) = gslice 0 256 frame" "slot_Op (slots wal' ! i) = prepareOp h"
    using assms(1,3-5) by (auto simp: append_effect_def)
  have "256 \<le> length frame" using assms(6) by (auto simp: DecodeFrame_def split: if_splits prod.splits)
  moreover have "(i + 1) * 256 \<le> length (headerRing wal)"
  proof -
    have "(i + 1) * 256 \<le> length (slots wal) * 256" using assms(3) by (intro mult_le_mono1) simp
    then show ?thesis using wal_ok_sizes(2) [OF assms(2)] by linarith
  qed
  ultimately have "header_at i (headerRing wal') = gslice 0 256 frame"
    unfolding e(6) by (intro slice_copy_at_same) simp_all
  then show ?thesis
    unfolding slot_durable_def e(1-5) e(7,8) padded_def using assms(6-8) by blast
qed

lemma Append_result:
  assumes "wal_inv wal"
  shows "\<exists>wal' e. Append wal frame r = Some (wal', e) \<and> wal_inv wal' \<and> length (slots wal') = length (slots wal)
    \<and> (e = None \<longrightarrow> (\<exists>h body i. wal_DecodeFrame wal frame = (h, body, RejectNone) \<and> Command h = CommandPrepare
        \<and> i = unat (prepareOp h mod JournalSlots (wal_config wal)) \<and> i < length (slots wal)
        \<and> slot_clean wal' i \<and> slot_Op (slots wal' ! i) = prepareOp h \<and> Authoritative (slots wal' ! i) = gslice 0 256 frame
        \<and> (\<forall>p < length (slots wal). p \<noteq> i \<longrightarrow> slots wal' ! p = slots wal ! p)))"
proof -
  have ok: "wal_ok wal" "\<And>i. i < length (slots wal) \<Longrightarrow> slot_clean wal i \<Longrightarrow> slot_durable wal i"
    using assms by (auto simp: wal_inv_def)
  from ok(1) show ?thesis
  proof (cases rule: beginAppend_cases [where frame = frame and r = r, consumes 1])
    case (stop e)
    then show ?thesis using assms by (simp add: Append_def)
  next
    case (start h body i s)
    let ?w = "started wal i frame (prepareOp h)"
    note w = started_simps [where wal = wal and i = i and frame = frame and op = "prepareOp h"]
    have wok: "wal_ok ?w" by (rule started_ok [OF ok(1)])
    obtain w2 e where l: "append_loop 4 ?w s frame = Some (w2, e)" "append_effect ?w i frame w2 e"
      using append_loop_effect [OF wok start(6)] by blast
    note o2 = append_effect_ok [OF l(2) wok]
    have n: "length (slots w2) = length (slots wal)" using o2(2) w(6) by simp
    have same: "slots w2 ! p = slots wal ! p" if "p \<noteq> i" for p
      using l(2) that w(9) by (auto simp: append_effect_def split: if_splits)
    have dur: "slot_durable w2 p" if "p < length (slots wal)" "slot_clean w2 p" for p
    proof (cases "p = i")
      case False
      then have "slot_durable wal p" using ok(2) that same by simp
      from slot_durable_started [OF this False] show ?thesis
        using slot_durable_kept [OF _ l(2) False] that(1) w(6) by simp
    next
      case True
      have "e = None"
        using that True l(2) w(12) start(4) by (auto simp: append_effect_def split: if_splits)
      then show ?thesis
        using append_effect_durable [of ?w i frame w2 h body] l(2) wok start w True by simp
    qed
    have fin: "slot_durable (w2\<lparr>wal_ioActive := False\<rparr>) = slot_durable w2" "wal_ok (w2\<lparr>wal_ioActive := False\<rparr>) = wal_ok w2"
      by (simp_all add: slot_durable_def wal_ok_def padded_def disk_prepare_def disk_header_def fun_eq_iff)
    have "wal_inv (w2\<lparr>wal_ioActive := False\<rparr>)" using o2(1) dur n unfolding wal_inv_def fin by simp
    moreover have "Append wal frame r = Some (w2\<lparr>wal_ioActive := False\<rparr>, e)" using start(5) l(1) by (simp add: Append_def)
    moreover have "slot_clean w2 i \<and> slot_Op (slots w2 ! i) = prepareOp h \<and> Authoritative (slots w2 ! i) = gslice 0 256 frame"
      if "e = None" using l(2) that w(10,11) start(4) by (auto simp: append_effect_def w(6))
    ultimately show ?thesis using start(1-4) same n by auto
  qed
qed

section \<open>Recovery\<close>

lemma DecodeFrame_parts:
  assumes "wal_DecodeFrame wal frame = (h, body, RejectNone)" "wal_ok wal"
  shows "wal_DecodeHeader wal (gslice 0 256 frame) = (h, RejectNone)" "256 \<le> length frame"
    "length frame = unat (Size h)" "length frame \<le> wal_stride wal" "Size h = get32 (gslice 96 100 frame)"
proof -
  show len: "256 \<le> length frame" and dec: "wal_DecodeHeader wal (gslice 0 256 frame) = (h, RejectNone)"
    and "length frame = unat (Size h)"
    using assms(1) by (auto simp: DecodeFrame_def Let_def split: if_splits prod.splits simp flip: nat_uint_eq)
  note acc = DecodeHeader_accepts [OF dec]
  have "unat (ucast (cfg_MessageSizeMax (wal_config wal)) :: u32) \<le> unat (cfg_MessageSizeMax (wal_config wal))"
    by (simp add: unsigned_ucast_eq take_bit_nat_less_eq_self)
  moreover have "unat (cfg_MessageSizeMax (wal_config wal)) \<le> wal_stride wal"
    unfolding prepare_stride_def by (rule align_up_ge) simp
  ultimately show "length frame \<le> wal_stride wal"
    using acc(8) \<open>length frame = unat (Size h)\<close> by (simp add: word_le_nat_alt)
  have "Size h = get32 (gslice 96 100 (gslice 0 256 frame))" by (subst acc(11)) simp
  then show "Size h = get32 (gslice 96 100 frame)" by (simp add: gslice_gslice)
qed

lemma contents_slice:
  assumes "a \<le> b" "b \<le> n"
  shows "gslice a b (contents s n off) = contents s (b - a) (off + a)"
proof (cases "fs_file s")
  case (Some d)
  then show ?thesis
    using assms by (intro nth_equalityI) (auto simp: contents_def disk_read_def nth_slice add.assoc)
qed (simp add: contents_def gslice_def)

text \<open>A durable slot as recovery reads it.\<close>

lemma decode_durable:
  assumes "wal_DecodeFrame wal frame = (h, body, RejectNone)" "Command h = CommandPrepare" "wal_ok wal"
  shows "decodeRecoveryHeader wal (gslice 0 256 frame) slot = recoveryCandidate h slot"
    "decodeRecoveryPrepare wal (padded wal frame) slot = (recoveryCandidate h slot, gslice 0 256 frame)"
proof -
  note d = DecodeFrame_parts [OF assms(1,3)]
  show "decodeRecoveryHeader wal (gslice 0 256 frame) slot = recoveryCandidate h slot"
    using d(1) assms(2) by (simp add: decodeRecoveryHeader_def)
  have pad: "padded wal frame = frame @ replicate (wal_stride wal - length frame) 0"
    using d(4) by (simp add: padded_def copy_at_def)
  have sz: "get32 (gslice 96 100 (padded wal frame)) = Size h"
    using d(2,5) unfolding pad by (simp add: gslice_def)
  have "padded wal frame ! 114 = CommandPrepare"
  proof -
    have "Command h = gslice 0 256 frame ! 114" by (subst DecodeHeader_accepts(11) [OF d(1)]) simp
    then show ?thesis using assms(2) d(2) unfolding pad by (simp add: nth_append nth_slice)
  qed
  moreover have "padded wal frame ! 114 \<in> set (padded wal frame)" using d(2) by (intro nth_mem) (simp add: pad)
  ultimately have "\<exists>x \<in> set (padded wal frame). x \<noteq> 0" by (intro bexI [of _ "padded wal frame ! 114"]) simp_all
  then have nz: "\<not> allZero (padded wal frame)" by (simp add: allZero_iff)
  have "\<not> PrepareStride (wal_layout wal) < ucast (Size h)"
  proof -
    have "unat (PrepareStride (wal_layout wal)) = wal_stride wal" using assms(3) by (intro DeriveWALLayout_Some) (simp add: wal_ok_def)
    then show ?thesis
      using order_trans [OF take_bit_nat_less_eq_self, of "unat (Size h)" "wal_stride wal" 64] d(3,4)
      by (simp add: not_less word_le_nat_alt unsigned_ucast_eq)
  qed
  moreover have "\<not> Size h < 256" using d(2,3) by (simp add: word_less_nat_alt)
  moreover have "take (unat (Size h)) (padded wal frame) = frame" "allZero (drop (unat (Size h)) (padded wal frame))"
    unfolding pad by (simp_all flip: d(3))
  moreover have "take 256 (padded wal frame) = gslice 0 256 frame" using d(2) by (simp add: pad gslice_def)
  moreover have "\<not> length (padded wal frame) < 256" using d(2) by (simp add: pad)
  ultimately show "decodeRecoveryPrepare wal (padded wal frame) slot = (recoveryCandidate h slot, gslice 0 256 frame)"
    using nz sz assms(1,2) by (simp add: decodeRecoveryPrepare_def Let_def)
qed

text \<open>The parts of a log that decoding depends on.\<close>

definition same_log :: "WAL \<Rightarrow> WAL \<Rightarrow> bool" where
  "same_log a b \<longleftrightarrow> wal_config a = wal_config b \<and> wal_group a = wal_group b \<and> wal_memberCount a = wal_memberCount b
     \<and> wal_layout a = wal_layout b"

lemma same_log_decode:
  assumes "same_log a b"
  shows "decodeRecoveryHeader a = decodeRecoveryHeader b" "decodeRecoveryPrepare a = decodeRecoveryPrepare b"
    "prepareOffset a = prepareOffset b" "wal_DecodeHeader a = wal_DecodeHeader b" "wal_DecodeFrame a = wal_DecodeFrame b"
    "padded a = padded b" "prepareMaximum a = prepareMaximum b"
proof -
  have eqs: "wal_config a = wal_config b" "wal_group a = wal_group b" "wal_memberCount a = wal_memberCount b"
    "wal_layout a = wal_layout b" using assms by (simp_all add: same_log_def)
  show "decodeRecoveryHeader a = decodeRecoveryHeader b" "decodeRecoveryPrepare a = decodeRecoveryPrepare b"
    "prepareOffset a = prepareOffset b" "wal_DecodeHeader a = wal_DecodeHeader b" "wal_DecodeFrame a = wal_DecodeFrame b"
    "padded a = padded b" "prepareMaximum a = prepareMaximum b"
    by (simp_all only: fun_eq_iff decodeRecoveryHeader_def decodeRecoveryPrepare_def prepareOffset_def padded_def
        prepareMaximum_def eqs simp_thms)
qed

lemma scan_slots_result:
  assumes "scan_slots wal js scan = (wal', Inr scan')" "wal_ok wal" "\<forall>j \<in> set js. j < length (slots wal)"
  shows "same_log wal' wal \<and> slots wal' = slots wal \<and> headerRing wal' = headerRing wal
    \<and> contents (wal_storage wal') = contents (wal_storage wal) \<and> wal_ok wal'
    \<and> headerCandidates scan' = headerCandidates scan @ map (\<lambda>j. decodeRecoveryHeader wal (header_at j (headerRing wal)) (of_nat j)) js
    \<and> prepareCandidates scan' = prepareCandidates scan @ map (\<lambda>j. fst (decodeRecoveryPrepare wal (disk_prepare wal j) (of_nat j))) js
    \<and> prepareHeaders scan' = prepareHeaders scan @ map (\<lambda>j. snd (decodeRecoveryPrepare wal (disk_prepare wal j) (of_nat j))) js"
  using assms
proof (induction js arbitrary: wal scan)
  case Nil
  then show ?case by (auto simp: same_log_def)
next
  case (Cons j js)
  note z = wal_ok_sizes [OF Cons.prems(2)]
  have j: "j < length (slots wal)" using Cons.prems(3) by simp
  have "j < 2 ^ 64" using j Cons.prems(2) unat_less64 [of "JournalSlots (wal_config wal)"] by (simp add: wal_ok_def)
  then have u: "unat (of_nat j :: u64) = j" by (rule unat_of_nat64)
  obtain off where off: "prepareOffset wal (of_nat j) = Some off" "unat off = prepare_base (wal_config wal) + j * wal_stride wal"
    using prepareOffset_ok [OF Cons.prems(2), of "of_nat j"] j u by auto
  obtain st q where r: "ReadAt (wal_storage wal) (length (prepareBuffer wal)) off = (st, q)" by fastforce
  note rc = ReadAt_contents [OF r]
  obtain data where data: "q = Inr data"
    using Cons.prems(1) off(1) r by (cases q) (auto simp: Let_def)
  have d: "data = disk_prepare wal j" using rc data off(2) z(1) by (simp add: disk_prepare_def)
  let ?wal = "wal\<lparr>wal_storage := st, prepareBuffer := data\<rparr>"
  have same: "same_log ?wal wal" by (simp add: same_log_def)
  have len: "length data = wal_stride wal"
  proof -
    have "fs_file (wal_storage wal) \<noteq> None" using r data by (auto simp: ReadAt_def validateIO_def split: if_splits)
    then show ?thesis unfolding d by (auto simp: disk_prepare_def contents_def disk_read_def)
  qed
  have wok: "wal_ok ?wal" using Cons.prems(2) len z(1) by (simp add: wal_ok_def)
  have dp: "disk_prepare ?wal = disk_prepare wal" using rc by (simp add: disk_prepare_def fun_eq_iff)
  let ?c = "decodeRecoveryHeader wal (header_at j (headerRing wal)) (of_nat j)" and ?p = "decodeRecoveryPrepare wal data (of_nat j)"
  let ?scan = "scan\<lparr>headerCandidates := headerCandidates scan @ [?c], untrustedMax := maxCandidateOp (untrustedMax scan) ?c\<rparr>"
  let ?scan2 = "?scan\<lparr>prepareCandidates := prepareCandidates scan @ [fst ?p], prepareHeaders := prepareHeaders scan @ [snd ?p],
      untrustedMax := maxCandidateOp (maxCandidateOp (untrustedMax scan) ?c) (fst ?p)\<rparr>"
  have rest: "scan_slots ?wal js ?scan2 = (wal', Inr scan')"
    using Cons.prems(1) off(1) r data by (simp add: Let_def same_log_decode [OF same] split: prod.splits)
  have "\<forall>j \<in> set js. j < length (slots ?wal)" using Cons.prems(3) by simp
  note ih = Cons.IH [OF rest wok this, unfolded same_log_decode [OF same] dp]
  then show ?case using rc d by (simp add: same_log_def)
qed

lemma installReservedSlot_frame:
  assumes "installReservedSlot wal j = Inr wal'"
  shows "same_log wal' wal" "length (slots wal') = length (slots wal)" "p \<noteq> j \<Longrightarrow> slots wal' ! p = slots wal ! p"
  using assms by (auto simp: installReservedSlot_def bind_result_Inr_conv same_log_def)

lemma install_slot_frame:
  assumes "install_slot scan ctx j r = Inr r'"
  shows "same_log (ri_wal r') (ri_wal r)" "length (slots (ri_wal r')) = length (slots (ri_wal r))"
    "p \<noteq> j \<Longrightarrow> slots (ri_wal r') ! p = slots (ri_wal r) ! p"
    "ClassifyWALSlot (headerCandidates scan ! j) (prepareCandidates scan ! j) ctx = WALRecoveryClean \<Longrightarrow>
      ri_wal r' = installRecoveredSlot (ri_wal r) j (prepareHeaders scan ! j) (prepareCandidates scan ! j) False"
proof -
  show "same_log (ri_wal r') (ri_wal r)" "length (slots (ri_wal r')) = length (slots (ri_wal r))"
    using assms installReservedSlot_frame(1,2) [of "ri_wal r" j]
    by (fastforce simp: install_slot_def Let_def bind_result_Inr_conv installRecoveredSlot_def same_log_def
        split: WALRecoveryDecision.splits)+
  show "slots (ri_wal r') ! p = slots (ri_wal r) ! p" if "p \<noteq> j"
    using assms installReservedSlot_frame(3) [of "ri_wal r" j _ p] that
    by (fastforce simp: install_slot_def Let_def bind_result_Inr_conv installRecoveredSlot_def
        split: WALRecoveryDecision.splits)
  show "ri_wal r' = installRecoveredSlot (ri_wal r) j (prepareHeaders scan ! j) (prepareCandidates scan ! j) False"
    if "ClassifyWALSlot (headerCandidates scan ! j) (prepareCandidates scan ! j) ctx = WALRecoveryClean"
    using assms that by (auto simp: install_slot_def Let_def)
qed

lemma install_slots_frame:
  assumes "install_slots scan ctx js r = Inr r'"
  shows "same_log (ri_wal r') (ri_wal r) \<and> length (slots (ri_wal r')) = length (slots (ri_wal r))
    \<and> (p \<notin> set js \<longrightarrow> slots (ri_wal r') ! p = slots (ri_wal r) ! p)"
  using assms
proof (induction js arbitrary: r)
  case (Cons j js)
  then obtain r1 where r1: "install_slot scan (ctx j) j r = Inr r1" "install_slots scan ctx js r1 = Inr r'"
    by (auto simp: bind_result_Inr_conv)
  show ?case using install_slot_frame [OF r1(1)] Cons.IH [OF r1(2)] by (auto simp: same_log_def)
qed (simp add: same_log_def)

lemma install_slots_clean:
  assumes "install_slots scan ctx js r = Inr r'" "distinct js" "i \<in> set js" "i < length (slots (ri_wal r))"
    "ClassifyWALSlot (headerCandidates scan ! i) (prepareCandidates scan ! i) (ctx i) = WALRecoveryClean"
  shows "Authoritative (slots (ri_wal r') ! i) = prepareHeaders scan ! i
    \<and> slot_Op (slots (ri_wal r') ! i) = wc_Op (prepareCandidates scan ! i) \<and> slot_clean (ri_wal r') i
    \<and> \<not> Faulty (slots (ri_wal r') ! i)"
  using assms
proof (induction js arbitrary: r)
  case (Cons j js)
  obtain r1 where r1: "install_slot scan (ctx j) j r = Inr r1" "install_slots scan ctx js r1 = Inr r'"
    using Cons.prems(1) by (auto simp: bind_result_Inr_conv)
  show ?case
  proof (cases "i = j")
    case True
    then have "slots (ri_wal r') ! i = slots (ri_wal r1) ! i"
      using install_slots_frame [OF r1(2), of i] Cons.prems(2) by simp
    moreover have "ri_wal r1 = installRecoveredSlot (ri_wal r) i (prepareHeaders scan ! i) (prepareCandidates scan ! i) False"
      using install_slot_frame(4) [OF r1(1)] Cons.prems(5) True by simp
    ultimately show ?thesis using Cons.prems(4) by (simp add: installRecoveredSlot_def)
  next
    case False
    then show ?thesis
      using Cons.IH [OF r1(2)] Cons.prems install_slot_frame(2) [OF r1(1)] by simp
  qed
qed simp

lemma Recover_installed:
  assumes "Recover wal checkpoint commitMax installed = (wal', Some (Inr report))"
  obtains st ring wal1 scan prepareMax r where
    "ReadAt (wal_storage wal) (length (headerRing wal)) (HeaderBase (wal_layout wal)) = (st, Inr ring)"
    "scan_slots (wal\<lparr>wal_storage := st, headerRing := ring\<rparr>) [0..<length (slots wal)]
       \<lparr>headerCandidates = [], prepareCandidates = [], prepareHeaders = [], untrustedMax = PrepareOp checkpoint\<rparr> = (wal1, Inr scan)"
    "prepareMaximum wal1 (PrepareOp checkpoint) = Some prepareMax"
    "install_slots scan (\<lambda>slot. \<lparr>PhysicalSlot = of_nat slot, ctx_JournalSlots = JournalSlots (wal_config wal1),
       RetainedMin = PrepareOp checkpoint, PrepareMax = prepareMax, UntrustedMax = untrustedMax scan, Installed = installed\<rparr>)
       [0..<length (slots wal1)] \<lparr>ri_wal = wal1, repairHeaders = False, ri_faulty = 0\<rparr> = Inr r"
    "same_log wal' (ri_wal r)" "slots wal' = slots (ri_wal r)"
proof -
  have fin: "wal' = w" if "recover_finish w c m u f = (wal', x)" for w c m u f x
    using that by (auto simp: recover_finish_def Let_def split: prod.splits if_splits option.splits)
  from assms show ?thesis
    unfolding Recover_def Let_def
    by (auto split: prod.splits sum.splits option.splits if_splits dest!: fin intro!: that simp: same_log_def)
qed

text \<open>
  The loop over the hash chain ends: every round finds its operation in the slot, and a slot holds
  one operation, so there are no more rounds than slots, even when operation numbers wrap around.
\<close>

lemma recover_head_None:
  assumes "recover_head fuel wal u head headOp = None" "j \<le> fuel"
  shows "slot_Op (wal_slot wal ((headOp + 1 + of_nat j) mod JournalSlots (wal_config wal))) = headOp + 1 + of_nat j"
  using assms
proof (induction fuel arbitrary: head headOp j)
  case 0
  then show ?case by (subst (asm) recover_head.simps) (auto simp: Let_def split: if_splits prod.splits)
next
  case (Suc fuel)
  from Suc.prems(1) obtain candidate where
    step: "slot_Op (wal_slot wal ((headOp + 1) mod JournalSlots (wal_config wal))) = headOp + 1"
      "recover_head fuel wal u candidate (headOp + 1) = None"
    by (subst (asm) recover_head.simps) (auto simp: Let_def split: if_splits prod.splits)
  show ?case
  proof (cases j)
    case 0
    then show ?thesis using step(1) by simp
  next
    case (Suc k)
    have "headOp + 1 + of_nat (Suc k) = headOp + 1 + 1 + of_nat k" by simp
    then show ?thesis using Suc.IH [OF step(2), of k] Suc.prems(2) \<open>j = Suc k\<close> by (simp only: Suc_le_mono)
  qed
qed

lemma recover_head_total:
  assumes "length (slots wal) = unat (JournalSlots (wal_config wal))" "JournalSlots (wal_config wal) \<noteq> 0"
  shows "\<exists>r. recover_head (length (slots wal)) wal u head headOp = Some r"
proof (rule ccontr)
  assume "\<not> ?thesis"
  then have none: "recover_head (length (slots wal)) wal u head headOp = None"
    by (cases "recover_head (length (slots wal)) wal u head headOp") auto
  let ?n = "length (slots wal)" and ?op = "\<lambda>j. headOp + 1 + of_nat j :: Op" and ?i = "\<lambda>op. unat (op mod JournalSlots (wal_config wal))"
  have n: "?n < 2 ^ 64" "\<And>op. ?i op < ?n"
    using assms unat_less64 [of "JournalSlots (wal_config wal)"] by (simp_all add: unat_mod unat_gt_0)
  have inj: "inj_on ?op {..?n}"
  proof (rule inj_onI)
    fix a b
    assume ab: "a \<in> {..?n}" "b \<in> {..?n}" "?op a = ?op b"
    then have eq: "(of_nat a :: u64) = of_nat b" by (simp only: add_left_cancel)
    have "a < 2 ^ 64" "b < 2 ^ 64" using ab(1,2) n(1) by auto
    from unat_of_nat64 [OF this(1)] unat_of_nat64 [OF this(2)] show "a = b" unfolding eq by (simp only:)
  qed
  have "inj_on ?i (?op ` {..?n})"
  proof (rule inj_onI)
    fix x y
    assume xy: "x \<in> ?op ` {..?n}" "y \<in> ?op ` {..?n}" "?i x = ?i y"
    have at: "slot_Op (slots wal ! ?i z) = z" if "z \<in> ?op ` {..?n}" for z
    proof -
      obtain j where j: "z = ?op j" "j \<le> ?n" using \<open>z \<in> ?op ` {..?n}\<close> by blast
      show ?thesis unfolding j(1) by (rule recover_head_None [OF none j(2)])
    qed
    have "x = slot_Op (slots wal ! ?i x)" using at [OF xy(1)] by (simp only:)
    also have "\<dots> = y" unfolding xy(3) by (rule at [OF xy(2)])
    finally show "x = y" .
  qed
  then have "card (?op ` {..?n}) \<le> card {..<?n}" using n(2) by (intro card_inj_on_le [of ?i]) auto
  then show False using card_image [OF inj] by simp
qed

text \<open>What recovery has read, when it succeeds.\<close>

lemma Recover_reads:
  assumes "wal_ok wal" "ReadAt (wal_storage wal) (length (headerRing wal)) (HeaderBase (wal_layout wal)) = (st, Inr ring)"
    and "scan_slots (wal\<lparr>wal_storage := st, headerRing := ring\<rparr>) [0..<length (slots wal)]
       \<lparr>headerCandidates = [], prepareCandidates = [], prepareHeaders = [], untrustedMax = u\<rparr> = (wal1, Inr scan)"
  shows "same_log wal1 wal" "slots wal1 = slots wal" "wal_ok wal1"
    "j < length (slots wal) \<Longrightarrow> headerCandidates scan ! j = decodeRecoveryHeader wal (disk_header wal j) (of_nat j)"
    "j < length (slots wal) \<Longrightarrow> prepareCandidates scan ! j = fst (decodeRecoveryPrepare wal (disk_prepare wal j) (of_nat j))"
    "j < length (slots wal) \<Longrightarrow> prepareHeaders scan ! j = snd (decodeRecoveryPrepare wal (disk_prepare wal j) (of_nat j))"
proof -
  let ?w = "wal\<lparr>wal_storage := st, headerRing := ring\<rparr>"
  note rc = ReadAt_contents [OF assms(2)]
  have ring: "ring = contents (wal_storage wal) (length (headerRing wal)) (header_base wal)" using rc by simp
  have len: "length ring = length (headerRing wal)"
  proof -
    have "fs_file (wal_storage wal) \<noteq> None" using assms(2) by (auto simp: ReadAt_def validateIO_def split: if_splits)
    then show ?thesis unfolding ring by (auto simp: contents_def disk_read_def)
  qed
  have wok: "wal_ok ?w" using assms(1) len by (simp add: wal_ok_def)
  have same: "same_log ?w wal" by (simp add: same_log_def)
  have dp: "disk_prepare ?w = disk_prepare wal" using rc by (simp add: disk_prepare_def fun_eq_iff)
  have "\<forall>j \<in> set [0..<length (slots wal)]. j < length (slots ?w)" by simp
  note r = scan_slots_result [OF assms(3) wok this, unfolded same_log_decode [OF same] dp]
  show "same_log wal1 wal" "slots wal1 = slots wal" "wal_ok wal1" using r by (simp_all add: same_log_def)
  assume j: "j < length (slots wal)"
  have "(j + 1) * 256 \<le> length (slots wal) * 256" using j by (intro mult_le_mono1) simp
  then have "(j + 1) * 256 \<le> length (headerRing wal)" using wal_ok_sizes(2) [OF assms(1)] by linarith
  then have "header_at j ring = disk_header wal j" unfolding ring disk_header_def by (subst contents_slice) simp_all
  then show "headerCandidates scan ! j = decodeRecoveryHeader wal (disk_header wal j) (of_nat j)"
    "prepareCandidates scan ! j = fst (decodeRecoveryPrepare wal (disk_prepare wal j) (of_nat j))"
    "prepareHeaders scan ! j = snd (decodeRecoveryPrepare wal (disk_prepare wal j) (of_nat j))"
    using r j by simp_all
qed

lemma Classify_clean:
  assumes "wc_Kind c = WALCandidateOrdinary" "wc_Op c mod ctx_JournalSlots ctx = PhysicalSlot ctx" "ctx_JournalSlots ctx \<noteq> 0"
    "wc_Op c \<le> PrepareMax ctx" "wc_Op c \<le> rv_HeadOp (Installed ctx) \<or> rv_LogView (Installed ctx) \<le> wc_View c"
  shows "ClassifyWALSlot c c ctx = WALRecoveryClean"
proof -
  have "\<not> impossibleWALCandidate c ctx" "\<not> futureWALCandidate c ctx" "\<not> obsoleteWALCandidate c (Installed ctx)"
    using assms by (auto simp: impossibleWALCandidate_def futureWALCandidate_def obsoleteWALCandidate_def)
  then show ?thesis using assms(1) by (simp add: ClassifyWALSlot_def candidatesEqual_def)
qed

section \<open>An example\<close>

definition example_config :: ClusterConfig where
  "example_config = DefaultClusterConfig\<lparr>JournalSlots := 2, cfg_PipelineMax := 0, CompactionOps := 1\<rparr>"

definition example_layout :: WALLayout where
  "example_layout = \<lparr>HeaderBase = 32768, HeaderSize = 4096, PrepareBase = 36864, PrepareStride = 1048576,
     PrepareSize = 2097152, ReplyBase = 2134016, ReplyStride = 1048576, ReplySize = 67108864, layout_BlockBase = 69730304\<rparr>"

definition example_entry :: "nat \<Rightarrow> Header" where
  "example_entry op = zeroHeader\<lparr>Command := CommandPrepare, Fields := copy_at 96 104 (put64 (of_nat op)) (replicate 124 0) @ [128, 0, 0, 0]\<rparr>"

definition example_frame :: "nat \<Rightarrow> bytes" where
  "example_frame op = (case SealFrame (replicate 256 0) (example_entry op) of Inr (f, h) \<Rightarrow> f | Inl e \<Rightarrow> [])"

definition example_wal :: WAL where
  "example_wal = \<lparr>wal_storage = \<lparr>fs_file = Some \<lparr>cells = (\<lambda>a.
         if a < 36864 then example_frame ((a - 32768) div 256) ! ((a - 32768) mod 256)
         else (example_frame ((a - 36864) div 1048576) @ replicate 1048320 0) ! ((a - 36864) mod 1048576)),
       disk_size = 69730304, outcomes = []\<rparr>, fs_direct = False, fs_closeErr = None\<rparr>,
     wal_config = example_config, wal_group = zeroID, wal_memberCount = 3, wal_layout = example_layout,
     slots = map (\<lambda>i. zeroSlot\<lparr>Authoritative := example_frame i, slot_Op := of_nat i, Inhabited := True\<rparr>) [0..<2],
     headerRing = example_frame 0 @ example_frame 1 @ replicate 3584 0,
     prepareBuffer = replicate 1048576 0, wal_ioActive = False\<rparr>"

lemma example_frame_decodes:
  "\<exists>h. DecodeFrame (example_frame op) zeroID 1048576 3 = (h, [], RejectNone) \<and> Command h = CommandPrepare
    \<and> prepareOp h = of_nat op \<and> prepareOperation h = 128 \<and> View h = 0"
  "length (example_frame op) = 256"
proof -
  let ?e = "example_entry op"
  have e: "Protocol ?e = ProtocolVersion" "Epoch ?e = 0" "command_IsDefined (Command ?e)" "header_wf ?e"
    "Group ?e = zeroID" "Author ?e = 0" "Command ?e = CommandPrepare" "View ?e = 0"
    by (simp_all add: example_entry_def zeroHeader_def command_IsDefined_def header_wf_def zeroID_def)
  obtain f h where s: "SealFrame (replicate 256 0) ?e = Inr (f, h)" using SealFrame_total [of "replicate 256 0" ?e] e by auto
  obtain enc where enc: "f = enc" "EncodeHeader (replicate 256 0) (?e\<lparr>Size := 256, BodyChecksum := ChecksumBytes []\<rparr>) = Inr (enc, h)"
    using SealFrame_ok(3) [OF s] by auto
  let ?h = "?e\<lparr>Size := 256, BodyChecksum := ChecksumBytes []\<rparr>"
  have pre: "header_wf ?h" "Size ?h \<le> 1048576" "Author ?h < 3" "Size ?h = of_nat (256 + length [])" "length ([] :: bytes) \<le> 4294967039"
    "BodyChecksum ?h = ChecksumBytes []" using e by (simp_all add: header_wf_def)
  note dec = DecodeHeader_EncodeHeader [OF enc(2) pre(1-3)]
  have fr: "example_frame op = f" using s by (simp add: example_frame_def)
  show "length (example_frame op) = 256" using dec(2) enc(1) fr by simp
  have "DecodeFrame f zeroID 1048576 3 = (h, [], RejectNone)"
    using sealed_DecodeFrame [OF enc(2) pre] enc(1) e by simp
  moreover have "Fields h = Fields ?e" "Command h = CommandPrepare" "View h = 0" by (subst dec(3), simp add: e)+
  moreover have "prepareOp ?e = of_nat op" "prepareOperation ?e = 128"
    by (simp_all add: prepareOp_def prepareOperation_def example_entry_def gslice_def nth_append copy_at_def codec_simps)
  ultimately show "\<exists>h. DecodeFrame (example_frame op) zeroID 1048576 3 = (h, [], RejectNone) \<and> Command h = CommandPrepare
      \<and> prepareOp h = of_nat op \<and> prepareOperation h = 128 \<and> View h = 0"
    using fr by (auto simp: prepareOp_def prepareOperation_def)
qed

lemma example_wal_ok: "wal_ok example_wal" "length (slots example_wal) = 2"
proof -
  have "DeriveWALLayout example_config = Some example_layout"
    by (simp add: DeriveWALLayout_def example_config_def DefaultClusterConfig_def checkedMul_def checkedAdd_def checkedAlignUp_def
        example_layout_def)
  then show "wal_ok example_wal" "length (slots example_wal) = 2"
    by (simp_all add: wal_ok_def example_wal_def example_config_def example_layout_def example_frame_decodes(2))
qed

lemma example_wal_fields:
  "wal_config example_wal = example_config" "wal_group example_wal = zeroID" "wal_memberCount example_wal = 3"
  "wal_layout example_wal = example_layout" "prepare_stride example_config = 1048576" "prepare_base example_config = 36864"
  "ucast (cfg_MessageSizeMax example_config) = (1048576 :: u32)" "JournalSlots example_config = 2"
  by (simp_all add: example_wal_def prepare_stride_def prepare_base_def align_up_def example_config_def DefaultClusterConfig_def)

lemma example_wal_inv: "wal_inv example_wal"
proof -
  have "slot_durable example_wal i" if i: "i < 2" for i
  proof -
    have a: "Authoritative (slots example_wal ! i) = example_frame i" "slot_Op (slots example_wal ! i) = of_nat i"
      using i by (simp_all add: example_wal_def)
    have "disk_header example_wal i = map (\<lambda>j. example_frame i ! j) [0..<256]"
      using i by (simp add: disk_header_def example_wal_def example_layout_def contents_def disk_read_def)
    then have enc: "disk_header example_wal i = example_frame i" using map_nth [of "example_frame i"] by (simp add: example_frame_decodes)
    have pd: "padded example_wal (example_frame i) = example_frame i @ replicate 1048320 0"
      by (simp add: padded_def example_wal_fields copy_at_def Let_def example_frame_decodes)
    have "disk_prepare example_wal i = map (\<lambda>j. (example_frame i @ replicate 1048320 0) ! j) [0..<1048576]"
      unfolding disk_prepare_def example_wal_fields using i by (simp add: example_wal_def contents_def disk_read_def)
    then have "disk_prepare example_wal i = padded example_wal (example_frame i)"
      using map_nth [of "example_frame i @ replicate 1048320 0"] by (simp add: example_frame_decodes pd)
    moreover have "header_at i (headerRing example_wal) = example_frame i"
      using i by (cases "i = 0") (auto simp: example_wal_def gslice_def example_frame_decodes less_2_cases_iff)
    moreover obtain h where "DecodeFrame (example_frame i) zeroID 1048576 3 = (h, [], RejectNone)" "Command h = CommandPrepare"
      "prepareOp h = of_nat i" using example_frame_decodes(1) [of i] by blast
    moreover have "unat (of_nat i mod 2 :: u64) = i" using i by (auto simp: less_2_cases_iff)
    ultimately show ?thesis
      unfolding slot_durable_def a enc example_wal_fields
      by (intro conjI exI [of _ "example_frame i"] exI [of _ h] exI [of _ "[]"]) (simp_all add: example_frame_decodes)
  qed
  then show ?thesis unfolding wal_inv_def using example_wal_ok by simp
qed

lemma install_slots_all_clean:
  assumes "\<forall>j \<in> set js. ClassifyWALSlot (headerCandidates scan ! j) (prepareCandidates scan ! j) (ctx j) = WALRecoveryClean"
    "\<not> repairHeaders r" "ri_faulty r = 0"
  shows "\<exists>r'. install_slots scan ctx js r = Inr r' \<and> \<not> repairHeaders r' \<and> ri_faulty r' = 0"
  using assms
proof (induction js arbitrary: r)
  case (Cons j js)
  have "install_slot scan (ctx j) j r = Inr (r\<lparr>ri_wal := installRecoveredSlot (ri_wal r) j (prepareHeaders scan ! j) (prepareCandidates scan ! j) False\<rparr>)"
    using Cons.prems(1) by (simp add: install_slot_def Let_def)
  then show ?case using Cons by simp
qed simp

lemma scan_slots_passes:
  assumes "wal_ok wal" "\<forall>j \<in> set js. j < length (slots wal)"
    and "\<And>off. unat off + wal_stride wal \<le> n \<Longrightarrow>
      \<exists>data. ReadAt (wal_storage wal) (wal_stride wal) off = (wal_storage wal, Inr data) \<and> length data = wal_stride wal"
    and "prepare_base (wal_config wal) + length (slots wal) * wal_stride wal \<le> n"
  shows "\<exists>wal' scan'. scan_slots wal js scan = (wal', Inr scan')"
  using assms
proof (induction js arbitrary: wal scan)
  case (Cons j js)
  note z = wal_ok_sizes [OF Cons.prems(1)]
  have j: "j < length (slots wal)" using Cons.prems(2) by simp
  have "j < 2 ^ 64" using j Cons.prems(1) unat_less64 [of "JournalSlots (wal_config wal)"] by (simp add: wal_ok_def)
  then have u: "unat (of_nat j :: u64) = j" by (rule unat_of_nat64)
  obtain off where off: "prepareOffset wal (of_nat j) = Some off" "unat off = prepare_base (wal_config wal) + j * wal_stride wal"
    using prepareOffset_ok [OF Cons.prems(1), of "of_nat j"] j u by auto
  have "(j + 1) * wal_stride wal \<le> length (slots wal) * wal_stride wal" using j by (intro mult_le_mono1) simp
  then have "unat off + wal_stride wal \<le> n" using off(2) Cons.prems(4) by simp
  then obtain data where d: "ReadAt (wal_storage wal) (wal_stride wal) off = (wal_storage wal, Inr data)" "length data = wal_stride wal"
    using Cons.prems(3) by blast
  let ?w = "wal\<lparr>wal_storage := wal_storage wal, prepareBuffer := data\<rparr>"
  have "wal_ok ?w" using Cons.prems(1) d(2) z(1) by (simp add: wal_ok_def)
  then have "\<exists>wal' scan'. scan_slots ?w js s = (wal', Inr scan')" for s
    using Cons.prems(2-4) by (intro Cons.IH) simp_all
  then show ?case using off(1) d(1) by (simp add: z(1) Let_def split: prod.splits)
qed simp

definition example_state :: CheckpointState where
  "example_state = (example_checkpoint 0)\<lparr>cs_Header := example_frame 0\<rparr>"

lemma example_PrepareOp: "PrepareOp example_state = 0"
proof -
  obtain h where h: "DecodeFrame (example_frame 0) zeroID 1048576 3 = (h, [], RejectNone)" "prepareOp h = 0"
    using example_frame_decodes(1) [of 0] by auto
  then have "DecodeHeader (example_frame 0) zeroID 1048576 3 = (h, RejectNone)"
    using DecodeFrame_parts(1) [of "example_frame 0" example_wal h "[]"] example_wal_ok(1)
    by (simp add: example_wal_fields example_frame_decodes)
  then have "Fields h = gslice 128 256 (example_frame 0)" by (subst DecodeHeader_accepts(11)) simp_all
  then show ?thesis using h(2) by (simp add: PrepareOp_def prepareOp_def example_state_def gslice_gslice)
qed

lemma example_prepareMaximum: "prepareMaximum example_wal 0 = Some 1"
  by (simp add: prepareMaximum_def example_wal_fields example_config_def DefaultClusterConfig_def CheckpointInterval_def
      checkedMul_def checkedAdd_def checkedRoundUp_def word_le_nat_alt)

lemma example_candidate:
  assumes "j < 2"
  obtains h where "decodeRecoveryHeader example_wal (disk_header example_wal j) (of_nat j) = recoveryCandidate h (of_nat j)"
    "fst (decodeRecoveryPrepare example_wal (disk_prepare example_wal j) (of_nat j)) = recoveryCandidate h (of_nat j)"
    "prepareOp h = of_nat j" "prepareOperation h = 128" "View h = 0"
    "wal_DecodeHeader example_wal (example_frame j) = (h, RejectNone)" "Command h = CommandPrepare"
proof -
  have a: "Authoritative (slots example_wal ! j) = example_frame j" "slot_clean example_wal j"
    using assms by (simp_all add: example_wal_def zeroSlot_def)
  then have "slot_durable example_wal j" using example_wal_inv example_wal_ok(2) assms by (simp add: wal_inv_def)
  then obtain frame h body where f: "wal_DecodeFrame example_wal frame = (h, body, RejectNone)" "Command h = CommandPrepare"
    "gslice 0 256 frame = example_frame j" "disk_prepare example_wal j = padded example_wal frame"
    "disk_header example_wal j = gslice 0 256 frame"
    unfolding slot_durable_def a by metis
  obtain h2 where h2: "DecodeFrame (example_frame j) zeroID 1048576 3 = (h2, [], RejectNone)" "prepareOp h2 = of_nat j"
    "prepareOperation h2 = 128" "View h2 = 0" using example_frame_decodes(1) [of j] by blast
  have d: "wal_DecodeHeader example_wal (example_frame j) = (h, RejectNone)"
    using DecodeFrame_parts(1) [OF f(1) example_wal_ok(1)] f(3) by simp
  moreover have "wal_DecodeHeader example_wal (gslice 0 256 (example_frame j)) = (h2, RejectNone)"
    using DecodeFrame_parts(1) [of "example_frame j" example_wal h2 "[]"] h2(1) example_wal_ok(1) by (simp add: example_wal_fields)
  ultimately have "h2 = h" by (simp add: example_frame_decodes)
  then show ?thesis using that [of h] decode_durable [OF f(1,2) example_wal_ok(1)] f h2 d by simp
qed

lemma example_recovers:
  "\<exists>wal' report. Recover example_wal example_state 0 \<lparr>rv_LogView = 0, rv_HeadOp = 0\<rparr> = (wal', Some (Inr report))"
proof -
  let ?i = "\<lparr>rv_LogView = 0, rv_HeadOp = 0\<rparr> :: WALRecoveryView"
  have read: "ReadAt (wal_storage example_wal) n off = (wal_storage example_wal, Inr (contents (wal_storage example_wal) n (unat off)))
      \<and> length (contents (wal_storage example_wal) n (unat off)) = n" if "unat off + n \<le> 69730304" for n off
  proof -
    have "\<not> off > MaxInt64" using that by (simp add: word_less_nat_alt)
    then show ?thesis using that
      by (simp add: ReadAt_def validateIO_def example_wal_def next_outcome_def contents_def disk_read_def)
  qed
  have sz: "length (headerRing example_wal) = 4096" "unat (HeaderBase (wal_layout example_wal)) = 32768"
    by (simp_all add: example_wal_def example_layout_def example_frame_decodes)
  let ?ring = "contents (wal_storage example_wal) 4096 32768"
  have r1: "ReadAt (wal_storage example_wal) (length (headerRing example_wal)) (HeaderBase (wal_layout example_wal))
      = (wal_storage example_wal, Inr ?ring)" "length ?ring = 4096"
    using read [of "HeaderBase (wal_layout example_wal)" 4096] sz by simp_all
  let ?w = "example_wal\<lparr>wal_storage := wal_storage example_wal, headerRing := ?ring\<rparr>"
  let ?s = "\<lparr>headerCandidates = [], prepareCandidates = [], prepareHeaders = [], untrustedMax = PrepareOp example_state\<rparr>"
  have "wal_ok ?w" using example_wal_ok(1) r1(2) sz by (simp add: wal_ok_def)
  then obtain wal1 scan where s: "scan_slots ?w [0..<length (slots example_wal)] ?s = (wal1, Inr scan)"
    using scan_slots_passes [of ?w "[0..<length (slots example_wal)]" 69730304 ?s] read example_wal_ok(2)
    by (auto simp: example_wal_fields)
  note rd = Recover_reads [OF example_wal_ok(1) r1(1) s]
  have cfg: "JournalSlots (wal_config wal1) = 2" "prepareMaximum wal1 0 = Some 1" "wal_memberCount wal1 = 3"
    using rd(1) same_log_decode(7) [OF rd(1)] example_prepareMaximum by (simp_all add: same_log_def example_wal_fields)
  define ctx where "ctx = (\<lambda>slot. \<lparr>PhysicalSlot = of_nat slot, ctx_JournalSlots = 2, RetainedMin = 0, PrepareMax = 1,
      UntrustedMax = untrustedMax scan, Installed = ?i\<rparr>)"
  have clean: "ClassifyWALSlot (headerCandidates scan ! j) (prepareCandidates scan ! j) (ctx j) = WALRecoveryClean" if j: "j < 2" for j
  proof -
    obtain h where h: "headerCandidates scan ! j = recoveryCandidate h (of_nat j)" "prepareCandidates scan ! j = recoveryCandidate h (of_nat j)"
      "prepareOp h = of_nat j" "prepareOperation h = 128" "View h = 0"
      using example_candidate [OF j] rd(4,5) [of j] j example_wal_ok(2) by (metis (no_types))
    have "of_nat j mod 2 = (of_nat j :: u64)" "of_nat j \<le> (1 :: u64)" using j by (auto simp: less_2_cases_iff)
    then show ?thesis unfolding h(1,2)
      using h(3-5) by (intro Classify_clean) (simp_all add: recoveryCandidate_def Let_def ctx_def)
  qed
  obtain r where r: "install_slots scan ctx [0..<length (slots wal1)] \<lparr>ri_wal = wal1, repairHeaders = False, ri_faulty = 0\<rparr> = Inr r"
    "\<not> repairHeaders r" "ri_faulty r = 0"
    using install_slots_all_clean [of "[0..<length (slots wal1)]" scan ctx "\<lparr>ri_wal = wal1, repairHeaders = False, ri_faulty = 0\<rparr>"] clean rd(2) example_wal_ok(2) by auto
  have same: "same_log (ri_wal r) example_wal" "length (slots (ri_wal r)) = 2" "wal_memberCount (ri_wal r) = 3"
    "JournalSlots (wal_config (ri_wal r)) = 2"
    using install_slots_frame [OF r(1), of 0] rd(1,2) example_wal_ok(2) by (simp_all add: same_log_def example_wal_fields)
  obtain h where h: "wal_DecodeHeader (ri_wal r) (cs_Header example_state) = (h, RejectNone)" "Command h = CommandPrepare"
    using example_candidate [of 0] same(1) by (auto simp: same_log_def example_state_def)
  obtain head headOp where "recover_head (length (slots (ri_wal r))) (ri_wal r) (untrustedMax scan) h 0 = Some (head, headOp)"
    using recover_head_total [of "ri_wal r" "untrustedMax scan" h 0] same(2,4) by auto
  then obtain report where "recover_finish (ri_wal r) example_state 0 (untrustedMax scan) 0 = (ri_wal r, Some (Inr report))"
    using h by (simp add: recover_finish_def example_PrepareOp)
  then show ?thesis
    unfolding Recover_def using r1(1) s r cfg same(3) by (simp add: Let_def example_PrepareOp ctx_def)
qed

section \<open>Properties\<close>



text \<open>
  C10: what a consistent log holds survives a restart. Let another log of the same configuration be
  recovered from the disk that the first one has written, whatever is left in memory. If recovery
  succeeds, then every slot that was inhabited and clean is found again with its header, unless
  its operation lies beyond the last operation that may be prepared at the checkpoint, or was
  superseded by the installed view. A slot that recovery reports is never reserved.
\<close>

theorem Recover_finds_durable:
  assumes "wal_inv old" "i < length (slots old)" "slot_clean old i"
    and "wal_DecodeHeader old (Authoritative (slots old ! i)) = (h, RejectNone)" "prepareOperation h \<noteq> OperationReserved"
    and "wal_ok wal" "same_log wal old" "contents (wal_storage wal) = contents (wal_storage old)"
    and "Recover wal checkpoint commitMax installed = (wal', Some (Inr report))"
    and "prepareMaximum wal (PrepareOp checkpoint) = Some prepareMax" "prepareOp h \<le> prepareMax"
    and "prepareOp h \<le> rv_HeadOp installed \<or> rv_LogView installed \<le> View h"
  shows "RecoveredHeader wal' (prepareOp h) = (h, True)"
proof -
  obtain st ring wal1 scan pm r where rec:
    "ReadAt (wal_storage wal) (length (headerRing wal)) (HeaderBase (wal_layout wal)) = (st, Inr ring)"
    "scan_slots (wal\<lparr>wal_storage := st, headerRing := ring\<rparr>) [0..<length (slots wal)]
       \<lparr>headerCandidates = [], prepareCandidates = [], prepareHeaders = [], untrustedMax = PrepareOp checkpoint\<rparr> = (wal1, Inr scan)"
    "prepareMaximum wal1 (PrepareOp checkpoint) = Some pm"
    "install_slots scan (\<lambda>slot. \<lparr>PhysicalSlot = of_nat slot, ctx_JournalSlots = JournalSlots (wal_config wal1),
       RetainedMin = PrepareOp checkpoint, PrepareMax = pm, UntrustedMax = untrustedMax scan, Installed = installed\<rparr>)
       [0..<length (slots wal1)] \<lparr>ri_wal = wal1, repairHeaders = False, ri_faulty = 0\<rparr> = Inr r"
    "same_log wal' (ri_wal r)" "slots wal' = slots (ri_wal r)"
    using Recover_installed [OF assms(9)] by blast
  note rd = Recover_reads [OF assms(6) rec(1,2)]
  have old: "wal_ok old" "slot_durable old i" using assms(1-3) by (auto simp: wal_inv_def)
  have sl: "wal_config wal = wal_config old" "wal_group wal = wal_group old" "wal_memberCount wal = wal_memberCount old"
    "wal_layout wal = wal_layout old" using assms(7) by (simp_all add: same_log_def)
  obtain frame h' body where f: "wal_DecodeFrame wal frame = (h', body, RejectNone)" "Command h' = CommandPrepare"
    "gslice 0 256 frame = Authoritative (slots old ! i)" "disk_prepare old i = padded wal frame"
    "unat (prepareOp h' mod JournalSlots (wal_config old)) = i" "disk_header old i = gslice 0 256 frame"
    using old(2) by (auto simp: slot_durable_def sl padded_def)
  have h: "h' = h" using DecodeFrame_parts(1) [OF f(1) assms(6)] f(3) assms(4) by (simp add: sl)
  have n: "length (slots wal) = length (slots old)" "JournalSlots (wal_config old) \<noteq> 0"
    using assms(6) old(1) by (simp_all add: wal_ok_def sl)
  have i: "i < length (slots wal)" "of_nat i = prepareOp h mod JournalSlots (wal_config old)"
    using assms(2) n f(5) h by (auto simp flip: f(5))
  have disk: "disk_header wal i = gslice 0 256 frame" "disk_prepare wal i = padded wal frame"
    using f(4,6) assms(8) by (simp_all add: disk_header_def disk_prepare_def sl)
  let ?c = "recoveryCandidate h (of_nat i)"
  have c: "headerCandidates scan ! i = ?c" "prepareCandidates scan ! i = ?c" "prepareHeaders scan ! i = gslice 0 256 frame"
    using rd(4-6) [OF i(1)] decode_durable [OF f(1,2) assms(6), of "of_nat i"] by (simp_all add: disk h)
  have cv: "wc_Kind ?c = WALCandidateOrdinary" "wc_Op ?c = prepareOp h" "wc_View ?c = View h"
    using assms(5) by (simp_all add: recoveryCandidate_def Let_def)
  have "pm = prepareMax" using rec(3) assms(10) same_log_decode(7) [OF rd(1)] by (simp add: fun_eq_iff)
  then have "Authoritative (slots (ri_wal r) ! i) = gslice 0 256 frame \<and> slot_Op (slots (ri_wal r) ! i) = prepareOp h
      \<and> slot_clean (ri_wal r) i \<and> \<not> Faulty (slots (ri_wal r) ! i)"
    using install_slots_clean [OF rec(4), of i] Classify_clean [of ?c] c cv i rd(1,2) sl(1) n(2) assms(11,12)
    by (simp add: same_log_def)
  moreover have "same_log wal' wal"
    using rec(5) install_slots_frame [OF rec(4), of 0] rd(1) by (simp add: same_log_def)
  ultimately show ?thesis
    using f(3,5) h assms(4) rec(6) by (simp add: RecoveredHeader_def Let_def same_log_def sl)
qed

theorem Recover_finds_durable_witness:
  "\<exists>wal' report h. Recover example_wal example_state 0 \<lparr>rv_LogView = 0, rv_HeadOp = 0\<rparr> = (wal', Some (Inr report))
    \<and> RecoveredHeader wal' 1 = (h, True)"
proof -
  obtain wal' report where r: "Recover example_wal example_state 0 \<lparr>rv_LogView = 0, rv_HeadOp = 0\<rparr> = (wal', Some (Inr report))"
    using example_recovers by blast
  obtain h where h: "DecodeFrame (example_frame 1) zeroID 1048576 3 = (h, [], RejectNone)" "prepareOp h = 1" "prepareOperation h = 128"
    using example_frame_decodes(1) [of 1] by auto
  have "RecoveredHeader wal' (prepareOp h) = (h, True)"
  proof (rule Recover_finds_durable [OF example_wal_inv _ _ _ _ example_wal_ok(1) _ refl r])
    show "1 < length (slots example_wal)" "slot_clean example_wal 1" by (simp_all add: example_wal_def zeroSlot_def)
    show "wal_DecodeHeader example_wal (Authoritative (slots example_wal ! 1)) = (h, RejectNone)"
      using DecodeFrame_parts(1) [of "example_frame 1" example_wal h "[]"] example_wal_ok(1) h(1)
      by (simp add: example_wal_fields example_frame_decodes) (simp add: example_wal_def)
    show "same_log example_wal example_wal" by (simp add: same_log_def)
    show "prepareMaximum example_wal (PrepareOp example_state) = Some 1"
      using example_prepareMaximum by (simp add: example_PrepareOp)
  qed (use h in simp_all)
  then show ?thesis using r h(2) by auto
qed

end
