(* ===== verification/Ring_Queue.thy ===== *)
theory Ring_Queue
  imports Prelude
begin

text \<open>
  Bounded queues kept as a slice with a head and a length, as the replica keeps its pipeline and
  its queue of client requests: the index arithmetic they share, the contract of such a queue and
  what follows from it.
\<close>

definition ring_index :: "nat \<Rightarrow> u32 \<Rightarrow> u32 \<Rightarrow> nat" where
  "ring_index capacity first offset = unat ((first + offset) mod of_nat capacity)"

definition ring_next :: "nat \<Rightarrow> u32 \<Rightarrow> u32" where
  "ring_next capacity first = (first + 1) mod of_nat capacity"

definition ring_contents :: "'a list \<Rightarrow> u32 \<Rightarrow> u32 \<Rightarrow> 'a list" where
  "ring_contents xs first len = map (\<lambda>i. xs ! ring_index (length xs) first (of_nat i)) [0..<unat len]"

definition ring_ok :: "'a list \<Rightarrow> u32 \<Rightarrow> u32 \<Rightarrow> bool" where
  "ring_ok xs first len \<longleftrightarrow> length xs < 2 ^ 31 \<and> unat first < length xs \<and> unat len \<le> length xs"

lemma ring_index_nat:
  assumes "capacity < 2 ^ 31" "unat first < capacity" "i \<le> capacity"
  shows "ring_index capacity first (of_nat i) = (unat first + i) mod capacity"
proof -
  have "unat (of_nat i :: u32) = i" "unat (of_nat capacity :: u32) = capacity"
    using assms by (simp_all add: unsigned_of_nat take_bit_nat_eq_self)
  moreover from this have "unat (first + of_nat i) = unat first + i"
    using unat_add_noof [of first "of_nat i"] assms by simp
  ultimately show ?thesis by (simp add: ring_index_def unat_mod)
qed

lemma ring_next_nat:
  assumes "capacity < 2 ^ 31" "unat first < capacity"
  shows "unat (ring_next capacity first) = (unat first + 1) mod capacity"
  using ring_index_nat [of capacity first 1] assms by (simp add: ring_index_def ring_next_def)

lemma ring_contents_nat:
  assumes "ring_ok xs first len"
  shows "ring_contents xs first len = map (\<lambda>i. xs ! ((unat first + i) mod length xs)) [0..<unat len]"
  unfolding ring_contents_def
  by (rule map_cong [OF refl]) (use assms in \<open>auto simp: ring_ok_def ring_index_nat\<close>)

lemma ring_index_inj:
  fixes n a i j :: nat
  assumes eq: "(a + i) mod n = (a + j) mod n" and "i < n" "j < n"
  shows "i = j"
proof (rule ccontr)
  assume "i \<noteq> j"
  define lo hi where "lo = min i j" and "hi = max i j"
  have "(a + hi) mod n = (a + lo) mod n" "lo < hi" "hi < n"
    using assms \<open>i \<noteq> j\<close> by (auto simp: lo_def hi_def min_def max_def)
  then have "n dvd hi - lo" using mod_eq_dvd_iff_nat [of "a + lo" "a + hi" n] by simp
  then show False using \<open>lo < hi\<close> \<open>hi < n\<close> by (auto dest: dvd_imp_le)
qed

lemma ring_push:
  assumes ok: "ring_ok xs first len" and room: "unat len < length xs"
    and ys_def: "ys = xs[ring_index (length xs) first len := v]"
  shows "ring_ok ys first (len + 1) \<and> ring_contents ys first (len + 1) = ring_contents xs first len @ [v]"
proof -
  let ?n = "length xs"
  have small: "?n < 2 ^ 31" "unat first < ?n" using ok by (simp_all add: ring_ok_def)
  then have len: "unat (len + 1) = unat len + 1" using room unat_add_noof [of len 1] by simp
  then have ok': "ring_ok ys first (len + 1)" using ok room by (simp add: ring_ok_def ys_def)
  have at: "ring_index ?n first len = (unat first + unat len) mod ?n"
    using ring_index_nat [of ?n first "unat len"] small room by simp
  have "ys ! ((unat first + i) mod ?n) = xs ! ((unat first + i) mod ?n)" if "i < unat len" for i
    using ring_index_inj [of "unat first" i ?n "unat len"] that room
    by (auto simp: ys_def at intro!: nth_list_update_neq)
  moreover have "(unat first + unat len) mod ?n < ?n"
    by (rule mod_less_divisor [OF le_less_trans [OF le0 small(2)]])
  ultimately show ?thesis
    using ok' unfolding ring_contents_nat [OF ok'] ring_contents_nat [OF ok] len
    by (simp add: ys_def at)
qed

lemma ring_pop:
  assumes ok: "ring_ok xs first len" and some: "len \<noteq> 0"
    and ys_def: "ys = xs[ring_index (length xs) first 0 := z]"
  shows "ring_ok ys (ring_next (length xs) first) (len - 1)
    \<and> ring_contents ys (ring_next (length xs) first) (len - 1) = tl (ring_contents xs first len)"
proof -
  let ?n = "length xs"
  have small: "?n < 2 ^ 31" "unat first < ?n" "unat len \<le> ?n" using ok by (simp_all add: ring_ok_def)
  have len: "unat (len - 1) = unat len - 1" using some by (rule unat_minus_one)
  have nxt: "unat (ring_next ?n first) = (unat first + 1) mod ?n" using ring_next_nat small by blast
  have ok': "ring_ok ys (ring_next ?n first) (len - 1)"
    using small mod_less_divisor [OF le_less_trans [OF le0 small(2)], of "unat first + 1"] by (auto simp: ring_ok_def ys_def nxt len)
  have at: "ring_index ?n first 0 = unat first" using ring_index_nat [of ?n first 0] small by simp
  have "ys ! (((unat first + 1) mod ?n + i) mod ?n) = xs ! ((unat first + Suc i) mod ?n)"
    if "i < unat len - 1" for i
  proof -
    have "((unat first + 1) mod ?n + i) mod ?n = (unat first + Suc i) mod ?n" by (simp add: mod_add_left_eq)
    moreover have "(unat first + Suc i) mod ?n \<noteq> unat first"
    proof
      assume "(unat first + Suc i) mod ?n = unat first"
      then have "(unat first + Suc i) mod ?n = (unat first + 0) mod ?n" using small by simp
      from ring_index_inj [OF this] that small show False by linarith
    qed
    ultimately show ?thesis by (simp add: ys_def at)
  qed
  moreover have "[0..<unat len] = 0 # map Suc [0..<unat len - 1]"
    using some by (simp add: upt_conv_Cons map_Suc_upt unat_gt_0 word_neq_0_conv)
  ultimately show ?thesis
    using ok' unfolding ring_contents_nat [OF ok'] ring_contents_nat [OF ok] nxt len
    by (simp add: ys_def)
qed

lemma length_ring_contents [simp]: "length (ring_contents xs first len) = unat len"
  by (simp add: ring_contents_def)

section \<open>The contract of a bounded queue\<close>

locale bounded_queue =
  fixes queue_ok :: "'s \<Rightarrow> bool" and items :: "'s \<Rightarrow> 'a list" and capacity :: "'s \<Rightarrow> nat"
    and push :: "'a \<Rightarrow> 's \<Rightarrow> 's option" and pop :: "'s \<Rightarrow> 's"
  assumes push_full: "queue_ok s \<Longrightarrow> length (items s) = capacity s \<Longrightarrow> push x s = None"
    and push_room: "queue_ok s \<Longrightarrow> length (items s) < capacity s \<Longrightarrow>
      \<exists>s'. push x s = Some s' \<and> queue_ok s' \<and> items s' = items s @ [x] \<and> capacity s' = capacity s"
    and pop_first: "queue_ok s \<Longrightarrow> items s \<noteq> [] \<Longrightarrow>
      queue_ok (pop s) \<and> items (pop s) = tl (items s) \<and> capacity (pop s) = capacity s"
    and items_bound: "queue_ok s \<Longrightarrow> length (items s) \<le> capacity s"
begin

lemma pops: "queue_ok s \<Longrightarrow> n \<le> length (items s) \<Longrightarrow>
    queue_ok ((pop ^^ n) s) \<and> items ((pop ^^ n) s) = drop n (items s) \<and> capacity ((pop ^^ n) s) = capacity s"
proof (induction n)
  case (Suc n)
  then have IH: "queue_ok ((pop ^^ n) s)" "items ((pop ^^ n) s) = drop n (items s)"
    "capacity ((pop ^^ n) s) = capacity s" by simp_all
  moreover from this have "items ((pop ^^ n) s) \<noteq> []" using Suc.prems by simp
  ultimately show ?case using pop_first [of "(pop ^^ n) s"] by (simp add: tl_drop drop_Suc)
qed simp

lemma pushes:
  "queue_ok s \<Longrightarrow> length (items s) + length xs \<le> capacity s \<Longrightarrow>
     \<exists>s'. fold (\<lambda>x r. Option.bind r (push x)) xs (Some s) = Some s' \<and> queue_ok s'
       \<and> items s' = items s @ xs \<and> capacity s' = capacity s"
proof (induction xs arbitrary: s)
  case (Cons x xs)
  from push_room [OF Cons.prems(1), of x] Cons.prems(2) obtain s1 where
    "push x s = Some s1" "queue_ok s1" "items s1 = items s @ [x]" "capacity s1 = capacity s" by auto
  with Cons.IH [of s1] Cons.prems(2) show ?case by auto
qed simp

text \<open>What goes in comes out in the same order, behind what was there.\<close>

lemma first_in_first_out:
  assumes "queue_ok s" "length (items s) + length xs \<le> capacity s" "n \<le> length (items s) + length xs"
  shows "\<exists>s'. fold (\<lambda>x r. Option.bind r (push x)) xs (Some s) = Some s' \<and> queue_ok ((pop ^^ n) s')
    \<and> items ((pop ^^ n) s') = drop n (items s @ xs)"
proof -
  obtain s' where "fold (\<lambda>x r. Option.bind r (push x)) xs (Some s) = Some s'" "queue_ok s'"
    "items s' = items s @ xs"
    using pushes [OF assms(1,2)] by blast
  with pops [of s' n] assms(3) show ?thesis by auto
qed

end

end
