(* ===== verification/Status.thy ===== *)
theory Status
  imports Checkpoint
begin

text \<open>
  The status of a replica, its transitions, and the validity of a snapshot of its counters
  (\<^verbatim>\<open>replication/status.go\<close>; the commit stages are those of \<^verbatim>\<open>replication/replica.go\<close>).
\<close>

datatype Status = StatusNormal | StatusViewChange | StatusRecovering | StatusRecoveringHead

datatype TransitionCause =
    CauseRecoveredBackup | CauseRecoveredUncertainHead | CauseRecoveredViewChange
  | CauseCanonicalViewInstalled | CauseLocalTimeout | CauseHigherView | CauseNewerViewChange

datatype CommitStage =
    CommitStageIdle | CommitStageStart | CommitStageCheckPrepare | CommitStagePrefetch
  | CommitStageStall | CommitStageReplySetup | CommitStageExecute | CommitStageCheckpointDurable
  | CommitStageCompact | CommitStageCheckpointData | CommitStageCheckpointSuperblock

text \<open>The stages from \<^verbatim>\<open>CommitStageCheckpointDurable\<close> on, which the code compares by number.\<close>

definition stage_maintenance :: "CommitStage \<Rightarrow> bool" where
  "stage_maintenance stage \<longleftrightarrow> stage \<in> {CommitStageCheckpointDurable, CommitStageCompact,
     CommitStageCheckpointData, CommitStageCheckpointSuperblock}"

record ReplicaSnapshot =
  snap_Status :: Status
  snap_View :: View
  snap_DurableView :: View
  snap_LogView :: View
  snap_HeadOp :: Op
  snap_CommitMin :: Op
  snap_CommitMax :: Op
  snap_Checkpoint :: CheckpointState
  snap_PipelineLen :: u32
  snap_CommitStage :: CommitStage
  snap_PrepareWritePending :: bool
  snap_Committing :: bool
  snap_Primary :: ReplicaIndex

fun validStatusTransition :: "Status \<Rightarrow> Status \<Rightarrow> TransitionCause \<Rightarrow> bool" where
  "validStatusTransition StatusRecovering to cause \<longleftrightarrow>
     to = StatusNormal \<and> cause = CauseRecoveredBackup
     \<or> to = StatusRecoveringHead \<and> cause = CauseRecoveredUncertainHead
     \<or> to = StatusViewChange \<and> cause = CauseRecoveredViewChange"
| "validStatusTransition StatusRecoveringHead to cause \<longleftrightarrow>
     to = StatusNormal \<and> cause = CauseCanonicalViewInstalled"
| "validStatusTransition StatusNormal to cause \<longleftrightarrow>
     to = StatusViewChange \<and> (cause = CauseLocalTimeout \<or> cause = CauseHigherView)"
| "validStatusTransition StatusViewChange to cause \<longleftrightarrow>
     to = StatusViewChange \<and> cause = CauseNewerViewChange
     \<or> to = StatusNormal \<and> cause = CauseCanonicalViewInstalled"

text \<open>The checks on a normal primary: its commit bounds agree and its pipeline reaches its head.\<close>

definition validatePrimarySnapshot :: "ReplicaSnapshot \<Rightarrow> unit result" where
  "validatePrimarySnapshot snapshot =
     (if snap_CommitMin snapshot \<noteq> snap_CommitMax snapshot then Inl ErrReplicaInvariant
      else if snap_Committing snapshot \<and> snap_PipelineLen snapshot = 0 then Inl ErrReplicaInvariant
      else let pend = (if snap_Committing snapshot then snap_PipelineLen snapshot - 1 else snap_PipelineLen snapshot)
      in if snap_HeadOp snapshot - snap_CommitMin snapshot \<noteq> ucast pend then Inl ErrReplicaInvariant
      else Inr ())"

definition validateReplicaSnapshot :: "ReplicaSnapshot \<Rightarrow> ClusterConfig \<Rightarrow> ReplicaIndex \<Rightarrow> unit result" where
  "validateReplicaSnapshot snapshot cluster here =
     (if snap_DurableView snapshot > snap_View snapshot then Inl ErrReplicaInvariant
      else if snap_LogView snapshot > snap_View snapshot then Inl ErrReplicaInvariant
      else if snap_Status snapshot = StatusNormal
              \<and> (snap_View snapshot \<noteq> snap_LogView snapshot \<or> snap_View snapshot \<noteq> snap_DurableView snapshot)
      then Inl ErrReplicaInvariant
      else let checkpointOp = PrepareOp (snap_Checkpoint snapshot)
      in if checkpointOp > snap_CommitMin snapshot \<or> snap_CommitMin snapshot > snap_HeadOp snapshot
      then Inl ErrReplicaInvariant
      else if snap_CommitMin snapshot > snap_CommitMax snapshot then Inl ErrReplicaInvariant
      else let minimumCommit = (if snap_HeadOp snapshot > cfg_PipelineMax cluster
                                then snap_HeadOp snapshot - cfg_PipelineMax cluster else 0)
      in if snap_CommitMax snapshot < minimumCommit then Inl ErrReplicaInvariant
      else if snap_Status snapshot = StatusNormal \<and> snap_Primary snapshot = here
      then validatePrimarySnapshot snapshot
      else Inr ())"

section \<open>Transitions\<close>

text \<open>A path of transitions; every status reaches the normal one by at most one step.\<close>

inductive status_step :: "Status \<Rightarrow> Status \<Rightarrow> bool" where
  "validStatusTransition from to cause \<Longrightarrow> status_step from to"

lemma status_step_normal: "s = StatusNormal \<or> status_step s StatusNormal"
proof (cases s)
  case StatusRecovering
  then show ?thesis using status_step.intros [of s StatusNormal CauseRecoveredBackup] by simp
qed (use status_step.intros [of s StatusNormal CauseCanonicalViewInstalled] in simp_all)

lemma transition_not_recovering: "validStatusTransition from to cause \<Longrightarrow> to \<noteq> StatusRecovering"
  by (cases "from") auto

lemma transition_deterministic:
  "validStatusTransition from to cause \<Longrightarrow> validStatusTransition from to' cause \<Longrightarrow> to = to'"
  by (cases "from") auto

section \<open>Snapshots\<close>

lemma unat_ucast32: "unat (ucast (n :: u32) :: u64) = unat n"
  using unsigned_less [of n, where ?'a = nat] by (simp add: unsigned_ucast_eq take_bit_nat_eq_self)

lemma primary_snapshot:
  assumes "validatePrimarySnapshot snapshot = Inr ()" "snap_CommitMin snapshot \<le> snap_HeadOp snapshot"
  shows "snap_CommitMin snapshot = snap_CommitMax snapshot
    \<and> unat (snap_HeadOp snapshot) = unat (snap_CommitMin snapshot) + unat (snap_PipelineLen snapshot)
        - (if snap_Committing snapshot then 1 else 0)"
proof -
  let ?pend = "if snap_Committing snapshot then snap_PipelineLen snapshot - 1 else snap_PipelineLen snapshot"
  have eq: "snap_CommitMin snapshot = snap_CommitMax snapshot"
    "snap_Committing snapshot \<longrightarrow> snap_PipelineLen snapshot \<noteq> 0"
    "snap_HeadOp snapshot - snap_CommitMin snapshot = ucast ?pend"
    using assms(1) by (auto simp: validatePrimarySnapshot_def Let_def split: if_splits)
  have "unat (snap_HeadOp snapshot) - unat (snap_CommitMin snapshot) = unat ?pend"
    using arg_cong [OF eq(3), of unat] unat_sub_noof [OF assms(2)] by (simp only: unat_ucast32)
  then show ?thesis
    using eq assms(2) unat_minus_one [of "snap_PipelineLen snapshot"]
    by (auto simp: word_le_nat_alt word_unat_eq_iff split: if_splits)
qed

section \<open>Properties\<close>

text \<open>
  C26: A snapshot that passes validation orders the counters of the replica, in exact arithmetic:
  checkpoint, executed commit and head; executed and learned commit; the head runs ahead of the
  learned commit by no more than the pipeline; a normal replica has its view durably installed,
  and on a normal primary the pipeline holds exactly the operations between commit and head.
\<close>

theorem snapshot_bounds:
  assumes "validateReplicaSnapshot snapshot cluster here = Inr ()"
  shows "snap_DurableView snapshot \<le> snap_View snapshot \<and> snap_LogView snapshot \<le> snap_View snapshot
    \<and> PrepareOp (snap_Checkpoint snapshot) \<le> snap_CommitMin snapshot
    \<and> snap_CommitMin snapshot \<le> snap_HeadOp snapshot \<and> snap_CommitMin snapshot \<le> snap_CommitMax snapshot
    \<and> unat (snap_HeadOp snapshot) \<le> unat (snap_CommitMax snapshot) + unat (cfg_PipelineMax cluster)
    \<and> (snap_Status snapshot = StatusNormal \<longrightarrow>
         snap_LogView snapshot = snap_View snapshot \<and> snap_DurableView snapshot = snap_View snapshot)
    \<and> (snap_Status snapshot = StatusNormal \<and> snap_Primary snapshot = here \<longrightarrow>
         snap_CommitMin snapshot = snap_CommitMax snapshot
         \<and> unat (snap_HeadOp snapshot) = unat (snap_CommitMin snapshot) + unat (snap_PipelineLen snapshot)
             - (if snap_Committing snapshot then 1 else 0))"
proof -
  let ?s = snapshot
  let ?min = "if snap_HeadOp ?s > cfg_PipelineMax cluster then snap_HeadOp ?s - cfg_PipelineMax cluster else 0"
  have ok: "snap_DurableView ?s \<le> snap_View ?s" "snap_LogView ?s \<le> snap_View ?s"
    "PrepareOp (snap_Checkpoint ?s) \<le> snap_CommitMin ?s" "snap_CommitMin ?s \<le> snap_HeadOp ?s"
    "snap_CommitMin ?s \<le> snap_CommitMax ?s" "?min \<le> snap_CommitMax ?s"
    "snap_Status ?s = StatusNormal \<Longrightarrow> snap_LogView ?s = snap_View ?s \<and> snap_DurableView ?s = snap_View ?s"
    "snap_Status ?s = StatusNormal \<Longrightarrow> snap_Primary ?s = here \<Longrightarrow> validatePrimarySnapshot ?s = Inr ()"
    using assms by (auto simp: validateReplicaSnapshot_def Let_def not_less split: if_splits)
  have "unat (snap_HeadOp ?s) \<le> unat (snap_CommitMax ?s) + unat (cfg_PipelineMax cluster)"
    using ok(6) unat_sub_noof [of "cfg_PipelineMax cluster" "snap_HeadOp ?s"]
    by (auto simp: word_le_nat_alt word_less_nat_alt not_less split: if_splits)
  then show ?thesis using ok primary_snapshot [OF ok(8) ok(4)] by blast
qed

definition zero_checkpoint :: CheckpointState where
  "zero_checkpoint = \<lparr>cs_Header = replicate 256 0, AcquiredTrailerLastChecksum = zeroID,
     ReleasedTrailerLastChecksum = zeroID, SessionTrailerLastChecksum = zeroID, OldestManifestChecksum = zeroID,
     NewestManifestChecksum = zeroID, SnapshotRootChecksum = zeroID, AcquiredAggregateChecksum = zeroID,
     ReleasedAggregateChecksum = zeroID, SessionAggregateChecksum = zeroID, ParentID = zeroID,
     GrandparentID = zeroID, AcquiredTrailerLastAddress = 0, ReleasedTrailerLastAddress = 0,
     SessionTrailerLastAddress = 0, OldestManifestAddress = 0, NewestManifestAddress = 0, SnapshotRootAddress = 0,
     LogicalStorageSize = 0, AcquiredTrailerEncodedSize = 0, ReleasedTrailerEncodedSize = 0,
     SessionTrailerEncodedSize = 0, ManifestBlockCount = 0, cs_Release = 1\<rparr>"

lemma zero_checkpoint_op [simp]: "PrepareOp zero_checkpoint = 0"
  by (simp add: zero_checkpoint_def PrepareOp_def gslice_def drop_replicate numeral_eq_Suc)

definition example_snapshot :: ReplicaSnapshot where
  "example_snapshot = \<lparr>snap_Status = StatusNormal, snap_View = 4, snap_DurableView = 4, snap_LogView = 4,
     snap_HeadOp = 9, snap_CommitMin = 7, snap_CommitMax = 7, snap_Checkpoint = zero_checkpoint,
     snap_PipelineLen = 2, snap_CommitStage = CommitStageIdle, snap_PrepareWritePending = False,
     snap_Committing = False, snap_Primary = 1\<rparr>"

theorem snapshot_bounds_witness:
  "validateReplicaSnapshot example_snapshot DefaultClusterConfig 1 = Inr ()
   \<and> unat (snap_HeadOp example_snapshot)
       = unat (snap_CommitMin example_snapshot) + unat (snap_PipelineLen example_snapshot)"
proof -
  have "validateReplicaSnapshot example_snapshot DefaultClusterConfig 1 = Inr ()"
    by (simp add: validateReplicaSnapshot_def validatePrimarySnapshot_def example_snapshot_def
        DefaultClusterConfig_def)
  from snapshot_bounds [OF this] this show ?thesis by (simp add: example_snapshot_def)
qed

end
