(* ===== verification/Timing.thy ===== *)
theory Timing
  imports Config
begin

text \<open>
  Timeouts and their back-off, the deterministic random numbers the back-off draws
  (\<^verbatim>\<open>replication/timeout.go\<close>) and the failure detector a backup keeps for its primary
  (\<^verbatim>\<open>replication/failure_detector.go\<close>). A duration is an integer number of nanoseconds.
\<close>

section \<open>Random numbers\<close>

record DeterministicRandom =
  random_state :: u64

definition NewDeterministicRandom :: "u64 \<Rightarrow> DeterministicRandom" where
  "NewDeterministicRandom seed = \<lparr>random_state = (if seed \<noteq> 0 then seed else 0x9e3779b97f4a7c15)\<rparr>"

definition Next :: "DeterministicRandom \<Rightarrow> u64 \<times> DeterministicRandom" where
  "Next random =
     (let val = random_state random;
          val = val XOR drop_bit 12 val;
          val = val XOR push_bit 25 val;
          val = val XOR drop_bit 27 val
      in (val * 0x2545f4914f6cdd1d, random\<lparr>random_state := val\<rparr>))"

text \<open>
  The rejection loop of \<^verbatim>\<open>Uniform\<close> has no bound in the code; not returning is \<open>None\<close>.
\<close>

partial_function (option) Uniform_loop ::
  "u64 \<Rightarrow> u64 \<Rightarrow> DeterministicRandom \<Rightarrow> (u64 \<times> DeterministicRandom) option" where
  "Uniform_loop bound threshold random =
     (let (val, random) = Next random
      in if val \<ge> threshold then Some (val mod bound, random) else Uniform_loop bound threshold random)"

definition Uniform :: "DeterministicRandom \<Rightarrow> u64 \<Rightarrow> (u64 \<times> DeterministicRandom) option" where
  "Uniform random bound =
     (if bound \<le> 1 then Some (0, random) else Uniform_loop bound ((- bound) mod bound) random)"

section \<open>Timeouts\<close>

record Timeout =
  running :: bool
  elapsed :: u64
  threshold :: u64
  initial :: u64
  attempts :: u8
  peer :: u8
  measured :: u64

definition durationTicks :: "int \<Rightarrow> int \<Rightarrow> u64 option" where
  "durationTicks period tick =
     (if period \<le> 0 \<or> tick \<le> 0 then None else Some (max 1 (of_int (period div tick))))"

definition zeroTimeout :: "u64 \<Rightarrow> u8 \<Rightarrow> Timeout" where
  "zeroTimeout first p = \<lparr>running = False, elapsed = 0, threshold = 0, initial = first, attempts = 0,
     peer = p, measured = 0\<rparr>"

definition NewTimeout :: "int \<Rightarrow> int \<Rightarrow> u8 \<Rightarrow> Timeout result" where
  "NewTimeout period tick p =
     (case durationTicks period tick of None \<Rightarrow> Inl ErrInvalidConfiguration
      | Some first \<Rightarrow> Inr (zeroTimeout first p))"

definition timeout_Start :: "Timeout \<Rightarrow> Timeout" where
  "timeout_Start t = t\<lparr>running := True, elapsed := 0, threshold := initial t, attempts := 0, measured := 0\<rparr>"

definition timeout_Stop :: "Timeout \<Rightarrow> Timeout" where
  "timeout_Stop t = zeroTimeout (initial t) (peer t)"

definition timeout_Reset :: "Timeout \<Rightarrow> Timeout" where
  "timeout_Reset t = t\<lparr>running := True, elapsed := 0, threshold := initial t, attempts := 0\<rparr>"

definition timeout_Tick :: "Timeout \<Rightarrow> (bool \<times> Timeout) result" where
  "timeout_Tick t =
     (if \<not> running t then Inr (False, t)
      else if elapsed t \<ge> threshold t then Inl ErrTimeoutInvariant
      else let t = t\<lparr>elapsed := elapsed t + 1\<rparr> in Inr (elapsed t = threshold t, t))"

text \<open>The threshold of a back-off once its bounds are known; \<open>draw\<close> is the random number drawn.\<close>

definition backoff_span :: "u64 \<Rightarrow> u64 \<Rightarrow> u8 \<Rightarrow> u64" where
  "backoff_span minimum maximum tries =
     min (maximum - minimum) (saturatingShift (max 1 minimum) (min 63 tries))"

definition backoff_threshold :: "ProcessConfig \<Rightarrow> u64 \<Rightarrow> u64 \<Rightarrow> u64 \<Rightarrow> u64" where
  "backoff_threshold process rttTicks minimum draw =
     (let val = saturatingAdd (saturatingMultiply (ucast (RTTMultiplier process)) rttTicks) (minimum + draw)
      in if val \<noteq> 0 then val else 1)"

text \<open>A nil random source is \<open>None\<close>; the outer option is the draw that may not return.\<close>

definition Backoff ::
  "Timeout \<Rightarrow> ProcessConfig \<Rightarrow> int \<Rightarrow> DeterministicRandom option \<Rightarrow> (Timeout \<times> DeterministicRandom) result option" where
  "Backoff t process measuredRTT source =
     (case source of None \<Rightarrow> Some (Inl ErrTimeoutInvariant)
      | Some random \<Rightarrow>
        if \<not> running t then Some (Inl ErrTimeoutInvariant)
        else let rttTicks = (case durationTicks measuredRTT (Tick process) of None \<Rightarrow> 1 | Some n \<Rightarrow> n)
        in case durationTicks (MaximumRTT process) (Tick process) of None \<Rightarrow> Some (Inl ErrInvalidConfiguration)
      | Some maximumRTT \<Rightarrow>
        let rttTicks = min maximumRTT (max 1 rttTicks)
        in case durationTicks (BackoffMin process) (Tick process) of None \<Rightarrow> Some (Inl ErrInvalidConfiguration)
      | Some minimum \<Rightarrow>
        case durationTicks (BackoffMax process) (Tick process) of None \<Rightarrow> Some (Inl ErrInvalidConfiguration)
      | Some maximum \<Rightarrow>
        if maximum < minimum then Some (Inl ErrInvalidConfiguration)
        else let tries = attempts t + 1
        in case Uniform random (backoff_span minimum maximum tries + 1) of None \<Rightarrow> None
      | Some (draw, random) \<Rightarrow>
        Some (Inr (t\<lparr>attempts := tries, elapsed := 0,
          threshold := backoff_threshold process rttTicks minimum draw, measured := rttTicks\<rparr>, random)))"

definition ResetJitter ::
  "Timeout \<Rightarrow> DeterministicRandom option \<Rightarrow> (Timeout \<times> DeterministicRandom) result option" where
  "ResetJitter t source =
     (case source of None \<Rightarrow> Some (Inl ErrTimeoutInvariant)
      | Some random \<Rightarrow>
        if \<not> running t then Some (Inl ErrTimeoutInvariant)
        else let half = max 1 (initial t div 2);
                 span = saturatingAdd (initial t) 1
        in case Uniform random span of None \<Rightarrow> None
      | Some (draw, random) \<Rightarrow>
        Some (Inr (t\<lparr>attempts := attempts t + 1, elapsed := 0, threshold := saturatingAdd half draw\<rparr>, random)))"

section \<open>Failure detector\<close>

datatype FailureLevel = FailureGreen | FailureYellow | FailureRed

abbreviation (input) failureIntervalMin :: u64 where "failureIntervalMin \<equiv> 100000000"
abbreviation (input) failureIntervalMax :: u64 where "failureIntervalMax \<equiv> 2000000000"

record FailureDetector =
  det_last :: u64
  det_ewma :: u64

definition NewFailureDetector :: "u64 \<Rightarrow> FailureDetector" where
  "NewFailureDetector monotonic = \<lparr>det_last = monotonic, det_ewma = failureIntervalMax\<rparr>"

definition Signal :: "FailureDetector \<Rightarrow> u64 \<Rightarrow> FailureDetector" where
  "Signal detector monotonic =
     (if monotonic \<le> det_last detector then detector
      else let sample = min failureIntervalMax (max failureIntervalMin (monotonic - det_last detector))
      in detector\<lparr>det_ewma := saturatingAdd (saturatingMultiply 4 (det_ewma detector)) sample div 5,
                  det_last := monotonic\<rparr>)"

definition Level :: "FailureDetector \<Rightarrow> u64 \<Rightarrow> FailureLevel" where
  "Level detector monotonic =
     (if monotonic \<le> det_last detector then FailureGreen
      else let twiceElapsed = saturatingMultiply 2 (monotonic - det_last detector);
               threeEWMA = saturatingMultiply 3 (det_ewma detector)
      in if twiceElapsed \<le> threeEWMA then FailureGreen
      else if twiceElapsed \<le> saturatingMultiply 6 (det_ewma detector) then FailureYellow
      else FailureRed)"

section \<open>Random draws\<close>

lemma Uniform_loop_less:
  assumes "Uniform_loop bound thr random = Some (val, random')" "bound \<noteq> 0"
  shows "val < bound"
proof -
  have "bound \<noteq> 0 \<longrightarrow> fst (val, random') < bound"
  proof (rule Uniform_loop.raw_induct [OF _ assms(1)])
    fix loop :: "u64 \<Rightarrow> u64 \<Rightarrow> DeterministicRandom \<Rightarrow> (u64 \<times> DeterministicRandom) option" and b t r y
    assume "\<And>b t r y. loop b t r = Some y \<Longrightarrow> b \<noteq> 0 \<longrightarrow> fst y < b"
      and "(let (v, r) = Next r in if t \<le> v then Some (v mod b, r) else loop b t r) = Some y"
    then show "b \<noteq> 0 \<longrightarrow> fst y < b"
      by (auto simp: Let_def word_mod_less_divisor word_greater_zero_iff split: prod.splits if_splits)
  qed
  then show ?thesis using assms(2) by simp
qed

lemma Uniform_less:
  assumes "Uniform random bound = Some (val, random')" "bound \<noteq> 0"
  shows "val < bound"
  using assms Uniform_loop_less
  by (auto simp: Uniform_def word_greater_zero_iff split: if_splits)

text \<open>A bound that divides the word range rejects nothing: the first draw is taken.\<close>

lemma Uniform_returns:
  assumes "(- bound) mod bound = 0"
  shows "\<exists>val random'. Uniform random bound = Some (val, random')"
proof -
  have "\<exists>val random'. Uniform_loop bound 0 random = Some (val, random')"
    by (subst Uniform_loop.simps) (simp add: Let_def split: prod.splits)
  then show ?thesis using assms by (simp add: Uniform_def)
qed

section \<open>Timeouts fire\<close>

text \<open>The flags a number of ticks return, and the timeout after them.\<close>

primrec ticks :: "nat \<Rightarrow> Timeout \<Rightarrow> (bool list \<times> Timeout) result" where
  "ticks 0 t = Inr ([], t)"
| "ticks (Suc n) t = bind_result (timeout_Tick t) (\<lambda>(fired, t).
     bind_result (ticks n t) (\<lambda>(flags, t). Inr (fired # flags, t)))"

text \<open>The operations that arm a timeout, and the timeouts a program can build.\<close>

inductive arms :: "Timeout \<Rightarrow> Timeout \<Rightarrow> bool" where
  start: "arms t (timeout_Start t)"
| reset: "arms t (timeout_Reset t)"
| backoff: "Backoff t process rtt source = Some (Inr (u, random)) \<Longrightarrow> arms t u"
| jitter: "ResetJitter t source = Some (Inr (u, random)) \<Longrightarrow> arms t u"

inductive timeout_reach :: "Timeout \<Rightarrow> bool" where
  new: "NewTimeout period tick p = Inr t \<Longrightarrow> timeout_reach t"
| stop: "timeout_reach t \<Longrightarrow> timeout_reach (timeout_Stop t)"
| arm: "timeout_reach t \<Longrightarrow> arms t u \<Longrightarrow> timeout_reach u"
| tick: "timeout_reach t \<Longrightarrow> timeout_Tick t = Inr (fired, u) \<Longrightarrow> timeout_reach u"

lemma durationTicks_pos: "durationTicks period tick = Some n \<Longrightarrow> n \<noteq> 0"
  by (auto simp: durationTicks_def max_def split: if_splits)

lemma arms_initial: "arms t u \<Longrightarrow> initial u = initial t"
  by (induction rule: arms.induct)
    (auto simp: timeout_Start_def timeout_Reset_def Backoff_def ResetJitter_def Let_def
      split: option.splits if_splits)

lemma timeout_reach_initial: "timeout_reach t \<Longrightarrow> initial t \<noteq> 0"
proof (induction rule: timeout_reach.induct)
  case (new period tick p t)
  then show ?case
    by (auto simp: NewTimeout_def zeroTimeout_def durationTicks_pos split: option.splits)
qed (auto simp: timeout_Stop_def zeroTimeout_def arms_initial timeout_Tick_def Let_def split: if_splits)

lemma saturatingAdd_nonzero: "left \<noteq> 0 \<Longrightarrow> saturatingAdd left right \<noteq> 0"
  using saturatingAdd_spec [of left right] by (auto simp: word_unat_eq_iff)

lemma backoff_threshold_nonzero: "backoff_threshold process rtt minimum draw \<noteq> 0"
  by (simp add: backoff_threshold_def Let_def)

lemma arms_armed:
  assumes "arms t u" "initial t \<noteq> 0"
  shows "running u \<and> elapsed u = 0 \<and> threshold u \<noteq> 0"
  using assms
proof (induction rule: arms.induct)
  case (jitter t source u random)
  have "max 1 (initial t div 2) \<noteq> 0" by (auto simp: max_def)
  then show ?case
    using jitter by (auto simp: ResetJitter_def Let_def saturatingAdd_nonzero split: option.splits if_splits)
qed (auto simp: timeout_Start_def timeout_Reset_def Backoff_def Let_def backoff_threshold_nonzero
      split: option.splits if_splits)

lemma ticks_fire:
  "running t \<Longrightarrow> unat (elapsed t) + Suc n = unat (threshold t) \<Longrightarrow>
     ticks (Suc n) t = Inr (replicate n False @ [True], t\<lparr>elapsed := threshold t\<rparr>)"
proof (induction n arbitrary: t)
  case 0
  then have "threshold t = elapsed t + 1"
    using unat_less64 [of "threshold t"] unat_add_noof [of "elapsed t" 1] by (simp add: word_unat_eq_iff)
  moreover from this have "elapsed t < threshold t" using 0 by (simp add: word_less_nat_alt)
  ultimately show ?case using 0 by (simp add: timeout_Tick_def Let_def)
next
  case (Suc n)
  have "unat (elapsed t + 1) = unat (elapsed t) + 1"
    using Suc.prems unat_less64 [of "threshold t"] by (simp add: unat_add_noof)
  then have "ticks (Suc n) (t\<lparr>elapsed := elapsed t + 1\<rparr>)
      = Inr (replicate n False @ [True], t\<lparr>elapsed := threshold t\<rparr>)"
    using Suc.IH [of "t\<lparr>elapsed := elapsed t + 1\<rparr>"] Suc.prems by simp
  moreover have "elapsed t < threshold t" "elapsed t + 1 \<noteq> threshold t"
    using Suc.prems \<open>unat (elapsed t + 1) = _\<close> by (auto simp: word_less_nat_alt)
  ultimately show ?case
    using Suc.prems by (simp only: ticks.simps(2) [of "Suc n"]) (simp add: timeout_Tick_def Let_def)
qed

text \<open>A back-off waits at least one tick and at most the scaled round trip plus the largest back-off.\<close>

lemma backoff_draw_bound:
  assumes "draw \<le> backoff_span minimum maximum tries" "minimum \<le> maximum"
  shows "minimum + draw \<le> maximum"
proof -
  have "draw \<le> maximum - minimum" using assms(1) by (simp add: backoff_span_def)
  then have "unat draw \<le> unat maximum - unat minimum"
    using unat_sub_noof [OF assms(2)] by (simp add: word_le_nat_alt)
  then show ?thesis
    using assms(2) unat_less64 [of maximum] unat_add_noof [of minimum draw] by (simp add: word_le_nat_alt)
qed

text \<open>
  The count of attempts is a byte: after 255 back-offs it wraps to zero, and the span of the next
  draw falls back from the maximum to the minimum.
\<close>

lemma backoff_attempts_wrap:
  "backoff_span minimum maximum (255 + 1) = min (maximum - minimum) (max 1 minimum)"
proof -
  have "\<not> MaxUint64 < max 1 minimum"
    using unat_less_pow64 [of "max 1 minimum"] by (simp add: word_less_nat_alt)
  then show ?thesis by (simp add: backoff_span_def saturatingShift_def)
qed

section \<open>The failure detector\<close>

definition detector_ok :: "FailureDetector \<Rightarrow> bool" where
  "detector_ok detector \<longleftrightarrow> failureIntervalMin \<le> det_ewma detector \<and> det_ewma detector \<le> failureIntervalMax"

lemma Signal_ewma:
  assumes "detector_ok detector" "det_last detector < monotonic"
  shows "unat (det_ewma (Signal detector monotonic))
    = (4 * unat (det_ewma detector)
        + min 2000000000 (max 100000000 (unat monotonic - unat (det_last detector)))) div 5"
proof -
  let ?s = "min failureIntervalMax (max failureIntervalMin (monotonic - det_last detector))"
  have e: "unat (det_ewma detector) \<le> 2000000000"
    using assms(1) by (simp add: detector_ok_def word_le_nat_alt)
  have d: "unat (monotonic - det_last detector) = unat monotonic - unat (det_last detector)"
    using assms(2) by (intro unat_sub_noof) simp
  have s: "unat ?s = min 2000000000 (max 100000000 (unat monotonic - unat (det_last detector)))"
    by (simp add: min_def max_def word_le_nat_alt d)
  have "unat (saturatingAdd (saturatingMultiply 4 (det_ewma detector)) ?s) = 4 * unat (det_ewma detector) + unat ?s"
    using e by (simp add: saturatingAdd_spec saturatingMultiply_spec s)
  moreover have "\<not> monotonic \<le> det_last detector" using assms(2) by simp
  ultimately show ?thesis by (simp add: Signal_def Let_def unat_div s)
qed

lemma Signal_ok: "detector_ok detector \<Longrightarrow> detector_ok (Signal detector monotonic)"
proof (cases "monotonic \<le> det_last detector")
  case False
  assume ok: "detector_ok detector"
  then have "100000000 \<le> unat (det_ewma detector)" "unat (det_ewma detector) \<le> 2000000000"
    by (simp_all add: detector_ok_def word_le_nat_alt)
  moreover have "det_last detector < monotonic" using False by simp
  ultimately show ?thesis
    using Signal_ewma [OF ok] by (auto simp: detector_ok_def word_le_nat_alt)
qed (simp add: Signal_def)

lemma signals_ok: "detector_ok (fold (\<lambda>monotonic detector. Signal detector monotonic) signals (NewFailureDetector t))"
  by (rule fold_invariant [of _ "\<lambda>_. True"]) (auto simp: Signal_ok, simp add: NewFailureDetector_def detector_ok_def)

lemma Level_cases:
  assumes "detector_ok detector"
  shows "Level detector monotonic =
    (let silence = unat monotonic - unat (det_last detector); ewma = unat (det_ewma detector)
     in if 2 * silence \<le> 3 * ewma then FailureGreen
        else if silence \<le> 3 * ewma then FailureYellow else FailureRed)"
proof (cases "monotonic \<le> det_last detector")
  case True
  then show ?thesis by (simp add: Level_def word_le_nat_alt)
next
  case False
  have e: "unat (det_ewma detector) \<le> 2000000000"
    using assms by (simp add: detector_ok_def word_le_nat_alt)
  have d: "unat (monotonic - det_last detector) = unat monotonic - unat (det_last detector)"
    using False by (intro unat_sub_noof) simp
  show ?thesis
    using False e by (auto simp: Level_def Let_def word_le_nat_alt saturatingMultiply_spec d)
qed

section \<open>Properties\<close>

text \<open>
  C24: A timeout that is armed, by starting it, resetting it, backing off or adding jitter, fires
  exactly once: the ticks before its threshold return false, the tick that reaches the threshold
  returns true, and none of them reports a broken invariant.
\<close>

theorem timeout_fires:
  assumes "timeout_reach t" "arms t u"
  shows "0 < threshold u
    \<and> ticks (unat (threshold u)) u
        = Inr (replicate (unat (threshold u) - 1) False @ [True], u\<lparr>elapsed := threshold u\<rparr>)"
proof -
  have armed: "running u" "elapsed u = 0" "threshold u \<noteq> 0"
    using arms_armed [OF assms(2)] timeout_reach_initial [OF assms(1)] by simp_all
  then have "unat (threshold u) \<noteq> 0" by (simp add: unat_eq_0)
  then obtain n where "unat (threshold u) = Suc n" using not0_implies_Suc by blast
  with ticks_fire [of u n] armed show ?thesis by (simp add: word_greater_zero_iff)
qed

theorem timeout_fires_witness:
  "ticks 3 (timeout_Start (zeroTimeout 3 0)) = Inr ([False, False, True],
     (timeout_Start (zeroTimeout 3 0))\<lparr>elapsed := 3\<rparr>)"
proof -
  have "timeout_reach (zeroTimeout 3 0)"
    by (rule timeout_reach.new [of 30 10 0]) (simp add: NewTimeout_def durationTicks_def)
  from timeout_fires [OF this arms.start]
  have "ticks 3 (timeout_Start (zeroTimeout 3 0))
      = Inr (replicate 2 False @ [True], (timeout_Start (zeroTimeout 3 0))\<lparr>elapsed := 3\<rparr>)"
    by (simp add: timeout_Start_def zeroTimeout_def)
  then show ?thesis by (simp add: numeral_2_eq_2)
qed



end
