(* ===== verification/Repair_Budget.thy ===== *)
theory Repair_Budget
  imports Timing
begin

text \<open>
  The budget of journal repair requests (\<^verbatim>\<open>replication/repair_budget.go\<close>): which peer a
  missing prepare is asked of, how many requests are outstanding, and when they expire.
\<close>

text \<open>An operation returns, panics, or draws random numbers for ever.\<close>

datatype 'a behaviour = Returns 'a | Panics | Diverges

record journalRepairEntry =
  jr_busy :: bool
  jr_peer :: ReplicaIndex
  jr_op :: Op
  jr_started :: u64

record journalRepairBudget =
  jb_active :: u8
  jb_local :: ReplicaIndex
  jb_capacity :: u8
  jb_outstanding :: u8
  jb_ewma :: "u64 list"
  jb_entries :: "journalRepairEntry list"

definition zeroRepair :: journalRepairEntry where
  "zeroRepair = \<lparr>jr_busy = False, jr_peer = 0, jr_op = 0, jr_started = 0\<rparr>"

definition newJournalRepairBudget :: "u8 \<Rightarrow> ReplicaIndex \<Rightarrow> journalRepairBudget result" where
  "newJournalRepairBudget active here =
     (if active = 0 \<or> active > ActiveMax \<or> unat here \<ge> MembersMax then Inl ErrInvalidConfiguration
      else let peers = (if here < active then active - 1 else active)
      in Inr \<lparr>jb_active = active, jb_local = here, jb_capacity = peers * 2, jb_outstanding = 0,
              jb_ewma = replicate (unat active) 1000000 @ replicate (6 - unat active) 0,
              jb_entries = replicate 12 zeroRepair\<rparr>)"

definition busy_entries :: "journalRepairEntry list \<Rightarrow> journalRepairEntry list" where
  "busy_entries entries = filter jr_busy entries"

definition assertInvariant :: "journalRepairBudget \<Rightarrow> bool" where
  "assertInvariant budget \<longleftrightarrow> jb_outstanding budget \<le> jb_capacity budget
     \<and> of_nat (length (busy_entries (jb_entries budget))) = jb_outstanding budget"

fun peerEligible_from :: "ReplicaIndex \<Rightarrow> Op \<Rightarrow> journalRepairEntry list \<Rightarrow> nat \<Rightarrow> bool" where
  "peerEligible_from p op [] count \<longleftrightarrow> count < 2"
| "peerEligible_from p op (e # entries) count \<longleftrightarrow>
     (if \<not> jr_busy e \<or> jr_peer e \<noteq> p then peerEligible_from p op entries count
      else if jr_op e = op then False
      else peerEligible_from p op entries (count + 1))"

definition peerEligible :: "journalRepairBudget \<Rightarrow> ReplicaIndex \<Rightarrow> Op \<Rightarrow> bool" where
  "peerEligible budget p op = peerEligible_from p op (jb_entries budget) 0"

definition observe :: "journalRepairBudget \<Rightarrow> ReplicaIndex \<Rightarrow> u64 \<Rightarrow> journalRepairBudget" where
  "observe budget p sample =
     (let sample = max 1 sample; old = jb_ewma budget ! unat p
      in budget\<lparr>jb_ewma := (jb_ewma budget)[unat p := (old div 5) * 4 + (old mod 5 * 4 + sample) div 5]\<rparr>)"

text \<open>The choice of a peer: the one that answers fastest, or one in ten times any eligible one.\<close>

record selection =
  sel_peer :: ReplicaIndex
  sel_ewma :: u64
  sel_eligible :: u64
  sel_found :: bool

fun select_peer :: "journalRepairBudget \<Rightarrow> Op \<Rightarrow> bool \<Rightarrow> ReplicaIndex list \<Rightarrow> selection \<Rightarrow> DeterministicRandom
    \<Rightarrow> (selection \<times> DeterministicRandom) option" where
  "select_peer budget op explore [] sel random = Some (sel, random)"
| "select_peer budget op explore (p # peers) sel random =
     (if p = jb_local budget \<or> \<not> peerEligible budget p op then select_peer budget op explore peers sel random
      else let sel = sel\<lparr>sel_eligible := sel_eligible sel + 1\<rparr>
      in if explore
      then (case Uniform random (sel_eligible sel) of None \<Rightarrow> None
            | Some (draw, random) \<Rightarrow>
                select_peer budget op explore peers
                  (if draw = 0 then sel\<lparr>sel_peer := p, sel_found := True\<rparr> else sel) random)
      else select_peer budget op explore peers
             (if \<not> sel_found sel \<or> jb_ewma budget ! unat p < sel_ewma sel
              then sel\<lparr>sel_peer := p, sel_ewma := jb_ewma budget ! unat p, sel_found := True\<rparr> else sel) random)"

fun claim_entry :: "journalRepairEntry \<Rightarrow> journalRepairEntry list \<Rightarrow> journalRepairEntry list option" where
  "claim_entry new [] = None"
| "claim_entry new (e # entries) =
     (if jr_busy e then map_option ((#) e) (claim_entry new entries) else Some (new # entries))"

definition journal_peers :: "journalRepairBudget \<Rightarrow> ReplicaIndex list" where
  "journal_peers budget = map of_nat [0..<unat (jb_active budget)]"

definition reserve_peer :: "journalRepairBudget \<Rightarrow> Op \<Rightarrow> u64 \<Rightarrow> ReplicaIndex
    \<Rightarrow> (ReplicaIndex \<times> journalRepairBudget) option" where
  "reserve_peer budget op now p =
     (case claim_entry \<lparr>jr_busy = True, jr_peer = p, jr_op = op, jr_started = now\<rparr> (jb_entries budget) of
        None \<Rightarrow> None
      | Some entries \<Rightarrow>
        let budget = budget\<lparr>jb_entries := entries, jb_outstanding := jb_outstanding budget + 1\<rparr>
        in if assertInvariant budget then Some (p, budget) else None)"

definition Reserve :: "journalRepairBudget \<Rightarrow> Op \<Rightarrow> u64 \<Rightarrow> DeterministicRandom option
    \<Rightarrow> (ReplicaIndex option \<times> journalRepairBudget \<times> DeterministicRandom option) behaviour" where
  "Reserve budget op now source =
     (case source of None \<Rightarrow> Returns (None, budget, None)
      | Some random \<Rightarrow>
        if jb_outstanding budget = jb_capacity budget then Returns (None, budget, Some random)
        else case Uniform random 10 of None \<Rightarrow> Diverges
      | Some (draw, random) \<Rightarrow>
        case select_peer budget op (draw = 0) (journal_peers budget)
          \<lparr>sel_peer = 0, sel_ewma = - 1, sel_eligible = 0, sel_found = False\<rparr> random of
          None \<Rightarrow> Diverges
      | Some (sel, random) \<Rightarrow>
        if \<not> sel_found sel then Returns (None, budget, Some random)
        else case reserve_peer budget op now (sel_peer sel) of
          None \<Rightarrow> Panics
        | Some (p, budget) \<Rightarrow> Returns (Some p, budget, Some random))"

text \<open>Releasing the entries a predicate selects, each after recording its round trip.\<close>

fun release_entries :: "(journalRepairBudget \<Rightarrow> journalRepairEntry \<Rightarrow> bool) \<Rightarrow> u64 \<Rightarrow> nat list
    \<Rightarrow> journalRepairBudget \<Rightarrow> u8 \<Rightarrow> journalRepairBudget \<times> u8" where
  "release_entries done now [] budget released = (budget, released)"
| "release_entries done now (i # is) budget released =
     (let e = jb_entries budget ! i
      in if \<not> jr_busy e \<or> \<not> done budget e then release_entries done now is budget released
      else let budget = observe budget (jr_peer e) (elapsedSince (jr_started e) now)
      in release_entries done now is
           (budget\<lparr>jb_entries := (jb_entries budget)[i := zeroRepair]\<rparr>) (released + 1))"

definition settle :: "journalRepairBudget \<times> u8 \<Rightarrow> (u8 \<times> journalRepairBudget) behaviour" where
  "settle r =
     (let (budget, released) = r;
          budget = budget\<lparr>jb_outstanding := jb_outstanding budget - released\<rparr>
      in if assertInvariant budget then Returns (released, budget) else Panics)"

definition journal_Complete :: "journalRepairBudget \<Rightarrow> Op \<Rightarrow> u64 \<Rightarrow> (u8 \<times> journalRepairBudget) behaviour" where
  "journal_Complete budget op now =
     settle (release_entries (\<lambda>budget e. jr_op e = op) now [0..<length (jb_entries budget)] budget 0)"

definition deadline :: "journalRepairBudget \<Rightarrow> ReplicaIndex \<Rightarrow> u64" where
  "deadline budget p =
     (let limit = 500000000
      in if jb_ewma budget ! unat p < limit div 2 then 2 * jb_ewma budget ! unat p else limit)"

definition Expire :: "journalRepairBudget \<Rightarrow> u64 \<Rightarrow> (u8 \<times> journalRepairBudget) behaviour" where
  "Expire budget now =
     settle (release_entries (\<lambda>budget e. elapsedSince (jr_started e) now \<ge> deadline budget (jr_peer e)) now
       [0..<length (jb_entries budget)] budget 0)"

definition budget_Reset :: "journalRepairBudget \<Rightarrow> journalRepairBudget behaviour" where
  "budget_Reset budget =
     (let budget = budget\<lparr>jb_entries := map (\<lambda>_. zeroRepair) (jb_entries budget), jb_outstanding := 0\<rparr>
      in if assertInvariant budget then Returns budget else Panics)"

section \<open>The invariant\<close>

definition budget_peers :: "journalRepairBudget \<Rightarrow> ReplicaIndex set" where
  "budget_peers budget = {p. p < jb_active budget \<and> p \<noteq> jb_local budget}"

text \<open>Requests to peers, at most two to each and no operation asked twice of the same one.\<close>

definition requests_ok :: "ReplicaIndex set \<Rightarrow> journalRepairEntry list \<Rightarrow> bool" where
  "requests_ok P bs \<longleftrightarrow> jr_peer ` set bs \<subseteq> P \<and> distinct (map (\<lambda>e. (jr_peer e, jr_op e)) bs)
     \<and> (\<forall>p. length (filter (\<lambda>e. jr_peer e = p) bs) \<le> 2)"

definition budget_wf :: "journalRepairBudget \<Rightarrow> bool" where
  "budget_wf budget \<longleftrightarrow> length (jb_entries budget) = 12 \<and> length (jb_ewma budget) = 6
     \<and> jb_active budget \<noteq> 0 \<and> jb_active budget \<le> 6
     \<and> unat (jb_capacity budget) = 2 * card (budget_peers budget)
     \<and> requests_ok (budget_peers budget) (busy_entries (jb_entries budget))"

definition budget_ok :: "journalRepairBudget \<Rightarrow> bool" where
  "budget_ok budget \<longleftrightarrow> budget_wf budget
     \<and> unat (jb_outstanding budget) = length (busy_entries (jb_entries budget))"

lemma length_by_class:
  assumes "finite P" "f ` set xs \<subseteq> P"
  shows "length xs = (\<Sum>p\<in>P. length (filter (\<lambda>x. f x = p) xs))"
  using assms(2)
proof (induction xs)
  case (Cons x xs)
  have "(\<Sum>p\<in>P. length (filter (\<lambda>x. f x = p) (x # xs)))
      = (\<Sum>p\<in>P. (if f x = p then 1 else 0) + length (filter (\<lambda>x. f x = p) xs))"
    by (rule sum.cong) simp_all
  also have "\<dots> = 1 + length xs"
    using Cons assms(1) by (simp add: sum.distrib)
  finally show ?case by simp
qed simp

lemma finite_peers [simp]: "finite (budget_peers budget)"
  by (simp add: budget_peers_def)

lemma card_less_u8: "card {p :: u8. p < n} = unat n"
proof -
  have "bij_betw unat {p :: u8. p < n} {..<unat n}"
  proof (rule bij_betwI')
    fix y assume "y \<in> {..<unat n}"
    then have "unat (of_nat y :: u8) = y"
      using unsigned_less [of n, where ?'a = nat] by (simp add: unsigned_of_nat take_bit_nat_eq_self)
    with \<open>y \<in> _\<close> show "\<exists>x\<in>{p. p < n}. y = unat x"
      by (intro bexI [of _ "of_nat y"]) (simp_all add: word_less_nat_alt)
  qed (simp_all add: word_less_nat_alt word_unat_eq_iff)
  then show ?thesis by (simp add: bij_betw_same_card)
qed

lemma card_peers:
  "jb_active budget \<noteq> 0 \<Longrightarrow> card (budget_peers budget)
     = (if jb_local budget < jb_active budget then unat (jb_active budget) - 1 else unat (jb_active budget))"
proof -
  have "budget_peers budget = {p. p < jb_active budget} - {jb_local budget}"
    by (auto simp: budget_peers_def)
  then show ?thesis by (simp add: card_Diff_singleton_if card_less_u8)
qed

lemma requests_bound:
  assumes "requests_ok P bs" "finite P"
  shows "length bs \<le> 2 * card P"
proof -
  have "length bs = (\<Sum>p\<in>P. length (filter (\<lambda>e. jr_peer e = p) bs))"
    using assms by (intro length_by_class) (auto simp: requests_ok_def)
  also have "\<dots> \<le> (\<Sum>p\<in>P. 2)" using assms(1) by (intro sum_mono) (simp add: requests_ok_def)
  finally show ?thesis by simp
qed

lemma requests_remove: "requests_ok P (as @ e # bs) \<Longrightarrow> requests_ok P (as @ bs)"
proof -
  assume ok: "requests_ok P (as @ e # bs)"
  have "length (filter Q (as @ bs)) \<le> length (filter Q (as @ e # bs))" for Q by simp
  with ok have "length (filter (\<lambda>e. jr_peer e = p) (as @ bs)) \<le> 2" for p
    unfolding requests_ok_def by (meson le_trans)
  then show ?thesis using ok by (simp add: requests_ok_def)
qed

lemma requests_insert:
  assumes "requests_ok P (as @ bs)" "jr_peer e \<in> P"
    and "length (filter (\<lambda>x. jr_peer x = jr_peer e) (as @ bs)) < 2"
    and "(jr_peer e, jr_op e) \<notin> (\<lambda>e. (jr_peer e, jr_op e)) ` set (as @ bs)"
  shows "requests_ok P (as @ e # bs)"
  using assms unfolding requests_ok_def by auto

lemma peerEligible_from_conv:
  "peerEligible_from p op es n \<longleftrightarrow>
     (\<forall>e\<in>set (busy_entries es). \<not> (jr_peer e = p \<and> jr_op e = op))
     \<and> n + length (filter (\<lambda>e. jr_peer e = p) (busy_entries es)) < 2"
  by (induction p op es n rule: peerEligible_from.induct) (auto simp: busy_entries_def)

lemma claim_entry_split:
  "claim_entry new es = Some es' \<Longrightarrow>
     \<exists>as e bs. es = as @ e # bs \<and> \<not> jr_busy e \<and> es' = as @ new # bs"
proof (induction es arbitrary: es')
  case (Cons x es)
  show ?case
  proof (cases "jr_busy x")
    case True
    then obtain zs where "claim_entry new es = Some zs" "es' = x # zs" using Cons.prems by auto
    with Cons.IH obtain as e bs where "es = as @ e # bs" "\<not> jr_busy e" "zs = as @ new # bs" by blast
    then have "x # es = (x # as) @ e # bs \<and> \<not> jr_busy e \<and> es' = (x # as) @ new # bs"
      using \<open>es' = _\<close> by simp
    then show ?thesis by (intro exI)
  next
    case False
    then have "x # es = [] @ x # es \<and> \<not> jr_busy x \<and> es' = [] @ new # es" using Cons.prems by simp
    then show ?thesis by (intro exI)
  qed
qed simp

lemma claim_entry_free: "length (busy_entries es) < length es \<Longrightarrow> claim_entry new es \<noteq> None"
  by (induction es) (auto simp: busy_entries_def)

lemma busy_append: "busy_entries (as @ bs) = busy_entries as @ busy_entries bs"
  by (simp add: busy_entries_def)

lemma busy_Cons: "busy_entries (e # bs) = (if jr_busy e then e # busy_entries bs else busy_entries bs)"
  by (simp add: busy_entries_def)

lemma budget_bound: "budget_ok budget \<Longrightarrow> unat (jb_outstanding budget) \<le> unat (jb_capacity budget)
    \<and> unat (jb_capacity budget) \<le> 12"
  using requests_bound [of "budget_peers budget" "busy_entries (jb_entries budget)"]
  by (auto simp: budget_ok_def budget_wf_def card_peers word_le_nat_alt)

lemma budget_ok_assert:
  assumes "budget_ok budget"
  shows "assertInvariant budget"
proof -
  have n: "length (busy_entries (jb_entries budget)) = unat (jb_outstanding budget)"
    using assms by (simp add: budget_ok_def)
  show ?thesis
    using budget_bound [OF assms] unfolding assertInvariant_def n by (simp add: word_le_nat_alt)
qed

lemma budget_wf_update:
  "budget_wf budget \<Longrightarrow> length entries = 12 \<Longrightarrow> requests_ok (budget_peers budget) (busy_entries entries)
     \<Longrightarrow> budget_wf (budget\<lparr>jb_entries := entries, jb_outstanding := n\<rparr>)"
  by (simp add: budget_wf_def budget_peers_def)

lemma budget_ok_update:
  "budget_wf budget \<Longrightarrow> length entries = 12 \<Longrightarrow> requests_ok (budget_peers budget) (busy_entries entries)
     \<Longrightarrow> unat n = length (busy_entries entries)
     \<Longrightarrow> budget_ok (budget\<lparr>jb_entries := entries, jb_outstanding := n\<rparr>)"
  by (simp add: budget_ok_def budget_wf_update)

lemma new_budget_ok:
  assumes "newJournalRepairBudget active here = Inr budget"
  shows "budget_ok budget"
proof -
  have g: "\<not> (active = 0 \<or> active > 6 \<or> unat here \<ge> MembersMax)"
    using assms by (auto simp: newJournalRepairBudget_def split: if_splits)
  then have a: "active \<noteq> 0" "active \<le> 6" by auto
  have "unat (active - 1) = unat active - 1" using a(1) by (intro unat_minus_one)
  moreover have "unat active \<le> 6" using a(2) by (simp add: word_le_nat_alt)
  ultimately have "unat (2 * (if here < active then active - 1 else active))
      = 2 * (if here < active then unat active - 1 else unat active)"
    by (subst unat_mult_lem [THEN iffD1]) auto
  moreover have "busy_entries (replicate 12 zeroRepair) = []"
    by (simp add: busy_entries_def zeroRepair_def)
  moreover have b: "budget = \<lparr>jb_active = active, jb_local = here,
      jb_capacity = (if here < active then active - 1 else active) * 2, jb_outstanding = 0,
      jb_ewma = replicate (unat active) 1000000 @ replicate (6 - unat active) 0,
      jb_entries = replicate 12 zeroRepair\<rparr>"
    using assms unfolding newJournalRepairBudget_def Let_def if_not_P [OF g] by simp
  moreover have "jb_active budget = active" "jb_local budget = here" "jb_outstanding budget = 0"
    "jb_capacity budget = 2 * (if here < active then active - 1 else active)"
    "jb_entries budget = replicate 12 zeroRepair" "length (jb_ewma budget) = 6"
    using \<open>unat active \<le> 6\<close> unfolding b by simp_all
  ultimately show ?thesis
    using a by (simp only: budget_ok_def budget_wf_def card_peers requests_ok_def not_False_eq_True) simp
qed

lemma reset_budget_ok:
  assumes "budget_ok budget"
  shows "\<exists>budget'. budget_Reset budget = Returns budget' \<and> budget_ok budget'"
proof -
  let ?b = "budget\<lparr>jb_entries := map (\<lambda>_. zeroRepair) (jb_entries budget), jb_outstanding := 0\<rparr>"
  have "busy_entries (map (\<lambda>_. zeroRepair) es) = []" for es :: "journalRepairEntry list"
    by (simp add: busy_entries_def zeroRepair_def)
  then have "budget_ok ?b"
    using assms by (simp add: budget_ok_def budget_wf_def budget_peers_def requests_ok_def)
  then show ?thesis by (simp add: budget_Reset_def budget_ok_assert)
qed

section \<open>Reserving\<close>

lemma select_peer_eligible:
  assumes "select_peer budget op explore peers sel random = Some (sel', random')"
    and "sel_found sel \<longrightarrow> sel_peer sel \<noteq> jb_local budget \<and> peerEligible budget (sel_peer sel) op \<and> sel_peer sel \<in> P"
    and "set peers \<subseteq> P" "sel_found sel'"
  shows "sel_peer sel' \<noteq> jb_local budget \<and> peerEligible budget (sel_peer sel') op \<and> sel_peer sel' \<in> P"
  using assms
  by (induction budget op explore peers sel random rule: select_peer.induct)
    (auto simp: Let_def split: if_splits option.splits prod.splits)

lemma reserve_peer_ok:
  assumes ok: "budget_ok budget" and room: "jb_outstanding budget \<noteq> jb_capacity budget"
    and p: "p \<in> budget_peers budget" "peerEligible budget p op"
  shows "\<exists>budget'. reserve_peer budget op now p = Some (p, budget') \<and> budget_ok budget'"
proof -
  let ?e = "\<lparr>jr_busy = True, jr_peer = p, jr_op = op, jr_started = now\<rparr>"
  have less: "unat (jb_outstanding budget) < unat (jb_capacity budget)"
    using budget_bound [OF ok] room by (auto simp: word_unat_eq_iff)
  then have "length (busy_entries (jb_entries budget)) < length (jb_entries budget)"
    using ok budget_bound [OF ok] by (simp add: budget_ok_def budget_wf_def)
  then obtain entries where claim: "claim_entry ?e (jb_entries budget) = Some entries"
    using claim_entry_free by blast
  from claim_entry_split [OF this] obtain as x bs where
    split: "jb_entries budget = as @ x # bs" "\<not> jr_busy x" "entries = as @ ?e # bs" by blast
  have before: "busy_entries (jb_entries budget) = busy_entries as @ busy_entries bs"
    using split by (simp add: busy_append busy_Cons)
  have after: "busy_entries entries = busy_entries as @ ?e # busy_entries bs"
    using split by (simp add: busy_append busy_Cons)
  have asked: "length (filter (\<lambda>e. jr_peer e = p) (busy_entries as @ busy_entries bs)) < 2"
    "(p, op) \<notin> (\<lambda>e. (jr_peer e, jr_op e)) ` set (busy_entries as @ busy_entries bs)"
    using p(2) unfolding peerEligible_def peerEligible_from_conv before by (simp, blast)
  have "requests_ok (budget_peers budget) (busy_entries entries)"
    unfolding after
  proof (rule requests_insert)
    show "requests_ok (budget_peers budget) (busy_entries as @ busy_entries bs)"
      using ok before by (simp add: budget_ok_def budget_wf_def)
  qed (use p(1) asked in \<open>simp_all only: journalRepairEntry.simps not_False_eq_True\<close>)
  moreover have "length entries = length (jb_entries budget)" using split by simp
  moreover have "unat (jb_outstanding budget + 1) = unat (jb_outstanding budget) + 1"
    using less budget_bound [OF ok] unat_add_noof [of "jb_outstanding budget" 1] by simp
  moreover have "length (busy_entries entries) = length (busy_entries (jb_entries budget)) + 1"
    using before after by simp
  ultimately have "budget_ok (budget\<lparr>jb_entries := entries, jb_outstanding := jb_outstanding budget + 1\<rparr>)"
    (is "budget_ok ?b")
    using ok by (intro budget_ok_update) (simp_all add: budget_ok_def budget_wf_def)
  moreover from this have "reserve_peer budget op now p = Some (p, ?b)"
    unfolding reserve_peer_def claim option.case Let_def by (simp only: budget_ok_assert if_True)
  ultimately show ?thesis by (intro exI [of _ ?b] conjI)
qed

lemma Reserve_ok:
  assumes ok: "budget_ok budget" and "Reserve budget op now source = r"
  shows "r = Diverges \<or> (\<exists>p budget' source'. r = Returns (p, budget', source') \<and> budget_ok budget')"
proof (cases "source = None \<or> jb_outstanding budget = jb_capacity budget")
  case True
  then show ?thesis using assms by (auto simp: Reserve_def split: option.splits)
next
  case False
  then obtain random where source: "source = Some random" by auto
  show ?thesis
  proof (cases "Uniform random 10")
    case None
    then show ?thesis using assms False source by (auto simp: Reserve_def)
  next
    case (Some y)
    then obtain draw random1 where draw: "Uniform random 10 = Some (draw, random1)" by force
    let ?init = "\<lparr>sel_peer = 0, sel_ewma = - 1, sel_eligible = 0, sel_found = False\<rparr>"
    show ?thesis
    proof (cases "select_peer budget op (draw = 0) (journal_peers budget) ?init random1")
      case None
      then show ?thesis using assms False source draw by (auto simp: Reserve_def)
    next
      case (Some z)
      then obtain sel random2 where
        sel: "select_peer budget op (draw = 0) (journal_peers budget) ?init random1 = Some (sel, random2)" by force
      show ?thesis
      proof (cases "sel_found sel")
        case True
        have "set (journal_peers budget) \<subseteq> {p. p < jb_active budget}"
          by (auto simp: journal_peers_def word_less_nat_alt unsigned_of_nat
              intro: le_less_trans [OF take_bit_nat_less_eq_self])
        from select_peer_eligible [OF sel _ this True]
        have "sel_peer sel \<in> budget_peers budget" "peerEligible budget (sel_peer sel) op"
          by (simp_all add: budget_peers_def)
        with reserve_peer_ok [OF ok] False obtain budget' where
          "reserve_peer budget op now (sel_peer sel) = Some (sel_peer sel, budget')" "budget_ok budget'" by blast
        then show ?thesis using assms False source draw sel True by (auto simp: Reserve_def)
      qed (use assms False source draw sel in \<open>auto simp: Reserve_def\<close>)
    qed
  qed
qed

section \<open>Releasing\<close>

definition releasing :: "u8 \<Rightarrow> journalRepairBudget \<times> u8 \<Rightarrow> bool" where
  "releasing outstanding r \<longleftrightarrow> (case r of (budget, released) \<Rightarrow> budget_wf budget
     \<and> jb_outstanding budget = outstanding
     \<and> length (busy_entries (jb_entries budget)) + unat released = unat outstanding)"

lemma observe_fields [simp]:
  "jb_entries (observe budget p sample) = jb_entries budget"
  "jb_outstanding (observe budget p sample) = jb_outstanding budget"
  by (simp_all add: observe_def Let_def)

lemma observe_wf: "budget_wf budget \<Longrightarrow> budget_wf (observe budget p sample)"
  by (simp add: observe_def Let_def budget_wf_def budget_peers_def)

lemma release_one:
  assumes inv: "releasing outstanding (budget, released)" and i: "i < length (jb_entries budget)"
    and busy: "jr_busy (jb_entries budget ! i)"
  shows "releasing outstanding (budget\<lparr>jb_entries := (jb_entries budget)[i := zeroRepair]\<rparr>, released + 1)"
proof -
  let ?es = "jb_entries budget" and ?as = "take i (jb_entries budget)" and ?bs = "drop (Suc i) (jb_entries budget)"
  have "?es = ?as @ ?es ! i # ?bs" using i by (simp add: id_take_nth_drop)
  then have before: "busy_entries ?es = busy_entries ?as @ ?es ! i # busy_entries ?bs"
    using busy busy_append [of ?as "?es ! i # ?bs"] by (simp add: busy_Cons)
  have after: "busy_entries (?es[i := zeroRepair]) = busy_entries ?as @ busy_entries ?bs"
    using i by (simp add: upd_conv_take_nth_drop busy_append busy_Cons zeroRepair_def)
  have wf: "budget_wf budget" and len: "length (busy_entries ?es) + unat released = unat outstanding"
    using inv by (simp_all add: releasing_def)
  have "requests_ok (budget_peers budget) (busy_entries (?es[i := zeroRepair]))"
    using wf requests_remove unfolding budget_wf_def before after by blast
  then have "budget_wf (budget\<lparr>jb_entries := ?es[i := zeroRepair]\<rparr>)"
    using wf by (simp add: budget_wf_def budget_peers_def)
  moreover have "length (busy_entries (?es[i := zeroRepair])) + 1 = length (busy_entries ?es)"
    unfolding before after by simp
  moreover have "unat (released + 1) = unat released + 1"
    using len before unsigned_less [of outstanding, where ?'a = nat] unat_add_noof [of released 1] by simp
  ultimately show ?thesis using inv len by (simp add: releasing_def)
qed

lemma release_entries_inv:
  "releasing outstanding (budget, released) \<Longrightarrow> set is \<subseteq> {..<12}
     \<Longrightarrow> releasing outstanding (release_entries d now is budget released)"
proof (induction d now "is" budget released rule: release_entries.induct)
  case (2 d now i "is" budget released)
  let ?e = "jb_entries budget ! i"
  let ?b = "observe budget (jr_peer ?e) (elapsedSince (jr_started ?e) now)"
  show ?case
  proof (cases "\<not> jr_busy ?e \<or> \<not> d budget ?e")
    case True
    with 2 show ?thesis by (simp add: Let_def)
  next
    case False
    have "releasing outstanding (?b, released)" using 2(3) by (simp add: releasing_def observe_wf)
    moreover have "i < length (jb_entries ?b)" using 2(3,4) by (simp add: releasing_def budget_wf_def)
    ultimately have "releasing outstanding (?b\<lparr>jb_entries := (jb_entries ?b)[i := zeroRepair]\<rparr>, released + 1)"
      using False by (intro release_one) simp_all
    with 2(2) [OF refl False refl] 2(4) False show ?thesis by (simp add: Let_def)
  qed
qed simp

lemma settle_ok:
  assumes "releasing outstanding r"
  shows "\<exists>released budget. settle r = Returns (released, budget) \<and> budget_ok budget"
proof -
  obtain budget released where r: "r = (budget, released)" by force
  let ?b = "budget\<lparr>jb_outstanding := jb_outstanding budget - released\<rparr>"
  have inv: "budget_wf budget" "jb_outstanding budget = outstanding"
    "length (busy_entries (jb_entries budget)) + unat released = unat outstanding"
    using assms by (simp_all add: releasing_def r)
  then have "unat (outstanding - released) = length (busy_entries (jb_entries budget))"
    by (subst unat_sub_noof) (simp_all add: word_le_nat_alt)
  then have "budget_ok ?b"
    using inv by (simp add: budget_ok_def budget_wf_def budget_peers_def)
  then have "settle r = Returns (released, ?b)"
    by (simp add: settle_def r Let_def budget_ok_assert)
  then show ?thesis using \<open>budget_ok ?b\<close> by blast
qed

lemma budget_releasing: "budget_ok budget \<Longrightarrow> releasing (jb_outstanding budget) (budget, 0)"
  by (simp add: releasing_def budget_ok_def)

lemma release_ok:
  assumes "budget_ok budget"
  shows "\<exists>released budget'. settle (release_entries d now [0..<length (jb_entries budget)] budget 0)
      = Returns (released, budget') \<and> budget_ok budget'"
proof -
  have "set [0..<length (jb_entries budget)] \<subseteq> {..<12}"
    using assms by (auto simp: budget_ok_def budget_wf_def)
  then show ?thesis
    using settle_ok [OF release_entries_inv [OF budget_releasing [OF assms]]] by blast
qed

lemma release_returns:
  assumes "settle (release_entries d now [0..<length (jb_entries budget)] budget 0) = Returns (n, budget')"
    and "budget_ok budget"
  shows "budget_ok budget'"
  using release_ok [OF assms(2), of d now] unfolding assms(1) by auto

lemma release_no_panic:
  "budget_ok budget \<Longrightarrow> settle (release_entries d now [0..<length (jb_entries budget)] budget 0) \<noteq> Panics"
  using release_ok [of budget d now] by auto

section \<open>Every sequence of operations\<close>

inductive budget_step :: "journalRepairBudget \<Rightarrow> journalRepairBudget \<Rightarrow> bool" where
  reserve: "Reserve budget op now source = Returns (p, budget', source') \<Longrightarrow> budget_step budget budget'"
| complete: "journal_Complete budget op now = Returns (n, budget') \<Longrightarrow> budget_step budget budget'"
| expire: "Expire budget now = Returns (n, budget') \<Longrightarrow> budget_step budget budget'"
| reset: "budget_Reset budget = Returns budget' \<Longrightarrow> budget_step budget budget'"

lemma budget_step_ok:
  assumes "budget_step budget budget'" "budget_ok budget"
  shows "budget_ok budget'"
  using assms
proof (induction rule: budget_step.induct)
  case (reserve budget op now source p budget' source')
  show ?case using Reserve_ok [OF reserve(2,1)] by simp
next
  case (complete budget op now n budget')
  then show ?case unfolding journal_Complete_def by (rule release_returns)
next
  case (expire budget now n budget')
  then show ?case unfolding Expire_def by (rule release_returns)
next
  case (reset budget budget')
  show ?case using reset_budget_ok [OF reset(2)] unfolding reset(1) by simp
qed

lemma budget_steps_ok: "budget_step\<^sup>*\<^sup>* budget budget' \<Longrightarrow> budget_ok budget \<Longrightarrow> budget_ok budget'"
  by (induction rule: rtranclp_induct) (simp_all add: budget_step_ok)

section \<open>Properties\<close>

text \<open>
  C23: The assertions of the repair budget never fail and a free entry is always found: after any
  sequence of reservations, completions, expiries and resets no operation panics, the number of
  outstanding requests equals the number of busy entries and stays within the capacity, no peer
  has more than two requests, and none is asked for the same operation twice.
\<close>

theorem repair_budget_sound:
  assumes "newJournalRepairBudget active here = Inr start" "budget_step\<^sup>*\<^sup>* start budget"
  shows "Reserve budget op now source \<noteq> Panics \<and> journal_Complete budget op now \<noteq> Panics
    \<and> Expire budget now \<noteq> Panics \<and> budget_Reset budget \<noteq> Panics
    \<and> unat (jb_outstanding budget) = length (busy_entries (jb_entries budget))
    \<and> jb_outstanding budget \<le> jb_capacity budget
    \<and> (\<forall>p. length (filter (\<lambda>e. jr_peer e = p) (busy_entries (jb_entries budget))) \<le> 2)
    \<and> distinct (map (\<lambda>e. (jr_peer e, jr_op e)) (busy_entries (jb_entries budget)))"
proof -
  have ok: "budget_ok budget"
    using budget_steps_ok [OF assms(2)] new_budget_ok [OF assms(1)] by blast
  have "Reserve budget op now source \<noteq> Panics"
  proof
    assume "Reserve budget op now source = Panics"
    from Reserve_ok [OF ok this] show False by simp
  qed
  moreover have "journal_Complete budget op now \<noteq> Panics" "Expire budget now \<noteq> Panics"
    unfolding journal_Complete_def Expire_def by (rule release_no_panic [OF ok])+
  moreover have "budget_Reset budget \<noteq> Panics" using reset_budget_ok [OF ok] by auto
  ultimately show ?thesis
    using ok budget_bound [OF ok]
    by (simp add: budget_ok_def budget_wf_def requests_ok_def word_le_nat_alt)
qed

definition example_budget :: journalRepairBudget where
  "example_budget = \<lparr>jb_active = 3, jb_local = 0, jb_capacity = 4, jb_outstanding = 0,
     jb_ewma = replicate 3 1000000 @ replicate 3 0, jb_entries = replicate 12 zeroRepair\<rparr>"

lemma example_budget: "newJournalRepairBudget 3 0 = Inr example_budget"
  by (simp add: newJournalRepairBudget_def example_budget_def)

theorem repair_budget_sound_witness:
  "newJournalRepairBudget 3 0 = Inr example_budget \<and> Expire example_budget 5 \<noteq> Panics
   \<and> jb_outstanding example_budget \<le> jb_capacity example_budget"
  using repair_budget_sound [OF example_budget rtranclp.rtrancl_refl] example_budget by blast

end
