(* ===== verification/Replica_State.thy ===== *)
theory Replica_State
  imports Ring_Queue Status Repair_Budget Wal
begin

text \<open>
  The state of a replica, as far as the operations modelled here and in the theory of view
  changes use it (\<^verbatim>\<open>replication/replica.go\<close>), its pipeline and request queue, the counting of
  acknowledgements (\<^verbatim>\<open>replication/replica_normal.go\<close>) and the evidence it holds about its log
  (\<^verbatim>\<open>replication/view_change.go\<close>). A message is the bytes of its frame, nil is \<open>None\<close>, metrics
  and logging are left out.
\<close>

record TimeSample =
  Wall :: u64
  Monotonic :: u64
  Synchronized :: bool

datatype IOKind = IONone | IORead | IOWrite | IOSync | IOResize | IOWALAppend | IOReplyWrite | IOReplyRead
  | IOSuperblockPersist

record IOHandle =
  io_Index :: u32
  io_Generation :: u64

abbreviation (input) zeroHandle :: IOHandle where "zeroHandle \<equiv> \<lparr>io_Index = 0, io_Generation = 0\<rparr>"

record queuedRequest =
  q_message :: "bytes option"
  q_time :: TimeSample

record pipelineEntry =
  e_generation :: u64
  e_prepare :: "bytes option"
  e_header :: Header
  e_acks :: u16
  e_durable :: bool
  e_quorum :: bool
  e_io :: IOHandle
  e_ioKind :: IOKind
  e_stage :: CommitStage
  e_reply :: "bytes option"
  e_replyHeader :: Header
  e_lastBroadcast :: u64

record joinRecord =
  j_valid :: bool
  j_present :: u16
  j_nack :: u16
  j_head :: Op
  j_commit :: Op
  j_checkpoint :: Op
  j_logView :: View
  j_count :: u8

record Replica =
  r_config :: Config
  r_membership :: Membership
  r_local :: ReplicaIndex
  r_quorums :: Quorums
  r_status :: Status
  r_view :: View
  r_durableView :: View
  r_logView :: View
  r_headOp :: Op
  r_commitMin :: Op
  r_commitMax :: Op
  r_checkpoint :: CheckpointState
  r_headChecksum :: Checksum
  r_wal :: WAL
  r_SyncMin :: "Op option"
  r_syncRangeRepaired :: bool
  r_pipeline :: "pipelineEntry list"
  r_pipelineHead :: u32
  r_pipelineLen :: u32
  r_requestQueue :: "queuedRequest list"
  r_requestHead :: u32
  r_requestLen :: u32
  r_joins :: "joinRecord list"
  r_joinHeaders :: "Header list"
  r_canonicalHeaders :: "Header list"
  r_joinViewBits :: u16
  r_viewIO :: IOHandle
  r_repairWriteBusy :: bool
  r_repairBudget :: journalRepairBudget
  r_repairHeader :: Header
  r_repairHeaderValid :: bool
  r_repairViewWindow :: bool
  r_repairViewValid :: bool
  r_repairView :: View
  r_repairViewAncestor :: Op
  r_repairViewCommit :: Op
  r_repairViewHead :: Op
  r_repairViewRebuilt :: bool
  r_repairViewCount :: nat
  r_repairFrames :: "bytes option list"
  r_peerCheckpointOps :: "Op list"
  r_fatalErr :: "err option"

text \<open>How the replica decodes headers and frames: with its group, message bound and members.\<close>

definition replica_members :: "Replica \<Rightarrow> u8" where
  "replica_members replica = mem_ActiveCount (r_membership replica) + StandbyCount (r_membership replica)"

definition replica_DecodeHeader :: "Replica \<Rightarrow> bytes \<Rightarrow> Header \<times> RejectReason" where
  "replica_DecodeHeader replica encoded = DecodeHeader encoded (cfg_Group (r_config replica))
     (ucast (cfg_MessageSizeMax (Cluster (r_config replica)))) (replica_members replica)"

definition replica_DecodeFrame :: "Replica \<Rightarrow> bytes \<Rightarrow> Header \<times> bytes \<times> RejectReason" where
  "replica_DecodeFrame replica frame = DecodeFrame frame (cfg_Group (r_config replica))
     (ucast (cfg_MessageSizeMax (Cluster (r_config replica)))) (replica_members replica)"

definition isPrimary :: "Replica \<Rightarrow> bool" where
  "isPrimary replica \<longleftrightarrow> Primary (r_membership replica) (r_view replica) = Some (r_local replica)"

definition replica_fail :: "Replica \<Rightarrow> err \<Rightarrow> Replica" where
  "replica_fail replica e =
     (if r_fatalErr replica = None then replica\<lparr>r_fatalErr := Some e\<rparr> else replica)"

section \<open>The pipeline\<close>

definition zeroEntry :: "u64 \<Rightarrow> pipelineEntry" where
  "zeroEntry gen = \<lparr>e_generation = gen, e_prepare = None, e_header = zeroHeader, e_acks = 0,
     e_durable = False, e_quorum = False, e_io = zeroHandle, e_ioKind = IONone, e_stage = CommitStageIdle,
     e_reply = None, e_replyHeader = zeroHeader, e_lastBroadcast = 0\<rparr>"

definition pipelineIndex :: "Replica \<Rightarrow> u32 \<Rightarrow> nat" where
  "pipelineIndex replica offset = ring_index (length (r_pipeline replica)) (r_pipelineHead replica) offset"

definition pipelineAt :: "Replica \<Rightarrow> u32 \<Rightarrow> pipelineEntry" where
  "pipelineAt replica offset = r_pipeline replica ! pipelineIndex replica offset"

definition pipelineOffsets :: "Replica \<Rightarrow> u32 list" where
  "pipelineOffsets replica = map of_nat [0..<unat (r_pipelineLen replica)]"

definition pushPipeline :: "Replica \<Rightarrow> bytes \<Rightarrow> Header \<Rightarrow> Replica option" where
  "pushPipeline replica frame header =
     (if r_pipelineLen replica = of_nat (length (r_pipeline replica)) then None
      else let index = pipelineIndex replica (r_pipelineLen replica);
               gen = e_generation (r_pipeline replica ! index) + 1
      in Some (replica\<lparr>r_pipeline := (r_pipeline replica)[index := (zeroEntry gen)\<lparr>e_prepare := Some frame, e_header := header\<rparr>],
                       r_pipelineLen := r_pipelineLen replica + 1,
                       r_headOp := prepareOp header,
                       r_headChecksum := HeaderChecksum header\<rparr>))"

definition popPipeline :: "Replica \<Rightarrow> Replica" where
  "popPipeline replica =
     (let index = pipelineIndex replica 0
      in replica\<lparr>r_pipeline := (r_pipeline replica)[index := zeroEntry (e_generation (r_pipeline replica ! index))],
                 r_pipelineHead := ring_next (length (r_pipeline replica)) (r_pipelineHead replica),
                 r_pipelineLen := r_pipelineLen replica - 1\<rparr>)"

definition commitInFlight :: "Replica \<Rightarrow> bool" where
  "commitInFlight replica \<longleftrightarrow>
     (\<exists>offset\<in>set (pipelineOffsets replica). e_stage (pipelineAt replica offset) \<noteq> CommitStageIdle)"

definition Snapshot :: "Replica \<Rightarrow> ReplicaIndex \<Rightarrow> ReplicaSnapshot" where
  "Snapshot replica primary =
     (let first = pipelineAt replica 0; some = r_pipelineLen replica > 0
      in \<lparr>snap_Status = r_status replica, snap_View = r_view replica, snap_DurableView = r_durableView replica,
          snap_LogView = r_logView replica, snap_HeadOp = r_headOp replica, snap_CommitMin = r_commitMin replica,
          snap_CommitMax = r_commitMax replica, snap_Checkpoint = r_checkpoint replica,
          snap_PipelineLen = r_pipelineLen replica,
          snap_CommitStage = (if some then e_stage first else CommitStageIdle),
          snap_PrepareWritePending = (some \<and> e_ioKind first = IOWALAppend),
          snap_Committing = (some \<and> stage_maintenance (e_stage first)
             \<and> prepareOp (e_header first) = r_commitMin replica),
          snap_Primary = primary\<rparr>)"

text \<open>Without active members the computation of the primary panics.\<close>

definition checkInvariants :: "Replica \<Rightarrow> unit result option" where
  "checkInvariants replica =
     (case Primary (r_membership replica) (r_view replica) of None \<Rightarrow> None
      | Some primary \<Rightarrow> Some (validateReplicaSnapshot (Snapshot replica primary) (Cluster (r_config replica)) (r_local replica)))"

definition Transition :: "Replica \<Rightarrow> Status \<Rightarrow> TransitionCause \<Rightarrow> (Replica \<times> unit result) option" where
  "Transition replica to cause =
     (if \<not> validStatusTransition (r_status replica) to cause then Some (replica, Inl ErrStatusTransition)
      else let replica = replica\<lparr>r_status := to\<rparr>
      in map_option (Pair replica) (checkInvariants replica))"

section \<open>The request queue\<close>

definition zeroRequest :: queuedRequest where
  "zeroRequest = \<lparr>q_message = None, q_time = \<lparr>Wall = 0, Monotonic = 0, Synchronized = False\<rparr>\<rparr>"

definition requestIndex :: "Replica \<Rightarrow> u32 \<Rightarrow> nat" where
  "requestIndex replica offset = ring_index (length (r_requestQueue replica)) (r_requestHead replica) offset"

definition queueRequest :: "Replica \<Rightarrow> bytes \<Rightarrow> TimeSample \<Rightarrow> Replica option" where
  "queueRequest replica message sample =
     (if r_requestLen replica = of_nat (length (r_requestQueue replica)) then None
      else Some (replica\<lparr>r_requestQueue := (r_requestQueue replica)[requestIndex replica (r_requestLen replica)
                            := \<lparr>q_message = Some message, q_time = sample\<rparr>],
                         r_requestLen := r_requestLen replica + 1\<rparr>))"

text \<open>The three lines by which the head of the queue is cleared and left behind.\<close>

definition dropRequest :: "Replica \<Rightarrow> Replica" where
  "dropRequest replica =
     replica\<lparr>r_requestQueue := (r_requestQueue replica)[unat (r_requestHead replica) := zeroRequest],
             r_requestHead := ring_next (length (r_requestQueue replica)) (r_requestHead replica),
             r_requestLen := r_requestLen replica - 1\<rparr>"

function releaseQueuedRequests :: "Replica \<Rightarrow> Replica" where
  "releaseQueuedRequests replica =
     (if r_requestLen replica > 0 then releaseQueuedRequests (dropRequest replica) else replica)"
  by auto
termination
  by (relation "measure (\<lambda>replica. unat (r_requestLen replica))")
    (auto simp: dropRequest_def word_greater_zero_iff unat_minus_one unat_gt_0)

definition requestClient :: "Header \<Rightarrow> ClientID" where
  "requestClient header = gslice 32 48 (Fields header)"

definition requestParent :: "Header \<Rightarrow> Checksum" where
  "requestParent header = gslice 0 16 (Fields header)"

definition pipelineConflict :: "Replica \<Rightarrow> ClientID \<Rightarrow> RequestNo \<Rightarrow> bool" where
  "pipelineConflict replica client request \<longleftrightarrow>
     (\<exists>offset\<in>set (pipelineOffsets replica). let header = e_header (pipelineAt replica offset)
        in prepareClient header = client \<and> prepareRequest header = request)
     \<or> (\<exists>i\<in>set [0..<unat (r_requestLen replica)].
          case q_message (r_requestQueue replica ! requestIndex replica (of_nat i)) of None \<Rightarrow> False
          | Some frame \<Rightarrow> let (header, _, reason) = replica_DecodeFrame replica frame
              in reason = RejectNone \<and> requestClient header = client \<and> get32 (gslice 64 68 (Fields header)) = request)"

section \<open>Acknowledgements\<close>

fun equal16_from :: "u8 \<Rightarrow> bytes \<Rightarrow> bytes \<Rightarrow> u8" where
  "equal16_from difference (l # ls) (r # rs) = equal16_from (difference OR (l XOR r)) ls rs"
| "equal16_from difference _ _ = difference"

definition equal16 :: "bytes \<Rightarrow> bytes \<Rightarrow> bool" where
  "equal16 left right \<longleftrightarrow> length left = 16 \<and> length right = 16 \<and> equal16_from 0 left right = 0"

definition prepareOKMatches :: "Header \<Rightarrow> Header \<Rightarrow> bool" where
  "prepareOKMatches ack prepare \<longleftrightarrow>
     get64 (gslice 96 104 (Fields ack)) = prepareOp prepare
     \<and> get64 (gslice 112 120 (Fields ack)) = prepareTimestamp prepare
     \<and> get32 (gslice 120 124 (Fields ack)) = prepareRequest prepare
     \<and> Fields ack ! 124 = prepareOperation prepare
     \<and> equal16 (gslice 0 16 (Fields ack)) (gslice 0 16 (Fields prepare))
     \<and> equal16 (gslice 32 48 (Fields ack)) (HeaderChecksum prepare)
     \<and> equal16 (gslice 64 80 (Fields ack)) (gslice 64 80 (Fields prepare))
     \<and> equal16 (gslice 80 96 (Fields ack)) (gslice 80 96 (Fields prepare))"

definition countPrepareAck :: "Quorums \<Rightarrow> pipelineEntry \<Rightarrow> ReplicaIndex \<Rightarrow> pipelineEntry" where
  "countPrepareAck quorums entry author =
     (let b = push_bit (unat author) 1
      in if e_acks entry AND b \<noteq> 0 then entry
      else let entry = entry\<lparr>e_acks := e_acks entry OR b\<rparr>
      in if countAckBits (e_acks entry) \<ge> Replication quorums then entry\<lparr>e_quorum := True\<rparr> else entry)"

definition updateEntry :: "Replica \<Rightarrow> u32 \<Rightarrow> (pipelineEntry \<Rightarrow> pipelineEntry) \<Rightarrow> Replica" where
  "updateEntry replica offset f =
     replica\<lparr>r_pipeline := (r_pipeline replica)[pipelineIndex replica offset := f (pipelineAt replica offset)]\<rparr>"

fun handlePrepareOK_from :: "Replica \<Rightarrow> Header \<Rightarrow> Op \<Rightarrow> u32 list \<Rightarrow> Replica" where
  "handlePrepareOK_from replica ack op [] = replica"
| "handlePrepareOK_from replica ack op (offset # offsets) =
     (let prepare = e_header (pipelineAt replica offset)
      in if prepareOp prepare \<noteq> op then handlePrepareOK_from replica ack op offsets
      else if \<not> prepareOKMatches ack prepare then replica
      else updateEntry replica offset (\<lambda>entry. countPrepareAck (r_quorums replica) entry (Author ack)))"

definition handlePrepareOK :: "Replica \<Rightarrow> Header \<Rightarrow> Replica" where
  "handlePrepareOK replica ack =
     (if r_status replica \<noteq> StatusNormal \<or> r_durableView replica \<noteq> r_view replica \<or> \<not> isPrimary replica
         \<or> View ack \<noteq> r_view replica \<or> Author ack \<ge> mem_ActiveCount (r_membership replica) then replica
      else handlePrepareOK_from replica ack (get64 (gslice 96 104 (Fields ack))) (pipelineOffsets replica))"

definition canAcknowledge :: "Replica \<Rightarrow> pipelineEntry \<Rightarrow> bool" where
  "canAcknowledge replica entry =
     (let normalView = r_status replica = StatusNormal \<and> r_view replica = r_durableView replica
                         \<and> r_logView replica = r_view replica;
          cluster = Cluster (r_config replica)
      in if \<not> e_durable entry \<or> \<not> normalView \<or> r_viewIO replica \<noteq> zeroHandle
            \<or> r_local replica \<ge> mem_ActiveCount (r_membership replica) then False
      else let checkpoint = PrepareOp (r_checkpoint replica)
      in case checkpointAfter cluster checkpoint of None \<Rightarrow> False
      | Some after \<Rightarrow>
        let syncing = (case r_SyncMin replica of None \<Rightarrow> False | Some low \<Rightarrow> low \<noteq> 0) \<and> \<not> r_syncRangeRepaired replica;
            bound = (\<lambda>op. case checkpointTrigger cluster op of None \<Rightarrow> None
                          | Some trigger \<Rightarrow> checkedAdd trigger (cfg_PipelineMax cluster))
        in if syncing \<and> bound checkpoint = None then False
        else let after = (if syncing \<and> checkpoint \<noteq> 0 \<and> r_commitMax replica \<le> the (bound checkpoint)
                          then checkpoint else after)
        in case bound after of None \<Rightarrow> False | Some limit \<Rightarrow> prepareOp (e_header entry) \<le> limit)"

text \<open>The header of the acknowledgement a backup sends.\<close>

definition prepareOKHeader :: "Replica \<Rightarrow> Header \<Rightarrow> Header" where
  "prepareOKHeader replica prepare =
     zeroHeader\<lparr>Group := cfg_Group (r_config replica), View := r_view replica, Protocol := ProtocolVersion,
       Command := CommandPrepareOK, Author := r_local replica,
       Fields := copy_at 112 125 (gslice 112 125 (Fields prepare))
         (copy_at 104 112 (put64 (r_commitMin replica))
         (copy_at 96 104 (gslice 96 104 (Fields prepare))
         (copy_at 64 96 (gslice 64 96 (Fields prepare))
         (copy_at 32 48 (HeaderChecksum prepare)
         (copy_at 0 16 (gslice 0 16 (Fields prepare)) (Fields zeroHeader))))))\<rparr>"

text \<open>
  The header of a reply and its sealed frame. The context checksum covers the encoded header
  before it carries that checksum itself.
\<close>

definition replyFields :: "bytes \<Rightarrow> bytes" where
  "replyFields prepare =
     copy_at 104 109 (gslice 120 125 prepare) (copy_at 96 104 (gslice 112 120 prepare)
    (copy_at 88 96 (gslice 96 104 prepare) (copy_at 80 88 (gslice 96 104 prepare)
    (copy_at 64 80 (gslice 80 96 prepare) (copy_at 0 16 (gslice 32 48 prepare) (replicate 128 0))))))"

definition buildReplyHeader :: "Replica \<Rightarrow> Header \<Rightarrow> bytes \<Rightarrow> u32 \<Rightarrow> (bytes \<times> Header) result option" where
  "buildReplyHeader replica prepare reply replyLength =
     (case Primary (r_membership replica) (View prepare) of None \<Rightarrow> None
      | Some primary \<Rightarrow>
        let header = zeroHeader\<lparr>BodyChecksum := ChecksumBytes (gslice 256 (256 + unat replyLength) reply),
              Group := cfg_Group (r_config replica), Size := 256 + replyLength, View := View prepare,
              Release := Release prepare, Protocol := ProtocolVersion, Command := CommandReply,
              Author := primary, Fields := replyFields (Fields prepare)\<rparr>
        in Some (bind_result (EncodeHeader (replicate 256 0) header) (\<lambda>(encoded, header).
             SealFrame reply (header\<lparr>Fields := copy_at 32 48 (ChecksumBytes (drop 16 encoded)) (Fields header)\<rparr>))))"

text \<open>Which backup answers a client besides the primary: a mix of the operation number.\<close>

definition replyBackup :: "Op \<Rightarrow> ReplicaIndex \<Rightarrow> u8 \<Rightarrow> ReplicaIndex" where
  "replyBackup op primary activeCount =
     (if activeCount \<le> 1 then primary
      else let x = op + 0x9e3779b97f4a7c15;
               x = (x XOR drop_bit 30 x) * 0xbf58476d1ce4e5b9;
               x = (x XOR drop_bit 27 x) * 0x94d049bb133111eb;
               x = x XOR drop_bit 31 x
      in ucast ((ucast primary + 1 + x mod ucast (activeCount - 1)) mod ucast activeCount))"

section \<open>Evidence about the log\<close>

definition findEntry :: "Replica \<Rightarrow> Op \<Rightarrow> pipelineEntry option" where
  "findEntry replica op =
     find (\<lambda>entry. prepareOp (e_header entry) = op) (map (pipelineAt replica) (pipelineOffsets replica))"

text \<open>The header at an operation, whether it is present, whether it is not durable, whether it was found.\<close>

definition localHeaderEvidence :: "Replica \<Rightarrow> Op \<Rightarrow> Header \<times> bool \<times> bool \<times> bool" where
  "localHeaderEvidence replica op =
     (case findEntry replica op of Some entry \<Rightarrow> (e_header entry, True, \<not> e_durable entry, True)
      | None \<Rightarrow>
        if op = PrepareOp (r_checkpoint replica)
        then let (header, reason) = replica_DecodeHeader replica (cs_Header (r_checkpoint replica))
             in (header, reason = RejectNone, False, reason = RejectNone)
        else let (header, present, nack) = JoinEvidence (r_wal replica) op in (header, present, nack, present))"

definition DurableChecksum :: "Replica \<Rightarrow> Op \<Rightarrow> Checksum option" where
  "DurableChecksum replica op =
     (if op < PrepareOp (r_checkpoint replica) \<or> op > r_headOp replica then None
      else let (header, present, dirty, found) = localHeaderEvidence replica op
      in if \<not> found \<or> \<not> present \<or> dirty then None else Some (HeaderChecksum header))"

primrec collectLocalSuffix_from :: "Replica \<Rightarrow> Op \<Rightarrow> nat \<Rightarrow> Header list" where
  "collectLocalSuffix_from replica op 0 = []"
| "collectLocalSuffix_from replica op (Suc room) =
     (let (header, _, _, found) = localHeaderEvidence replica op
      in (if found then header else zeroHeader)
         # (if op = PrepareOp (r_checkpoint replica) \<or> op = 0 then []
            else collectLocalSuffix_from replica (op - 1) room))"

text \<open>The headers written to the front of a destination of a given length; their number is the count.\<close>

definition collectLocalSuffix :: "Replica \<Rightarrow> nat \<Rightarrow> Header list" where
  "collectLocalSuffix replica room =
     collectLocalSuffix_from replica (r_headOp replica)
       (min room (unat (cfg_PipelineMax (Cluster (r_config replica)) + 1)))"

definition collectViewSuffix :: "Replica \<Rightarrow> Replica \<times> nat result" where
  "collectViewSuffix replica =
     (let suffix = collectLocalSuffix replica (length (r_canonicalHeaders replica));
          count = length suffix;
          headers = suffix @ drop count (r_canonicalHeaders replica)
      in if \<exists>header\<in>set suffix. prepareOp header = PrepareOp (r_checkpoint replica)
      then (replica\<lparr>r_canonicalHeaders := headers\<rparr>, Inr count)
      else let (checkpoint, reason) = replica_DecodeHeader replica (cs_Header (r_checkpoint replica))
      in if reason \<noteq> RejectNone then (replica\<lparr>r_canonicalHeaders := headers\<rparr>, Inl ErrInvalidCheckpoint)
      else let count = (if count = length (r_canonicalHeaders replica) then count - 1 else count)
      in (replica\<lparr>r_canonicalHeaders := headers[count := checkpoint]\<rparr>, Inr (count + 1)))"

definition observePeerCheckpoint :: "Replica \<Rightarrow> ReplicaIndex \<Rightarrow> Op \<Rightarrow> Replica" where
  "observePeerCheckpoint replica p checkpoint =
     (if p \<ge> of_nat (length (r_peerCheckpointOps replica)) then replica
      else replica\<lparr>r_peerCheckpointOps := (r_peerCheckpointOps replica)[unat p :=
             max (r_peerCheckpointOps replica ! unat p) checkpoint]\<rparr>)"

section \<open>The queues keep their contract\<close>

definition pipeline_ok :: "Replica \<Rightarrow> bool" where
  "pipeline_ok replica \<longleftrightarrow> ring_ok (r_pipeline replica) (r_pipelineHead replica) (r_pipelineLen replica)"

definition pipeline_entries :: "Replica \<Rightarrow> pipelineEntry list" where
  "pipeline_entries replica = ring_contents (r_pipeline replica) (r_pipelineHead replica) (r_pipelineLen replica)"

definition pipeline_items :: "Replica \<Rightarrow> (bytes \<times> Header) list" where
  "pipeline_items replica = map (\<lambda>entry. (the (e_prepare entry), e_header entry)) (pipeline_entries replica)"

definition request_ok :: "Replica \<Rightarrow> bool" where
  "request_ok replica \<longleftrightarrow> ring_ok (r_requestQueue replica) (r_requestHead replica) (r_requestLen replica)"

definition request_items :: "Replica \<Rightarrow> (bytes \<times> TimeSample) list" where
  "request_items replica = map (\<lambda>q. (the (q_message q), q_time q))
     (ring_contents (r_requestQueue replica) (r_requestHead replica) (r_requestLen replica))"

lemma ring_full: "ring_ok xs first len \<Longrightarrow> len = of_nat (length xs) \<longleftrightarrow> unat len = length xs"
  by (auto simp: ring_ok_def word_unat_eq_iff unsigned_of_nat take_bit_nat_eq_self)

lemma pushPipeline_entries:
  assumes "pipeline_ok replica" "pushPipeline replica frame header = Some replica'"
  shows "pipeline_ok replica' \<and> length (r_pipeline replica') = length (r_pipeline replica)
    \<and> (\<exists>gen. pipeline_entries replica' = pipeline_entries replica
         @ [(zeroEntry gen)\<lparr>e_prepare := Some frame, e_header := header\<rparr>])"
proof -
  have "unat (r_pipelineLen replica) < length (r_pipeline replica)"
    using assms ring_full [of "r_pipeline replica" "r_pipelineHead replica" "r_pipelineLen replica"]
    by (auto simp: pushPipeline_def pipeline_ok_def ring_ok_def split: if_splits)
  from ring_push [OF assms(1) [unfolded pipeline_ok_def] this refl] assms(2) show ?thesis
    by (auto simp: pushPipeline_def pipeline_ok_def pipeline_entries_def pipelineIndex_def Let_def split: if_splits)
qed

interpretation pipeline_queue: bounded_queue pipeline_ok pipeline_items "\<lambda>replica. length (r_pipeline replica)"
  "\<lambda>(frame, header) replica. pushPipeline replica frame header" popPipeline
proof
  fix s :: Replica and x :: "bytes \<times> Header"
  assume ok: "pipeline_ok s"
  then have ring: "ring_ok (r_pipeline s) (r_pipelineHead s) (r_pipelineLen s)" by (simp add: pipeline_ok_def)
  have len: "length (pipeline_items s) = unat (r_pipelineLen s)"
    by (simp add: pipeline_items_def pipeline_entries_def)
  show "length (pipeline_items s) \<le> length (r_pipeline s)" using ring len by (simp add: ring_ok_def)
  obtain frame header where x: "x = (frame, header)" by force
  { assume "length (pipeline_items s) = length (r_pipeline s)"
    then have "r_pipelineLen s = of_nat (length (r_pipeline s))" using ring_full [OF ring] len by simp
    then show "(case x of (frame, header) \<Rightarrow> \<lambda>replica. pushPipeline replica frame header) s = None"
      by (simp add: x pushPipeline_def) }
  { assume "length (pipeline_items s) < length (r_pipeline s)"
    then have "r_pipelineLen s \<noteq> of_nat (length (r_pipeline s))" using ring_full [OF ring] len by simp
    then obtain s' where "pushPipeline s frame header = Some s'" by (auto simp: pushPipeline_def Let_def)
    with pushPipeline_entries [OF ok this]
    show "\<exists>s'. (case x of (frame, header) \<Rightarrow> \<lambda>replica. pushPipeline replica frame header) s = Some s'
        \<and> pipeline_ok s' \<and> pipeline_items s' = pipeline_items s @ [x]
        \<and> length (r_pipeline s') = length (r_pipeline s)"
      by (auto simp: x pipeline_items_def zeroEntry_def) }
  { assume "pipeline_items s \<noteq> []"
    then have "r_pipelineLen s \<noteq> 0" using len by auto
    from ring_pop [OF ring this refl]
    show "pipeline_ok (popPipeline s) \<and> pipeline_items (popPipeline s) = tl (pipeline_items s)
        \<and> length (r_pipeline (popPipeline s)) = length (r_pipeline s)"
      by (simp add: popPipeline_def pipeline_ok_def pipeline_items_def pipeline_entries_def pipelineIndex_def
          Let_def map_tl) }
qed

interpretation request_queue: bounded_queue request_ok request_items "\<lambda>replica. length (r_requestQueue replica)"
  "\<lambda>(message, sample) replica. queueRequest replica message sample" dropRequest
proof
  fix s :: Replica and x :: "bytes \<times> TimeSample"
  assume ok: "request_ok s"
  then have ring: "ring_ok (r_requestQueue s) (r_requestHead s) (r_requestLen s)" by (simp add: request_ok_def)
  have len: "length (request_items s) = unat (r_requestLen s)" by (simp add: request_items_def)
  show "length (request_items s) \<le> length (r_requestQueue s)" using ring len by (simp add: ring_ok_def)
  obtain message sample where x: "x = (message, sample)" by force
  { assume "length (request_items s) = length (r_requestQueue s)"
    then have "r_requestLen s = of_nat (length (r_requestQueue s))" using ring_full [OF ring] len by simp
    then show "(case x of (message, sample) \<Rightarrow> \<lambda>replica. queueRequest replica message sample) s = None"
      by (simp add: x queueRequest_def) }
  { assume room: "length (request_items s) < length (r_requestQueue s)"
    then have "r_requestLen s \<noteq> of_nat (length (r_requestQueue s))" using ring_full [OF ring] len by simp
    with ring_push [OF ring _ refl] room len
    show "\<exists>s'. (case x of (message, sample) \<Rightarrow> \<lambda>replica. queueRequest replica message sample) s = Some s'
        \<and> request_ok s' \<and> request_items s' = request_items s @ [x]
        \<and> length (r_requestQueue s') = length (r_requestQueue s)"
      by (simp add: x queueRequest_def request_ok_def request_items_def requestIndex_def) }
  { assume "request_items s \<noteq> []"
    then have "r_requestLen s \<noteq> 0" using len by auto
    moreover have "ring_index (length (r_requestQueue s)) (r_requestHead s) 0 = unat (r_requestHead s)"
      using ring ring_index_nat [of "length (r_requestQueue s)" "r_requestHead s" 0] by (simp add: ring_ok_def)
    ultimately show "request_ok (dropRequest s) \<and> request_items (dropRequest s) = tl (request_items s)
        \<and> length (r_requestQueue (dropRequest s)) = length (r_requestQueue s)"
      using ring_pop [OF ring _ refl] by (simp add: dropRequest_def request_ok_def request_items_def map_tl) }
qed

end
