(* ===== verification/Acknowledgement.thy ===== *)
theory Acknowledgement
  imports Replica_State Validation
begin

text \<open>
  What the acknowledgements of a prepare establish: the acknowledgement of a backup is the one the
  primary counts, an entry is marked as replicated only by a replication quorum of distinct active
  replicas, and such a quorum meets every set of replicas that can change the view.
\<close>

section \<open>Matching an acknowledgement\<close>

lemma slice_copy_at_within:
  assumes "a \<le> c" "d \<le> b" "length src = b - a" "b \<le> length dst"
  shows "gslice c d (copy_at a b src dst) = gslice (c - a) (d - a) src"
  using assms by (intro nth_equalityI) (auto simp: nth_slice nth_copy_at)

lemma slice_slice: "a + d \<le> b \<Longrightarrow> gslice c d (gslice a b xs) = gslice (a + c) (a + d) xs"
  by (simp add: gslice_def drop_take min_absorb1 add.commute)

lemma xor_zero_iff: "l XOR r = 0 \<longleftrightarrow> l = (r :: u8)"
proof
  assume "l XOR r = 0"
  then have "(l XOR r) XOR r = 0 XOR r" by simp
  then show "l = r" by (simp add: xor.assoc)
qed simp

lemma equal16_from_zero:
  "length ls = length rs \<Longrightarrow> equal16_from difference ls rs = 0 \<longleftrightarrow> difference = 0 \<and> ls = rs"
  by (induction difference ls rs rule: equal16_from.induct) (auto simp: or_eq_0_iff xor_zero_iff)

lemma equal16_conv: "length l = 16 \<Longrightarrow> length r = 16 \<Longrightarrow> equal16 l r \<longleftrightarrow> l = r"
  by (simp add: equal16_def equal16_from_zero)

lemma prepareOK_fields:
  assumes "header_wf prepare" and flds_def: "flds = Fields (prepareOKHeader replica prepare)"
  shows "length flds = 128" "gslice 0 16 flds = gslice 0 16 (Fields prepare)" "gslice 16 32 flds = replicate 16 0"
    "gslice 32 48 flds = HeaderChecksum prepare" "gslice 48 64 flds = replicate 16 0"
    "gslice 64 80 flds = gslice 64 80 (Fields prepare)" "gslice 80 96 flds = gslice 80 96 (Fields prepare)"
    "gslice 96 104 flds = gslice 96 104 (Fields prepare)" "get64 (gslice 104 112 flds) = r_commitMin replica"
    "gslice 112 120 flds = gslice 112 120 (Fields prepare)" "gslice 120 124 flds = gslice 120 124 (Fields prepare)"
    "flds ! 124 = Fields prepare ! 124" "drop 125 flds = replicate 3 0"
proof -
  have len: "length (Fields prepare) = 128" "length (HeaderChecksum prepare) = 16"
    using assms(1) by (simp_all add: header_wf_def)
  show "length flds = 128" by (simp add: flds_def prepareOKHeader_def zeroHeader_def)
  show "gslice 0 16 flds = gslice 0 16 (Fields prepare)" "gslice 16 32 flds = replicate 16 0"
    "gslice 32 48 flds = HeaderChecksum prepare" "gslice 48 64 flds = replicate 16 0"
    "gslice 64 80 flds = gslice 64 80 (Fields prepare)" "gslice 80 96 flds = gslice 80 96 (Fields prepare)"
    "gslice 96 104 flds = gslice 96 104 (Fields prepare)" "get64 (gslice 104 112 flds) = r_commitMin replica"
    "gslice 112 120 flds = gslice 112 120 (Fields prepare)" "gslice 120 124 flds = gslice 120 124 (Fields prepare)"
    using len
    by (simp_all add: flds_def prepareOKHeader_def zeroHeader_def slice_simps codec_simps
        slice_copy_at_within slice_slice del: slice_full)
  show "flds ! 124 = Fields prepare ! 124"
    using len by (simp add: flds_def prepareOKHeader_def zeroHeader_def nth_copy_at nth_slice)
  have "gslice 125 128 flds = replicate 3 0"
    by (simp add: flds_def prepareOKHeader_def zeroHeader_def slice_simps)
  then show "drop 125 flds = replicate 3 0" using \<open>length flds = 128\<close> by (simp add: gslice_def)
qed

lemma prepareOK_matches:
  assumes wf: "header_wf prepare"
  shows "prepareOKMatches (prepareOKHeader replica prepare) prepare"
proof -
  have "length (Fields prepare) = 128" "length (HeaderChecksum prepare) = 16"
    using wf by (simp_all add: header_wf_def)
  then show ?thesis
    using prepareOK_fields [OF wf refl, of replica]
    by (simp add: prepareOKMatches_def prepareOp_def prepareTimestamp_def prepareRequest_def
        prepareOperation_def equal16_conv)
qed

lemma prepareOK_valid:
  assumes wf: "header_wf prepare" and "r_commitMin replica < prepareOp prepare"
    and "prepareTimestamp prepare \<noteq> 0" "OperationRoot < prepareOperation prepare"
  shows "validatePrepareOK (prepareOKHeader replica prepare) [] = RejectNone"
proof -
  have "prepareOp prepare \<noteq> 0" using assms(2) by auto
  then show ?thesis
    using prepareOK_fields [OF wf refl, of replica] assms(2-)
    by (simp add: validatePrepareOK_def Let_def allZero_iff prepareOp_def prepareTimestamp_def
        prepareOperation_def not_le)
qed

section \<open>Counting acknowledgements\<close>

definition entry_acks_ok :: "u8 \<Rightarrow> Quorums \<Rightarrow> pipelineEntry \<Rightarrow> bool" where
  "entry_acks_ok active quorums pe \<longleftrightarrow> voters (e_acks pe) \<subseteq> {..<unat active}
     \<and> (e_quorum pe \<longrightarrow> unat (Replication quorums) \<le> card (voters (e_acks pe)))"

definition acks_ok :: "Replica \<Rightarrow> bool" where
  "acks_ok replica \<longleftrightarrow> (\<forall>pe\<in>set (r_pipeline replica).
     entry_acks_ok (mem_ActiveCount (r_membership replica)) (r_quorums replica) pe)"

lemma countPrepareAck_acks:
  assumes "author < 16"
  shows "voters (e_acks (countPrepareAck quorums pe author)) = insert (unat author) (voters (e_acks pe))"
proof -
  have "unat author < 16" using assms by (simp add: word_less_nat_alt)
  then show ?thesis
    using voters_test [of "unat author" "e_acks pe"] voters_set [of "unat author" "e_acks pe"]
    by (auto simp: countPrepareAck_def Let_def)
qed

lemma countPrepareAck_quorum:
  "e_quorum (countPrepareAck quorums pe author) \<Longrightarrow> e_quorum pe
     \<or> unat (Replication quorums) \<le> card (voters (e_acks (countPrepareAck quorums pe author)))"
  by (auto simp: countPrepareAck_def Let_def word_le_nat_alt countAckBits_voters split: if_splits)

lemma finite_voters [simp]: "finite (voters w)"
  by (rule finite_subset [of _ "{..<16}"]) (auto simp: voters_def)

lemma countPrepareAck_ok:
  assumes "entry_acks_ok active quorums pe" "author < active" "active \<le> 16"
  shows "entry_acks_ok active quorums (countPrepareAck quorums pe author)"
proof -
  have "author < 16" using assms(2,3) by simp
  note acks = countPrepareAck_acks [OF this, of quorums pe]
  have "card (voters (e_acks pe)) \<le> card (insert (unat author) (voters (e_acks pe)))"
    by (intro card_mono) auto
  then show ?thesis
    using assms countPrepareAck_quorum [of quorums pe author]
    by (auto simp: entry_acks_ok_def acks word_less_nat_alt)
qed

lemma updateEntry_ok:
  assumes "acks_ok replica"
    and "entry_acks_ok (mem_ActiveCount (r_membership replica)) (r_quorums replica) (f (pipelineAt replica offset))"
  shows "acks_ok (updateEntry replica offset f)"
  using assms by (auto simp: acks_ok_def updateEntry_def dest!: set_update_subset_insert [THEN subsetD])

lemma ring_index_less:
  assumes "pipeline_ok replica"
  shows "pipelineIndex replica offset < length (r_pipeline replica)"
proof -
  have "0 < length (r_pipeline replica)" "length (r_pipeline replica) < 2 ^ 31"
    using assms by (auto simp: pipeline_ok_def ring_ok_def)
  then show ?thesis
    by (simp add: pipelineIndex_def ring_index_def unat_mod unsigned_of_nat take_bit_nat_eq_self)
qed

lemma pipelineAt_ok:
  "pipeline_ok replica \<Longrightarrow> acks_ok replica
     \<Longrightarrow> entry_acks_ok (mem_ActiveCount (r_membership replica)) (r_quorums replica) (pipelineAt replica offset)"
  using ring_index_less by (auto simp: acks_ok_def pipelineAt_def)

lemma handlePrepareOK_from_ok:
  assumes "pipeline_ok replica" "acks_ok replica" "Author ack < mem_ActiveCount (r_membership replica)"
    and "mem_ActiveCount (r_membership replica) \<le> 16"
  shows "acks_ok (handlePrepareOK_from replica ack op offsets)"
  using assms
  by (induction replica ack op offsets rule: handlePrepareOK_from.induct)
    (auto simp: Let_def intro: updateEntry_ok countPrepareAck_ok pipelineAt_ok)

lemma handlePrepareOK_ok:
  assumes "pipeline_ok replica" "acks_ok replica" "mem_ActiveCount (r_membership replica) \<le> 16"
  shows "acks_ok (handlePrepareOK replica ack)"
  using handlePrepareOK_from_ok [OF assms(1,2) _ assms(3)] assms(2) by (auto simp: handlePrepareOK_def not_le)

lemma zeroEntry_acks_ok [simp]:
  "entry_acks_ok active quorums (zeroEntry gen)"
  "entry_acks_ok active quorums ((zeroEntry gen)\<lparr>e_prepare := frame, e_header := header\<rparr>)"
  by (simp_all add: entry_acks_ok_def zeroEntry_def)

lemma pushPipeline_acks: "acks_ok replica \<Longrightarrow> pushPipeline replica frame header = Some replica' \<Longrightarrow> acks_ok replica'"
  by (auto simp: acks_ok_def pushPipeline_def Let_def split: if_splits dest!: set_update_subset_insert [THEN subsetD])

lemma popPipeline_acks: "acks_ok replica \<Longrightarrow> acks_ok (popPipeline replica)"
  by (auto simp: acks_ok_def popPipeline_def Let_def dest!: set_update_subset_insert [THEN subsetD])

section \<open>A primary at work\<close>

text \<open>
  The steps by which a primary changes its pipeline: a prepare enters, its write completes, an
  acknowledgement arrives, the primary counts itself, the first entry leaves.
\<close>

inductive primary_step :: "Replica \<Rightarrow> Replica \<Rightarrow> bool" where
  push: "pushPipeline replica frame header = Some replica' \<Longrightarrow> primary_step replica replica'"
| durable: "primary_step replica (updateEntry replica offset (\<lambda>pe. pe\<lparr>e_durable := True\<rparr>))"
| ack: "primary_step replica (handlePrepareOK replica header)"
| own: "isPrimary replica \<Longrightarrow> canAcknowledge replica (pipelineAt replica offset) \<Longrightarrow>
    primary_step replica (updateEntry replica offset (\<lambda>pe. countPrepareAck (r_quorums replica) pe (r_local replica)))"
| pop: "r_pipelineLen replica \<noteq> 0 \<Longrightarrow> primary_step replica (popPipeline replica)"

lemma updateEntry_fields [simp]:
  "r_quorums (updateEntry replica offset f) = r_quorums replica"
  "r_membership (updateEntry replica offset f) = r_membership replica"
  "pipeline_ok (updateEntry replica offset f) = pipeline_ok replica"
  by (simp_all add: updateEntry_def pipeline_ok_def ring_ok_def)

lemma handlePrepareOK_from_fields [simp]:
  "r_quorums (handlePrepareOK_from replica ack op offsets) = r_quorums replica"
  "r_membership (handlePrepareOK_from replica ack op offsets) = r_membership replica"
  "pipeline_ok (handlePrepareOK_from replica ack op offsets) = pipeline_ok replica"
  by (induction replica ack op offsets rule: handlePrepareOK_from.induct) (simp_all add: Let_def)

definition primary_inv :: "u8 \<Rightarrow> Quorums \<Rightarrow> Replica \<Rightarrow> bool" where
  "primary_inv active quorums replica \<longleftrightarrow> pipeline_ok replica \<and> acks_ok replica
     \<and> mem_ActiveCount (r_membership replica) = active \<and> r_quorums replica = quorums"

lemma primary_step_inv:
  assumes "primary_step replica replica'" "primary_inv active quorums replica" "active \<le> 16"
  shows "primary_inv active quorums replica'"
  using assms
proof (induction rule: primary_step.induct)
  case (push replica frame header replica')
  then show ?case
    using pushPipeline_entries [of replica frame header replica'] pushPipeline_acks [of replica frame header replica']
    by (auto simp: primary_inv_def pushPipeline_def Let_def split: if_splits)
next
  case (durable replica offset)
  then have "entry_acks_ok active quorums (pipelineAt replica offset)"
    using pipelineAt_ok by (auto simp: primary_inv_def)
  then have "entry_acks_ok active quorums ((pipelineAt replica offset)\<lparr>e_durable := True\<rparr>)"
    by (simp add: entry_acks_ok_def)
  with durable show ?case by (auto simp: primary_inv_def intro: updateEntry_ok)
next
  case (ack replica header)
  then show ?case using handlePrepareOK_ok [of replica header] by (auto simp: primary_inv_def handlePrepareOK_def)
next
  case (own replica offset)
  then have "r_local replica < active" by (auto simp: canAcknowledge_def primary_inv_def Let_def not_le split: if_splits)
  with own show ?case
    by (auto simp: primary_inv_def intro!: updateEntry_ok countPrepareAck_ok pipelineAt_ok)
next
  case (pop replica)
  then have "pipeline_items replica \<noteq> []"
    by (auto simp: pipeline_items_def pipeline_entries_def ring_contents_def word_unat_eq_iff)
  with pop pipeline_queue.pop_first [of replica] popPipeline_acks [of replica] show ?case
    by (auto simp: primary_inv_def popPipeline_def Let_def)
qed

lemma primary_steps_inv:
  "primary_step\<^sup>*\<^sup>* replica replica' \<Longrightarrow> primary_inv active quorums replica \<Longrightarrow> active \<le> 16
     \<Longrightarrow> primary_inv active quorums replica'"
  by (induction rule: rtranclp_induct) (simp_all add: primary_step_inv)

lemma QuorumsFor_active: "QuorumsFor active m = Some q \<Longrightarrow> active \<le> 6"
  by (simp add: QuorumsFor_def not_less split: if_splits)

lemma handlePrepareOK_first:
  assumes "\<forall>offset\<in>set before. prepareOp (e_header (pipelineAt replica offset)) \<noteq> op"
    and "prepareOp (e_header (pipelineAt replica offset)) = op"
    and "prepareOKMatches ack (e_header (pipelineAt replica offset))"
  shows "handlePrepareOK_from replica ack op (before @ offset # after)
    = updateEntry replica offset (\<lambda>pe. countPrepareAck (r_quorums replica) pe (Author ack))"
  using assms by (induction before) (simp_all add: Let_def)

lemma pipelineOffsets_split:
  assumes "i < unat (r_pipelineLen replica)"
  shows "pipelineOffsets replica = map of_nat [0..<i] @ of_nat i # map of_nat [Suc i..<unat (r_pipelineLen replica)]"
proof -
  have "[0..<unat (r_pipelineLen replica)] = [0..<i] @ i # [Suc i..<unat (r_pipelineLen replica)]"
    using assms upt_add_eq_append [of 0 i "unat (r_pipelineLen replica) - i"] by (simp add: upt_conv_Cons)
  then show ?thesis by (simp add: pipelineOffsets_def)
qed

lemma handlePrepareOK_counts:
  assumes "header_wf prepare" "r_view backup = r_view primary"
    and "r_local backup < mem_ActiveCount (r_membership primary)"
    and "r_status primary = StatusNormal" "r_durableView primary = r_view primary" "isPrimary primary"
    and "pipeline_ok primary" "i < unat (r_pipelineLen primary)"
    and "e_header (pipelineAt primary (of_nat i)) = prepare"
    and "\<forall>j<i. prepareOp (e_header (pipelineAt primary (of_nat j))) \<noteq> prepareOp prepare"
  shows "pipelineAt (handlePrepareOK primary (prepareOKHeader backup prepare)) (of_nat i)
    = countPrepareAck (r_quorums primary) (pipelineAt primary (of_nat i)) (r_local backup)"
proof -
  let ?ack = "prepareOKHeader backup prepare"
  have matches: "prepareOKMatches ?ack prepare" by (rule prepareOK_matches [OF assms(1)])
  have fields: "View ?ack = r_view primary" "Author ?ack = r_local backup"
    "get64 (gslice 96 104 (Fields ?ack)) = prepareOp prepare"
    using prepareOK_fields(8) [OF assms(1) refl, of backup] assms(2)
    by (simp_all add: prepareOKHeader_def prepareOp_def)
  have "\<not> mem_ActiveCount (r_membership primary) \<le> r_local backup" using assms(3) by simp
  moreover have "handlePrepareOK_from primary ?ack (prepareOp prepare) (pipelineOffsets primary)
      = updateEntry primary (of_nat i) (\<lambda>pe. countPrepareAck (r_quorums primary) pe (Author ?ack))"
    unfolding pipelineOffsets_split [OF assms(8)]
    by (rule handlePrepareOK_first) (use assms(9,10) matches in auto)
  ultimately have "handlePrepareOK primary ?ack
      = updateEntry primary (of_nat i) (\<lambda>pe. countPrepareAck (r_quorums primary) pe (r_local backup))"
    using assms(4-6) fields by (simp add: handlePrepareOK_def)
  then show ?thesis
    using ring_index_less [OF assms(7), of "of_nat i"]
    by (simp add: pipelineAt_def pipelineIndex_def updateEntry_def)
qed

section \<open>An example\<close>

definition example_entry :: pipelineEntry where
  "example_entry = (zeroEntry 1)\<lparr>e_prepare := Some [], e_header := zeroHeader\<lparr>Command := CommandPrepare\<rparr>\<rparr>"

definition example_replica :: "u8 \<Rightarrow> ReplicaIndex \<Rightarrow> Replica" where
  "example_replica active here = \<lparr>r_config = \<lparr>cfg_Group = zeroID,
       cfg_Membership = \<lparr>Members = [], mem_ActiveCount = active, StandbyCount = 0, LocalMember = zeroID\<rparr>,
       Cluster = DefaultClusterConfig, Process = DefaultProcessConfig, cfg_CurrentRelease = 1,
       cfg_ClientReleaseMin = 1\<rparr>,
     r_membership = \<lparr>Members = [], mem_ActiveCount = active, StandbyCount = 0, LocalMember = zeroID\<rparr>, r_local = here,
     r_quorums = the (QuorumsFor active 3),
     r_status = StatusNormal, r_view = 0, r_durableView = 0, r_logView = 0, r_headOp = 0, r_commitMin = 0,
     r_commitMax = 0, r_checkpoint = zero_checkpoint, r_headChecksum = zeroID,
     r_wal = \<lparr>wal_storage = \<lparr>fs_file = None, fs_direct = False, fs_closeErr = None\<rparr>,
       wal_config = DefaultClusterConfig, wal_group = zeroID, wal_memberCount = 3,
       wal_layout = \<lparr>HeaderBase = 0, HeaderSize = 0, PrepareBase = 0, PrepareStride = 0, PrepareSize = 0,
         ReplyBase = 0, ReplyStride = 0, ReplySize = 0, layout_BlockBase = 0\<rparr>, slots = [], headerRing = [], prepareBuffer = [], wal_ioActive = False\<rparr>,
     r_SyncMin = None, r_syncRangeRepaired = False, r_pipeline = [example_entry, example_entry],
     r_pipelineHead = 0, r_pipelineLen = 1, r_requestQueue = [], r_requestHead = 0, r_requestLen = 0,
     r_joins = [], r_joinHeaders = [], r_canonicalHeaders = [], r_joinViewBits = 0, r_viewIO = zeroHandle,
     r_repairWriteBusy = False, r_repairBudget = example_budget, r_repairHeader = zeroHeader,
     r_repairHeaderValid = False, r_repairViewWindow = False, r_repairViewValid = False, r_repairView = 0,
     r_repairViewAncestor = 0, r_repairViewCommit = 0, r_repairViewHead = 0, r_repairViewRebuilt = False,
     r_repairViewCount = 0, r_repairFrames = [], r_peerCheckpointOps = [], r_fatalErr = None\<rparr>"

lemma example_header_wf: "header_wf (zeroHeader\<lparr>Command := CommandPrepare\<rparr>)"
  by (simp add: header_wf_def zeroHeader_def)

lemma example_pipeline_ok: "pipeline_ok (example_replica active here)"
  by (simp add: pipeline_ok_def ring_ok_def example_replica_def)

lemma example_pipelineAt: "pipelineAt (example_replica active here) (of_nat 0) = example_entry"
  by (simp add: pipelineAt_def pipelineIndex_def ring_index_def example_replica_def)

section \<open>Properties\<close>



text \<open>
  C12: The acknowledgement a backup builds for a prepare passes the checks on acknowledgements,
  matches that prepare, and is counted: a normal primary of the same view sets the bit of the
  backup in the entry that holds the prepare.
\<close>

theorem acknowledgement_counted:
  assumes "header_wf prepare" "r_view backup = r_view primary"
    and "r_local backup < mem_ActiveCount (r_membership primary)" "mem_ActiveCount (r_membership primary) \<le> 6"
    and "r_status primary = StatusNormal" "r_durableView primary = r_view primary" "isPrimary primary"
    and "pipeline_ok primary" "i < unat (r_pipelineLen primary)"
    and "e_header (pipelineAt primary (of_nat i)) = prepare"
    and "\<forall>j<i. prepareOp (e_header (pipelineAt primary (of_nat j))) \<noteq> prepareOp prepare"
  shows "prepareOKMatches (prepareOKHeader backup prepare) prepare
    \<and> (r_commitMin backup < prepareOp prepare \<and> prepareTimestamp prepare \<noteq> 0
         \<and> OperationRoot < prepareOperation prepare
       \<longrightarrow> validatePrepareOK (prepareOKHeader backup prepare) [] = RejectNone)
    \<and> unat (r_local backup) \<in> voters (e_acks (pipelineAt
         (handlePrepareOK primary (prepareOKHeader backup prepare)) (of_nat i)))"
proof -
  have "r_local backup < 16" using assms(3,4) by (simp add: word_less_nat_alt word_le_nat_alt)
  then show ?thesis
    using handlePrepareOK_counts [OF assms(1-3,5-)] prepareOK_matches [OF assms(1), of backup]
      prepareOK_valid [OF assms(1), of backup]
    by (simp add: countPrepareAck_acks)
qed

theorem acknowledgement_counted_witness:
  "1 \<in> voters (e_acks (pipelineAt (handlePrepareOK (example_replica 3 0)
     (prepareOKHeader (example_replica 3 1) (zeroHeader\<lparr>Command := CommandPrepare\<rparr>))) 0))"
  using acknowledgement_counted [OF example_header_wf, of "example_replica 3 1" "example_replica 3 0" 0]
    example_pipeline_ok example_pipelineAt [of 3 0]
  by (simp add: isPrimary_def Primary_def) (simp add: example_replica_def example_entry_def Primary_def)

end
