(* ===== verification/View_Change.thy ===== *)
theory View_Change
  imports Acknowledgement
begin

text \<open>
  The choice of the log of a new view (\<^verbatim>\<open>replication/view_change.go\<close>): recording the joins of
  the active replicas, selecting from them the suffix of the log that the new view continues, and
  the checks on such a suffix before it is installed. \<open>None\<close> is a panic: an index out of range,
  or a failed assertion of the repair budget.
\<close>

definition zeroJoin :: joinRecord where
  "zeroJoin = \<lparr>j_valid = False, j_present = 0, j_nack = 0, j_head = 0, j_commit = 0, j_checkpoint = 0,
     j_logView = 0, j_count = 0\<rparr>"

definition joinStride :: "Replica \<Rightarrow> nat" where
  "joinStride replica = unat (cfg_PipelineMax (Cluster (r_config replica)) + 1)"

section \<open>Evidence of the joins\<close>

definition joinHeaderAt :: "Replica \<Rightarrow> nat \<Rightarrow> Op \<Rightarrow> Header \<times> bool" where
  "joinHeaderAt replica sender op =
     (let record = r_joins replica ! sender
      in if \<not> j_valid record \<or> j_head record < op then (zeroHeader, False)
      else let index = j_head record - op
      in if index \<ge> ucast (j_count record) then (zeroHeader, False)
      else let header = r_joinHeaders replica ! (sender * joinStride replica + unat index)
      in (header, Command header \<noteq> 0))"

definition joinCommittedBound :: "Replica \<Rightarrow> nat \<Rightarrow> Op" where
  "joinCommittedBound replica sender =
     (let record = r_joins replica ! sender;
          pipelineMax = cfg_PipelineMax (Cluster (r_config replica));
          bound = max (max (j_commit record) (j_checkpoint record)) (j_head record - ucast (j_count record - 1));
          bound = (if j_head record > pipelineMax then max bound (j_head record - pipelineMax) else bound);
          (header, found) = joinHeaderAt replica sender (j_head record)
      in if found then max bound (prepareCommit header) else bound)"

definition joinSenders :: "Replica \<Rightarrow> nat list" where
  "joinSenders replica = [0..<length (r_joins replica)]"

definition canonicalLogView :: "Replica \<Rightarrow> View" where
  "canonicalLogView replica =
     fold (\<lambda>record latest. if j_valid record then max latest (j_logView record) else latest) (r_joins replica) 0"

definition localBound :: "Replica \<Rightarrow> Op" where
  "localBound replica = max (max (r_commitMin replica) (r_commitMax replica)) (PrepareOp (r_checkpoint replica))"

definition committedBound :: "Replica \<Rightarrow> Op" where
  "committedBound replica =
     fold (\<lambda>sender bound. if j_valid (r_joins replica ! sender) then max bound (joinCommittedBound replica sender) else bound)
       (joinSenders replica) (localBound replica)"

text \<open>A conflict between a header and that of an earlier sender of the latest log view.\<close>

definition priorConflict :: "Replica \<Rightarrow> Op \<Rightarrow> View \<Rightarrow> nat \<Rightarrow> Header \<Rightarrow> bool" where
  "priorConflict replica op latest sender header \<longleftrightarrow>
     (\<exists>other\<in>set [0..<sender]. let (prior, exists) = joinHeaderAt replica other op
        in exists \<and> j_logView (r_joins replica ! other) = latest \<and> View prior = View header
           \<and> HeaderChecksum prior \<noteq> HeaderChecksum header)"

text \<open>The loop over the senders, with the header selected so far, its log view and whether one was found.\<close>

fun candidate_loop :: "Replica \<Rightarrow> Op \<Rightarrow> View \<Rightarrow> Op \<Rightarrow> nat list \<Rightarrow> Header \<times> View \<times> bool \<Rightarrow> Header \<times> bool \<times> bool" where
  "candidate_loop replica op latest bound [] (selected, selectedLog, found) = (selected, found, False)"
| "candidate_loop replica op latest bound (sender # senders) (selected, selectedLog, found) =
     (let record = r_joins replica ! sender; (header, present) = joinHeaderAt replica sender op
      in if \<not> present \<or> (j_logView record \<noteq> latest \<and> op > bound)
         then candidate_loop replica op latest bound senders (selected, selectedLog, found)
      else if j_logView record = latest \<and> priorConflict replica op latest sender header
         then (zeroHeader, False, True)
      else let newerHeader = (j_logView record = selectedLog \<and> View header > View selected)
      in if \<not> found \<or> j_logView record > selectedLog \<or> newerHeader
         then candidate_loop replica op latest bound senders (header, j_logView record, True)
      else if j_logView record = selectedLog \<and> View header = View selected
              \<and> HeaderChecksum header \<noteq> HeaderChecksum selected
         then (zeroHeader, False, True)
      else candidate_loop replica op latest bound senders (selected, selectedLog, found))"

definition canonicalCandidate :: "Replica \<Rightarrow> Op \<Rightarrow> Header \<times> bool \<times> bool" where
  "canonicalCandidate replica op =
     candidate_loop replica op (canonicalLogView replica) (committedBound replica) (joinSenders replica) (zeroHeader, 0, False)"

text \<open>Whether a join counts against an operation, and whether it holds a copy of the candidate.\<close>

definition joinNegative :: "Replica \<Rightarrow> View \<Rightarrow> Op \<Rightarrow> Header \<Rightarrow> bool \<Rightarrow> nat \<Rightarrow> bool" where
  "joinNegative replica latest op candidate candidateFound sender =
     (let record = r_joins replica ! sender
      in if \<not> j_valid record then False
      else if j_head record < op then True
      else let index = j_head record - op
      in if index \<ge> ucast (j_count record) then True
      else let (header, present) = joinHeaderAt replica sender op
      in if j_nack record AND push_bit (unat index) 1 \<noteq> 0 then True
      else if \<not> present \<or> j_logView record \<ge> latest then False
      else (candidateFound \<and> HeaderChecksum header \<noteq> HeaderChecksum candidate)
           \<or> (\<not> candidateFound \<and> View header < latest))"

definition joinCopy :: "Replica \<Rightarrow> Op \<Rightarrow> Header \<Rightarrow> bool \<Rightarrow> nat \<Rightarrow> bool" where
  "joinCopy replica op candidate candidateFound sender =
     (let record = r_joins replica ! sender; index = j_head record - op; (header, present) = joinHeaderAt replica sender op
      in present \<and> candidateFound \<and> HeaderChecksum header = HeaderChecksum candidate
         \<and> j_present record AND push_bit (unat index) 1 \<noteq> 0)"

definition canonicalEvidence :: "Replica \<Rightarrow> Op \<Rightarrow> Header \<Rightarrow> bool \<Rightarrow> u8 \<times> u8" where
  "canonicalEvidence replica op candidate candidateFound =
     fold (\<lambda>sender (negatives, copies).
         (if joinNegative replica (canonicalLogView replica) op candidate candidateFound sender then negatives + 1 else negatives,
          if joinCopy replica op candidate candidateFound sender then copies + 1 else copies))
       (joinSenders replica) (0, 0)"

section \<open>Selecting the suffix\<close>

text \<open>The bounds of the suffix; \<open>None\<close> when a join does not even cover its own headers.\<close>

fun select_bounds :: "Replica \<Rightarrow> nat list \<Rightarrow> Op \<times> Op \<Rightarrow> (Op \<times> Op) option" where
  "select_bounds replica [] (maximumHead, committed) = Some (maximumHead, committed)"
| "select_bounds replica (sender # senders) (maximumHead, committed) =
     (let record = r_joins replica ! sender
      in if \<not> j_valid record then select_bounds replica senders (maximumHead, committed)
      else if j_count record = 0 \<or> ucast (j_count record - 1) > j_head record then None
      else select_bounds replica senders
             (max maximumHead (j_head record), max committed (joinCommittedBound replica sender)))"

function select_suffix :: "Replica \<Rightarrow> Op \<Rightarrow> Op \<Rightarrow> Op \<Rightarrow> nat \<Rightarrow> Header \<Rightarrow> (Replica \<times> (Op \<times> nat) option) option" where
  "select_suffix replica committed op maximumHead count previous =
     (if op > maximumHead then Some (replica, Some (maximumHead, count))
      else let (candidate, found, conflict) = canonicalCandidate replica op
      in if conflict then Some (replica_fail replica (ErrJoin ErrUnrecoverableConsensusState ErrReplicaInvariant), None)
      else let (negatives, copies) = canonicalEvidence replica op candidate found
      in if negatives \<ge> Negative (r_quorums replica) \<and> op > committed then Some (replica, Some (op - 1, count))
      else if \<not> found \<or> copies = 0 then Some (replica, None)
      else if count \<noteq> 0 \<and> prepareParent candidate \<noteq> HeaderChecksum previous then Some (replica, None)
      else if count \<ge> length (r_canonicalHeaders replica) then None
      else select_suffix (replica\<lparr>r_canonicalHeaders := (r_canonicalHeaders replica)[count := candidate]\<rparr>)
             committed (op + 1) maximumHead (count + 1) candidate)"
  by auto
termination
  by (relation "measure (\<lambda>(replica, _, _, _, count, _). length (r_canonicalHeaders replica) - count)") auto

function reverse_loop :: "Header list \<Rightarrow> nat \<Rightarrow> nat \<Rightarrow> Header list" where
  "reverse_loop headers left right =
     (if left < right then reverse_loop (headers[left := headers ! right, right := headers ! left]) (left + 1) (right - 1)
      else headers)"
  by auto
termination
  by (relation "measure (\<lambda>(headers, left, right). right - left)") auto

declare select_suffix.simps [simp del] reverse_loop.simps [simp del]

definition selectCanonicalSuffix :: "Replica \<Rightarrow> (Replica \<times> (Op \<times> Op \<times> nat) option) option" where
  "selectCanonicalSuffix replica =
     (case select_bounds replica (joinSenders replica) (PrepareOp (r_checkpoint replica), localBound replica) of
        None \<Rightarrow> Some (replica, None)
      | Some (maximumHead, committed) \<Rightarrow>
        if committed > maximumHead \<or> maximumHead - committed \<ge> of_nat (length (r_canonicalHeaders replica))
        then Some (replica, None)
        else case select_suffix replica committed committed maximumHead 0 zeroHeader of
          None \<Rightarrow> None
        | Some (replica, None) \<Rightarrow> Some (replica, None)
        | Some (replica, Some (maximumHead, count)) \<Rightarrow>
            Some (replica\<lparr>r_canonicalHeaders := reverse_loop (r_canonicalHeaders replica) 0 (count - 1)\<rparr>,
                  Some (committed, maximumHead, count)))"

section \<open>Checking a suffix\<close>

fun ancestor_loop :: "Replica \<Rightarrow> Header list \<Rightarrow> Op option option" where
  "ancestor_loop replica [] = None"
| "ancestor_loop replica (canonical # rest) =
     (let op = prepareOp canonical
      in if op > r_headOp replica then ancestor_loop replica rest
      else let (own, present, dirty, found) = localHeaderEvidence replica op
      in if found \<and> present \<and> \<not> dirty \<and> HeaderChecksum own = HeaderChecksum canonical then Some (Some op)
      else if op \<le> r_commitMin replica \<and> found \<and> present then Some None
      else ancestor_loop replica rest)"

definition recoveringCommonAncestor :: "Replica \<Rightarrow> nat \<Rightarrow> Op option" where
  "recoveringCommonAncestor replica count =
     (if count = 0 then None
      else case ancestor_loop replica (take count (r_canonicalHeaders replica)) of
        Some answer \<Rightarrow> answer
      | None \<Rightarrow>
        let oldest = r_canonicalHeaders replica ! (count - 1); oldestOp = prepareOp oldest
        in if oldestOp > 0 \<and> oldestOp - 1 \<le> r_headOp replica
        then (let (parent, present, dirty, found) = localHeaderEvidence replica (oldestOp - 1)
              in if found \<and> present \<and> \<not> dirty \<and> prepareParent oldest = HeaderChecksum parent
                 then Some (oldestOp - 1) else None)
        else None)"

definition proofCount :: "Replica \<Rightarrow> nat \<Rightarrow> nat" where
  "proofCount replica count =
     (if count > 1 \<and> prepareOp (r_canonicalHeaders replica ! (count - 1)) = PrepareOp (r_checkpoint replica)
      then count - 1 else count)"

definition recoveringChain :: "Replica \<Rightarrow> View \<Rightarrow> Op \<Rightarrow> nat \<Rightarrow> bool" where
  "recoveringChain replica view head count \<longleftrightarrow>
     (\<forall>index\<in>set [0..<count]. let header = r_canonicalHeaders replica ! index
        in prepareOp header = head - of_nat index \<and> View header \<le> view
           \<and> (index > 0 \<longrightarrow> prepareParent (r_canonicalHeaders replica ! (index - 1)) = HeaderChecksum header))"

definition validRecoveringView :: "Replica \<Rightarrow> View \<Rightarrow> Op \<Rightarrow> Op \<Rightarrow> nat \<Rightarrow> bool" where
  "validRecoveringView replica view commit head count \<longleftrightarrow>
     (if commitInFlight replica \<or> count = 0 \<or> head < r_commitMin replica then False
      else if r_repairWriteBusy replica \<or> r_viewIO replica \<noteq> zeroHandle then False
      else if view < r_view replica \<or> commit < r_commitMax replica \<or> head < commit then False
      else if head - r_commitMin replica > of_nat (length (r_pipeline replica)) then False
      else if \<not> recoveringChain replica view head (proofCount replica count) then False
      else case recoveringCommonAncestor replica (proofCount replica count) of
        None \<Rightarrow> False
      | Some ancestor \<Rightarrow> ancestor \<ge> r_commitMin replica
          \<and> prepareOp (r_canonicalHeaders replica ! (proofCount replica count - 1)) \<le> ancestor + 1)"

definition recordRecoveringView :: "Replica \<Rightarrow> View \<Rightarrow> Op \<Rightarrow> Op \<Rightarrow> nat \<Rightarrow> Replica option" where
  "recordRecoveringView replica view commit head count =
     (case budget_Reset (r_repairBudget replica) of
        Returns budget \<Rightarrow>
          Some (replica\<lparr>r_repairFrames := map (\<lambda>_. None) (r_repairFrames replica), r_repairBudget := budget,
            r_repairHeader := zeroHeader, r_repairHeaderValid := False, r_repairViewWindow := False,
            r_repairViewValid := True, r_repairView := view,
            r_repairViewAncestor :=
              (case recoveringCommonAncestor replica (proofCount replica count) of None \<Rightarrow> 0 | Some a \<Rightarrow> a),
            r_repairViewCommit := commit, r_repairViewHead := head, r_repairViewRebuilt := False,
            r_repairViewCount := count, r_commitMax := max (r_commitMax replica) commit\<rparr>)
      | Panics \<Rightarrow> None | Diverges \<Rightarrow> None)"

definition tryInstallCanonicalView :: "Replica \<Rightarrow> Replica option" where
  "tryInstallCanonicalView replica =
     (case selectCanonicalSuffix replica of None \<Rightarrow> None
      | Some (replica, resolved) \<Rightarrow>
        let unresolved = (if countAckBits (r_joinViewBits replica) = mem_ActiveCount (r_membership replica)
                          then Some (replica_fail replica ErrUnrecoverableConsensusState) else Some replica)
        in case resolved of None \<Rightarrow> unresolved
        | Some (commit, head, count) \<Rightarrow>
          if commit < r_commitMin replica then unresolved
          else if r_viewIO replica \<noteq> zeroHandle then Some replica
          else if \<not> validRecoveringView replica (r_view replica) commit head count then Some replica
          else recordRecoveringView (replica\<lparr>r_status := StatusRecoveringHead\<rparr>) (r_view replica) commit head count)"

section \<open>Recording a join\<close>

definition joinRecordOf :: "Header \<Rightarrow> nat \<Rightarrow> joinRecord" where
  "joinRecordOf header count = \<lparr>j_valid = True,
     j_present = get16 (gslice 0 2 (Fields header)), j_nack = get16 (gslice 16 18 (Fields header)),
     j_head = get64 (gslice 32 40 (Fields header)), j_commit = get64 (gslice 40 48 (Fields header)),
     j_checkpoint = get64 (gslice 48 56 (Fields header)), j_logView = get32 (gslice 56 60 (Fields header)),
     j_count = of_nat count\<rparr>"

text \<open>The headers of a join, decoded one by one; \<open>Inl\<close> when one is refused.\<close>

fun join_headers :: "Replica \<Rightarrow> bytes \<Rightarrow> Op \<Rightarrow> nat list \<Rightarrow> Header list \<Rightarrow> Header list + Header list" where
  "join_headers replica body head [] headers = Inr headers"
| "join_headers replica body head (index # rest) headers =
     (let encoded = gslice (index * 256) ((index + 1) * 256) body
      in if allZero encoded then join_headers replica body head rest headers
      else let (candidate, reason) = replica_DecodeHeader replica encoded
      in if reason \<noteq> RejectNone \<or> prepareOp candidate \<noteq> head - of_nat index then Inl headers
      else join_headers replica body head rest (headers[index := candidate]))"

definition joinHeaderSlice :: "Replica \<Rightarrow> nat \<Rightarrow> Header list" where
  "joinHeaderSlice replica sender =
     gslice (sender * joinStride replica) (sender * joinStride replica + joinStride replica) (r_joinHeaders replica)"

definition putHeaderSlice :: "Replica \<Rightarrow> nat \<Rightarrow> Header list \<Rightarrow> Replica" where
  "putHeaderSlice replica sender headers =
     replica\<lparr>r_joinHeaders := copy_at (sender * joinStride replica) (sender * joinStride replica + joinStride replica)
               headers (r_joinHeaders replica)\<rparr>"

definition putJoin :: "Replica \<Rightarrow> nat \<Rightarrow> joinRecord \<Rightarrow> Replica" where
  "putJoin replica sender record = replica\<lparr>r_joins := (r_joins replica)[sender := record]\<rparr>"

text \<open>An author that is no active replica indexes the joins out of range.\<close>

definition recordJoinView :: "Replica \<Rightarrow> Header \<Rightarrow> bytes \<Rightarrow> Replica option" where
  "recordJoinView replica header body =
     (let sender = unat (Author header); b = push_bit sender 1
      in if r_joinViewBits replica AND b \<noteq> 0 then Some replica
      else let count = length body div 256
      in if count = 0 \<or> count > joinStride replica then Some replica
      else if sender \<ge> length (r_joins replica) then None
      else let record = joinRecordOf header count
      in if of_nat (count - 1) > j_head record \<or> j_logView record > View header \<or> j_commit record > j_head record
            \<or> j_checkpoint record > j_commit record
      then Some (putJoin replica sender zeroJoin)
      else let replica = observePeerCheckpoint (putJoin replica sender record) (Author header) (j_checkpoint record)
      in case join_headers replica body (j_head record) [0..<count] (replicate (joinStride replica) zeroHeader) of
        Inl headers \<Rightarrow> Some (putJoin (putHeaderSlice replica sender headers) sender zeroJoin)
      | Inr headers \<Rightarrow>
        let replica = (putHeaderSlice replica sender headers)\<lparr>r_joinViewBits := r_joinViewBits replica OR b\<rparr>
        in if countAckBits (r_joinViewBits replica) \<ge> ViewChange (r_quorums replica)
           then tryInstallCanonicalView replica else Some replica)"

section \<open>Checking the proof of a view\<close>

fun viewProof_loop :: "Replica \<Rightarrow> Op \<Rightarrow> Header \<Rightarrow> Op \<Rightarrow> nat \<Rightarrow> nat list \<Rightarrow> bool" where
  "viewProof_loop replica checkpointOp checkpointHeader head count [] = False"
| "viewProof_loop replica checkpointOp checkpointHeader head count (index # rest) =
     (let candidate = r_canonicalHeaders replica ! index
      in if HeaderChecksum candidate = HeaderChecksum checkpointHeader \<and> prepareOp candidate = checkpointOp
         then index = count - 1
      else if prepareOp candidate \<noteq> head - of_nat index then False
      else if index + 1 < count
      then (let following = r_canonicalHeaders replica ! (index + 1)
            in if prepareOp following = checkpointOp \<and> HeaderChecksum following = HeaderChecksum checkpointHeader
                  \<and> prepareOp candidate > checkpointOp + 1
               then viewProof_loop replica checkpointOp checkpointHeader head count rest
            else if prepareParent candidate \<noteq> HeaderChecksum following then False
            else viewProof_loop replica checkpointOp checkpointHeader head count rest)
      else viewProof_loop replica checkpointOp checkpointHeader head count rest)"

definition validViewProof :: "Replica \<Rightarrow> CheckpointState \<Rightarrow> Op \<Rightarrow> nat \<Rightarrow> bool" where
  "validViewProof replica checkpoint head count =
     (if count = 0 \<or> of_nat (count - 1) > head \<or> prepareOp (r_canonicalHeaders replica ! 0) \<noteq> head then False
      else let (checkpointHeader, reason) = replica_DecodeHeader replica (cs_Header checkpoint)
      in if reason \<noteq> RejectNone then False
      else viewProof_loop replica (PrepareOp checkpoint) checkpointHeader head count [0..<count])"

definition validStateSyncView :: "Replica \<Rightarrow> CheckpointState \<Rightarrow> Op \<Rightarrow> Op \<Rightarrow> nat \<Rightarrow> bool" where
  "validStateSyncView replica checkpoint head commit count \<longleftrightarrow>
     commit \<ge> PrepareOp checkpoint \<and> head \<ge> commit \<and> validViewProof replica checkpoint head count"

section \<open>The swap loop reverses\<close>

lemma reverse_loop_length [simp]: "length (reverse_loop headers left right) = length headers"
  by (induction headers left right rule: reverse_loop.induct) (simp add: reverse_loop.simps)

lemma reverse_loop_nth:
  "right < length headers \<Longrightarrow> i < length headers \<Longrightarrow>
     reverse_loop headers left right ! i = headers ! (if left \<le> i \<and> i \<le> right then left + right - i else i)"
proof (induction headers left right rule: reverse_loop.induct)
  case (1 headers left right)
  show ?case
  proof (cases "left < right")
    case True
    have "(left + 1) + (right - 1) = left + right" using True by simp
    then show ?thesis
      using 1 True by (subst reverse_loop.simps) (auto simp: nth_list_update)
  next
    case False
    then have "left \<le> i \<and> i \<le> right \<Longrightarrow> left + right - i = i" by auto
    with False show ?thesis by (subst reverse_loop.simps) auto
  qed
qed

section \<open>What the selection returns\<close>

text \<open>The evidence of the joins does not depend on the headers selected so far.\<close>

lemma joinHeaderAt_headers [simp]: "joinHeaderAt (r\<lparr>r_canonicalHeaders := hs\<rparr>) sender op = joinHeaderAt r sender op"
  by (simp add: joinHeaderAt_def joinStride_def Let_def)

lemma joinBound_headers [simp]:
  "joinCommittedBound (r\<lparr>r_canonicalHeaders := hs\<rparr>) sender = joinCommittedBound r sender"
  by (simp add: joinCommittedBound_def Let_def)

lemma evidence_headers [simp]:
  "canonicalLogView (r\<lparr>r_canonicalHeaders := hs\<rparr>) = canonicalLogView r"
  "joinSenders (r\<lparr>r_canonicalHeaders := hs\<rparr>) = joinSenders r"
  "committedBound (r\<lparr>r_canonicalHeaders := hs\<rparr>) = committedBound r"
  "priorConflict (r\<lparr>r_canonicalHeaders := hs\<rparr>) op latest sender header = priorConflict r op latest sender header"
  "joinNegative (r\<lparr>r_canonicalHeaders := hs\<rparr>) latest op candidate found sender
     = joinNegative r latest op candidate found sender"
  "joinCopy (r\<lparr>r_canonicalHeaders := hs\<rparr>) op candidate found sender = joinCopy r op candidate found sender"
  by (simp_all add: canonicalLogView_def joinSenders_def committedBound_def localBound_def priorConflict_def
      joinNegative_def joinCopy_def Let_def cong: if_cong)

lemma candidate_loop_headers [simp]:
  "candidate_loop (r\<lparr>r_canonicalHeaders := hs\<rparr>) op latest bound senders sel = candidate_loop r op latest bound senders sel"
proof (induction senders arbitrary: sel)
  case Nil
  then show ?case by (cases sel) simp
next
  case (Cons sender senders)
  then show ?case by (cases sel) (simp add: Let_def split_beta cong: if_cong)
qed

lemma candidate_headers [simp]:
  "canonicalCandidate (r\<lparr>r_canonicalHeaders := hs\<rparr>) op = canonicalCandidate r op"
  "canonicalEvidence (r\<lparr>r_canonicalHeaders := hs\<rparr>) op candidate found = canonicalEvidence r op candidate found"
  by (simp_all add: canonicalCandidate_def canonicalEvidence_def cong: if_cong)

text \<open>The ways one round of the loop can contribute to a resolved selection.\<close>

definition keeps :: "Replica \<Rightarrow> Op \<Rightarrow> Header \<Rightarrow> bool" where
  "keeps r op header \<longleftrightarrow> canonicalCandidate r op = (header, True, False)
     \<and> snd (canonicalEvidence r op header True) \<noteq> 0"

definition truncates :: "Replica \<Rightarrow> Op \<Rightarrow> bool" where
  "truncates r op \<longleftrightarrow> (case canonicalCandidate r op of (candidate, found, conflict) \<Rightarrow>
     \<not> conflict \<and> fst (canonicalEvidence r op candidate found) \<ge> Negative (r_quorums r))"

lemma keeps_headers [simp]: "keeps (r\<lparr>r_canonicalHeaders := hs\<rparr>) op header = keeps r op header"
  "truncates (r\<lparr>r_canonicalHeaders := hs\<rparr>) op = truncates r op"
  by (simp_all add: keeps_def truncates_def)

lemma select_suffix_round:
  assumes "select_suffix r co op mh n prev = Some (r', Some (h, c))"
  shows "(mh < op \<and> r' = r \<and> h = mh \<and> c = n)
    \<or> (op \<le> mh \<and> co < op \<and> truncates r op \<and> r' = r \<and> h = op - 1 \<and> c = n)
    \<or> (op \<le> mh \<and> (\<exists>x. keeps r op x \<and> (n \<noteq> 0 \<longrightarrow> prepareParent x = HeaderChecksum prev)
         \<and> n < length (r_canonicalHeaders r)
         \<and> select_suffix (r\<lparr>r_canonicalHeaders := (r_canonicalHeaders r)[n := x]\<rparr>) co (op + 1) mh (n + 1) x
             = Some (r', Some (h, c))))"
proof (cases "op > mh")
  case True
  with assms show ?thesis by (subst (asm) select_suffix.simps) simp
next
  case False
  obtain x found conflict where cand: "canonicalCandidate r op = (x, found, conflict)" by (metis prod_cases3)
  obtain neg cop where ev: "canonicalEvidence r op x found = (neg, cop)" by force
  show ?thesis
    using assms False cand ev
    by (subst (asm) select_suffix.simps)
      (auto simp: keeps_def truncates_def split: if_splits)
qed

text \<open>
  A resolved selection from \<open>op\<close> on: the headers it stores from position \<open>n\<close> on are kept
  candidates, each linked to the one before, and it ends at the maximum or before an operation
  that a negative quorum truncates.
\<close>

definition suffix_of :: "Replica \<Rightarrow> Op \<Rightarrow> nat \<Rightarrow> Header \<Rightarrow> Header list \<Rightarrow> nat \<Rightarrow> bool" where
  "suffix_of r op n prev hs c \<longleftrightarrow> (\<forall>k. n \<le> k \<and> k < c \<longrightarrow> keeps r (op + of_nat (k - n)) (hs ! k)
     \<and> (k \<noteq> 0 \<longrightarrow> prepareParent (hs ! k) = HeaderChecksum (if k = n then prev else hs ! (k - 1))))"

definition suffix_end :: "Replica \<Rightarrow> Op \<Rightarrow> Op \<Rightarrow> Op \<Rightarrow> bool" where
  "suffix_end r co mh h \<longleftrightarrow> h = mh \<or> (co < h + 1 \<and> h < mh \<and> truncates r (h + 1))"

lemma suffix_of_headers [simp]:
  "suffix_of (r\<lparr>r_canonicalHeaders := xs\<rparr>) op n prev hs c = suffix_of r op n prev hs c"
  "suffix_end (r\<lparr>r_canonicalHeaders := xs\<rparr>) co mh h = suffix_end r co mh h"
  by (simp_all add: suffix_of_def suffix_end_def)

lemma suffix_of_empty [simp]: "suffix_of r op n prev hs n"
  by (auto simp: suffix_of_def)

lemma suffix_ofD:
  assumes "suffix_of r op 0 prev hs c" "k < c"
  shows "keeps r (op + of_nat k) (hs ! k)" "k \<noteq> 0 \<Longrightarrow> prepareParent (hs ! k) = HeaderChecksum (hs ! (k - 1))"
  using assms by (simp_all add: suffix_of_def)

lemma suffix_of_Suc:
  assumes "suffix_of r (op + 1) (n + 1) x hs c" "keeps r op x" "hs ! n = x"
    and "n \<noteq> 0 \<longrightarrow> prepareParent x = HeaderChecksum prev"
  shows "suffix_of r op n prev hs c"
  unfolding suffix_of_def
proof (intro allI impI)
  fix k assume k: "n \<le> k \<and> k < c"
  show "keeps r (op + of_nat (k - n)) (hs ! k)
     \<and> (k \<noteq> 0 \<longrightarrow> prepareParent (hs ! k) = HeaderChecksum (if k = n then prev else hs ! (k - 1)))"
  proof (cases "k = n")
    case True
    then show ?thesis using assms by simp
  next
    case False
    then have "k - n = Suc (k - (n + 1))" using k by linarith
    then have "op + of_nat (k - n) = op + 1 + of_nat (k - (n + 1))" by simp
    then show ?thesis using assms(1,3) k False by (auto simp: suffix_of_def)
  qed
qed

lemma unat_succ_word:
  assumes "mh \<noteq> - 1"
  shows "unat (mh + 1 :: u64) = unat mh + 1"
proof -
  have "unat mh \<noteq> 2 ^ 64 - 1" using assms unat_max64 by (metis word_unat_eq_iff)
  then show ?thesis using unat_less64 [of mh] unat_add_noof [of mh 1] by simp
qed

lemma select_suffix_result:
  "select_suffix r co op mh n prev = Some (r', Some (h, c)) \<Longrightarrow> mh \<noteq> - 1 \<Longrightarrow> op \<le> mh + 1
     \<Longrightarrow> \<exists>hs. r' = r\<lparr>r_canonicalHeaders := hs\<rparr> \<and> length hs = length (r_canonicalHeaders r) \<and> n \<le> c
       \<and> (n < c \<longrightarrow> c \<le> length hs) \<and> unat h + 1 = unat op + (c - n) \<and> take n hs = take n (r_canonicalHeaders r)
       \<and> suffix_of r op n prev hs c \<and> suffix_end r co mh h"
proof (induction "length (r_canonicalHeaders r) - n" arbitrary: r op n prev rule: less_induct)
  case less
  note mh = unat_succ_word [OF less.prems(2)]
  consider (over) "mh < op" "r' = r" "h = mh" "c = n"
    | (cut) "op \<le> mh" "co < op" "truncates r op" "r' = r" "h = op - 1" "c = n"
    | (keep) x where "op \<le> mh" "keeps r op x" "n \<noteq> 0 \<longrightarrow> prepareParent x = HeaderChecksum prev"
      "n < length (r_canonicalHeaders r)"
      "select_suffix (r\<lparr>r_canonicalHeaders := (r_canonicalHeaders r)[n := x]\<rparr>) co (op + 1) mh (n + 1) x
         = Some (r', Some (h, c))"
    using select_suffix_round [OF less.prems(1)] by blast
  then show ?case
  proof cases
    case over
    then have "op = mh + 1" using less.prems(3) mh by (auto simp: word_unat_eq_iff word_le_nat_alt word_less_nat_alt)
    with over mh show ?thesis
      by (intro exI [of _ "r_canonicalHeaders r"]) (simp add: suffix_end_def)
  next
    case cut
    have "op \<noteq> 0" using cut by auto
    then have "unat (op - 1) + 1 = unat op" by (simp add: unat_minus_one unat_gt_0)
    moreover from this have "op - 1 < mh" using cut by (simp add: word_less_nat_alt word_le_nat_alt)
    ultimately show ?thesis
      using cut by (intro exI [of _ "r_canonicalHeaders r"]) (simp add: suffix_end_def)
  next
    case keep
    let ?r = "r\<lparr>r_canonicalHeaders := (r_canonicalHeaders r)[n := x]\<rparr>"
    have "op \<noteq> - 1"
    proof
      assume "op = - 1"
      then have "unat mh = 2 ^ 64 - 1" using keep(1) unat_less64 [of mh] by (simp add: word_le_nat_alt unat_max64)
      then show False using less.prems(2) unat_max64 by (metis word_unat_eq_iff)
    qed
    note op = unat_succ_word [OF this]
    have "op + 1 \<le> mh + 1" using keep op mh by (simp add: word_le_nat_alt)
    have "length (r_canonicalHeaders ?r) - (n + 1) < length (r_canonicalHeaders r) - n" using keep(4) by simp
    then have "\<exists>hs. r' = ?r\<lparr>r_canonicalHeaders := hs\<rparr> \<and> length hs = length (r_canonicalHeaders ?r) \<and> n + 1 \<le> c
       \<and> (n + 1 < c \<longrightarrow> c \<le> length hs) \<and> unat h + 1 = unat (op + 1) + (c - (n + 1))
       \<and> take (n + 1) hs = take (n + 1) (r_canonicalHeaders ?r)
       \<and> suffix_of ?r (op + 1) (n + 1) x hs c \<and> suffix_end ?r co mh h"
      by (rule less.hyps [OF _ keep(5) less.prems(2) \<open>op + 1 \<le> mh + 1\<close>])
    then obtain hs where
      IH: "r' = ?r\<lparr>r_canonicalHeaders := hs\<rparr>" "length hs = length (r_canonicalHeaders ?r)" "n + 1 \<le> c"
      "n + 1 < c \<longrightarrow> c \<le> length hs" "unat h + 1 = unat (op + 1) + (c - (n + 1))"
      "take (n + 1) hs = take (n + 1) (r_canonicalHeaders ?r)"
      "suffix_of r (op + 1) (n + 1) x hs c" "suffix_end r co mh h"
      unfolding suffix_of_headers by (elim exE conjE)
    have "hs ! n = x" using arg_cong [OF IH(6), of "\<lambda>l. l ! n"] keep(4) by simp
    with suffix_of_Suc [OF IH(7) keep(2)] keep(3) have "suffix_of r op n prev hs c" by blast
    moreover have "take n hs = take n (r_canonicalHeaders r)"
      using arg_cong [OF IH(6), of "take n"] by simp
    moreover have "c \<le> length hs" using IH(2-4) keep(4) by auto
    moreover have "unat h + 1 = unat op + (c - n)" using IH(3,5) op by linarith
    ultimately show ?thesis
      using IH(1-3,8) by (intro exI [of _ hs]) simp
  qed
qed

section \<open>Bounds, candidates and counts\<close>

lemma select_bounds_result:
  "select_bounds r senders (m, c) = Some (mh, co) \<Longrightarrow>
     co = fold (\<lambda>sender bound. if j_valid (r_joins r ! sender) then max bound (joinCommittedBound r sender) else bound) senders c
     \<and> m \<le> mh \<and> (\<forall>s\<in>set senders. j_valid (r_joins r ! s) \<longrightarrow> j_head (r_joins r ! s) \<le> mh)
     \<and> (mh = m \<or> (\<exists>s\<in>set senders. j_valid (r_joins r ! s) \<and> mh = j_head (r_joins r ! s)))"
proof (induction r senders "(m, c)" arbitrary: m c rule: select_bounds.induct)
  case (2 r s ss m c)
  show ?case
  proof (cases "j_valid (r_joins r ! s)")
    case False
    with 2 show ?thesis by simp
  next
    case True
    with 2(3) have "select_bounds r ss (max m (j_head (r_joins r ! s)), max c (joinCommittedBound r s)) = Some (mh, co)"
      and guard: "\<not> (j_count (r_joins r ! s) = 0 \<or> ucast (j_count (r_joins r ! s) - 1) > j_head (r_joins r ! s))"
      by (auto simp: Let_def split: if_splits)
    from 2(2) [OF refl _ guard this(1)] True show ?thesis by (auto simp: max_def split: if_splits)
  qed
qed simp

lemma candidate_loop_source:
  "candidate_loop r op latest bound senders (sel, selLog, fnd) = (x, True, False) \<Longrightarrow>
     (fnd \<and> x = sel) \<or> (\<exists>s\<in>set senders. joinHeaderAt r s op = (x, True)
       \<and> (bound < op \<longrightarrow> j_logView (r_joins r ! s) = latest))"
proof (induction senders arbitrary: sel selLog fnd)
  case (Cons s ss)
  obtain header present where h: "joinHeaderAt r s op = (header, present)" by force
  show ?case
    using Cons.prems Cons.IH [of sel selLog fnd] Cons.IH [of header "j_logView (r_joins r ! s)" True]
    by (auto simp: h Let_def split: if_splits)
qed simp

lemma candidate_loop_found:
  "candidate_loop r op latest bound senders (sel, selLog, fnd) = (x, found, False) \<Longrightarrow>
     fnd \<or> (\<exists>s\<in>set senders. snd (joinHeaderAt r s op) \<and> j_logView (r_joins r ! s) = latest) \<Longrightarrow> found"
proof (induction senders arbitrary: sel selLog fnd)
  case (Cons s ss)
  obtain header present where h: "joinHeaderAt r s op = (header, present)" by force
  show ?case
    using Cons.prems Cons.IH [of sel selLog fnd] Cons.IH [of header "j_logView (r_joins r ! s)" True]
    by (auto simp: h Let_def split: if_splits)
qed simp

lemma evidence_counts:
  "fold (\<lambda>s (negatives, copies). (if P s then negatives + 1 else negatives, if Q s then copies + 1 else copies))
     senders (a, b) = (a + of_nat (length (filter P senders)), b + of_nat (length (filter Q senders)) :: u8)"
  by (induction senders arbitrary: a b) (simp_all add: algebra_simps)

lemma negatives_card:
  assumes "length (r_joins r) \<le> 6"
  shows "unat (fst (canonicalEvidence r op x found))
    = card {s. s < length (r_joins r) \<and> joinNegative r (canonicalLogView r) op x found s}"
proof -
  let ?P = "joinNegative r (canonicalLogView r) op x found"
  have "length (filter ?P (joinSenders r)) = card (set (filter ?P (joinSenders r)))"
    by (rule distinct_card [symmetric]) (simp add: joinSenders_def)
  also have "set (filter ?P (joinSenders r)) = {s. s < length (r_joins r) \<and> ?P s}"
    by (auto simp: joinSenders_def)
  finally have n: "length (filter ?P (joinSenders r)) = card {s. s < length (r_joins r) \<and> ?P s}" .
  have "length (filter ?P (joinSenders r)) \<le> 6"
    using length_filter_le [of ?P "joinSenders r"] assms by (simp add: joinSenders_def)
  then show ?thesis
    by (simp add: canonicalEvidence_def evidence_counts unsigned_of_nat take_bit_nat_eq_self flip: n)
qed

lemma copies_some:
  "snd (canonicalEvidence r op x found) \<noteq> 0 \<Longrightarrow> \<exists>s<length (r_joins r). joinCopy r op x found s"
  by (auto simp: canonicalEvidence_def evidence_counts joinSenders_def filter_empty_conv
      intro: ccontr [of "\<exists>s. _ s"] split: if_splits)

section \<open>The structure of a resolved selection\<close>

text \<open>Operation numbers stay below the largest word.\<close>

definition heads_ok :: "Replica \<Rightarrow> bool" where
  "heads_ok r \<longleftrightarrow> PrepareOp (r_checkpoint r) \<noteq> - 1
     \<and> (\<forall>record\<in>set (r_joins r). j_valid record \<longrightarrow> j_head record \<noteq> - 1)"

lemma selection_result:
  assumes sel: "selectCanonicalSuffix r = Some (r', Some (commit, head, count))" and "heads_ok r"
  obtains mh hs where "commit = committedBound r" "commit \<le> head" "unat head + 1 = unat commit + count"
    "length hs = length (r_canonicalHeaders r)" "count \<le> length hs"
    "r' = r\<lparr>r_canonicalHeaders := reverse_loop hs 0 (count - 1)\<rparr>"
    "suffix_of r commit 0 zeroHeader hs count" "suffix_end r commit mh head"
    "\<And>s. s < length (r_joins r) \<Longrightarrow> j_valid (r_joins r ! s) \<Longrightarrow> j_head (r_joins r ! s) \<le> mh"
proof -
  obtain mh where bounds: "select_bounds r (joinSenders r) (PrepareOp (r_checkpoint r), localBound r) = Some (mh, commit)"
    and le: "commit \<le> mh"
    and suffix: "\<exists>r1. select_suffix r commit commit mh 0 zeroHeader = Some (r1, Some (head, count))
      \<and> r' = r1\<lparr>r_canonicalHeaders := reverse_loop (r_canonicalHeaders r1) 0 (count - 1)\<rparr>"
    using sel by (auto simp: selectCanonicalSuffix_def not_less not_le split: option.splits prod.splits if_splits)
  have mh: "mh \<noteq> - 1"
    using select_bounds_result [OF bounds] assms(2) by (auto simp: heads_ok_def joinSenders_def)
  have "commit \<le> mh + 1" using le unat_succ_word [OF mh] by (simp add: word_le_nat_alt)
  obtain r1 where r1: "select_suffix r commit commit mh 0 zeroHeader = Some (r1, Some (head, count))"
    "r' = r1\<lparr>r_canonicalHeaders := reverse_loop (r_canonicalHeaders r1) 0 (count - 1)\<rparr>"
    using suffix by blast
  from select_suffix_result [OF r1(1) mh \<open>commit \<le> mh + 1\<close>] obtain hs where
    hs1: "r1 = r\<lparr>r_canonicalHeaders := hs\<rparr>" and hs: "length hs = length (r_canonicalHeaders r)"
    "0 < count \<longrightarrow> count \<le> length hs" "unat head + 1 = unat commit + (count - 0)"
    "suffix_of r commit 0 zeroHeader hs count" "suffix_end r commit mh head"
    by (elim exE conjE)
  have r': "r' = r\<lparr>r_canonicalHeaders := reverse_loop hs 0 (count - 1)\<rparr>" using r1(2) hs1 by simp
  have "commit \<le> head"
  proof (cases "head = mh")
    case False
    then have "commit < head + 1" "head < mh" using hs(5) by (auto simp: suffix_end_def)
    moreover have "head \<noteq> - 1" using \<open>head < mh\<close> unat_less64 [of mh] by (auto simp: word_less_nat_alt unat_max64)
    ultimately show ?thesis using unat_succ_word [of head] by (simp add: word_less_nat_alt word_le_nat_alt)
  qed (use le in simp)
  moreover have "commit = committedBound r" "\<And>s. s < length (r_joins r) \<Longrightarrow> j_valid (r_joins r ! s) \<Longrightarrow> j_head (r_joins r ! s) \<le> mh"
    using select_bounds_result [OF bounds] by (simp_all add: committedBound_def joinSenders_def)
  moreover have "count \<le> length hs" using hs(2) by (cases count) simp_all
  moreover have "unat head + 1 = unat commit + count" using hs(3) by simp
  ultimately show thesis using that [OF _ _ _ hs(1) _ r' hs(4,5)] by blast
qed

lemma selection_nth:
  assumes "length hs = n" "count \<le> n" "i < count"
  shows "reverse_loop hs 0 (count - 1) ! i = hs ! (count - 1 - i)"
  using assms by (simp add: reverse_loop_nth)

lemma keeps_source:
  assumes "keeps r op x"
  shows "\<exists>s<length (r_joins r). joinHeaderAt r s op = (x, True)
    \<and> (committedBound r < op \<longrightarrow> j_logView (r_joins r ! s) = canonicalLogView r)"
  using assms candidate_loop_source [of r op "canonicalLogView r" "committedBound r" "joinSenders r" zeroHeader 0 False x]
  by (auto simp: keeps_def canonicalCandidate_def joinSenders_def)

section \<open>Committed operations survive\<close>

text \<open>
  What a replication quorum leaves behind: each of its members, if it joins, reports the header
  it acknowledged and does not nack it.
\<close>

definition acknowledged :: "Replica \<Rightarrow> nat set \<Rightarrow> Op \<Rightarrow> Checksum \<Rightarrow> bool" where
  "acknowledged r A op checksum \<longleftrightarrow> A \<subseteq> {..<length (r_joins r)} \<and> unat (Replication (r_quorums r)) \<le> card A
     \<and> (\<forall>s\<in>A. j_valid (r_joins r ! s) \<longrightarrow>
          (\<exists>x. joinHeaderAt r s op = (x, True) \<and> HeaderChecksum x = checksum)
          \<and> j_nack (r_joins r ! s) AND push_bit (unat (j_head (r_joins r ! s) - op)) 1 = 0)"

text \<open>The latest log among the joins contains that header and no other at its operation.\<close>

definition logged :: "Replica \<Rightarrow> Op \<Rightarrow> Checksum \<Rightarrow> bool" where
  "logged r op checksum \<longleftrightarrow>
     (\<exists>s<length (r_joins r). j_logView (r_joins r ! s) = canonicalLogView r \<and> snd (joinHeaderAt r s op))
     \<and> (\<forall>s<length (r_joins r). \<forall>x. j_logView (r_joins r ! s) = canonicalLogView r
          \<and> joinHeaderAt r s op = (x, True) \<longrightarrow> HeaderChecksum x = checksum)"

lemma acknowledged_not_negative:
  assumes "acknowledged r A op checksum" "s \<in> A" "HeaderChecksum x = checksum"
  shows "\<not> joinNegative r latest op x True s"
proof (cases "j_valid (r_joins r ! s)")
  case True
  then obtain y where y: "joinHeaderAt r s op = (y, True)" "HeaderChecksum y = checksum"
    and nack: "j_nack (r_joins r ! s) AND push_bit (unat (j_head (r_joins r ! s) - op)) 1 = 0"
    using assms(1,2) by (auto simp: acknowledged_def)
  have "\<not> j_head (r_joins r ! s) < op" "\<not> ucast (j_count (r_joins r ! s)) \<le> j_head (r_joins r ! s) - op"
    using y(1) by (auto simp: joinHeaderAt_def Let_def split: if_splits)
  with True y nack assms(3) show ?thesis by (simp add: joinNegative_def Let_def)
qed (simp add: joinNegative_def Let_def)

lemma acknowledged_not_truncated:
  assumes q: "QuorumsFor (of_nat (length (r_joins r))) m = Some (r_quorums r)" and len: "length (r_joins r) \<le> 6"
    and ack: "acknowledged r A op checksum" and log: "logged r op checksum" and op: "committedBound r < op"
  shows "\<not> truncates r op"
proof
  assume cut: "truncates r op"
  obtain x found conflict where cand: "canonicalCandidate r op = (x, found, conflict)" by (metis prod_cases3)
  with cut have x: "canonicalCandidate r op = (x, found, False)"
    "Negative (r_quorums r) \<le> fst (canonicalEvidence r op x found)" by (auto simp: truncates_def)
  have "\<exists>s\<in>set (joinSenders r). snd (joinHeaderAt r s op) \<and> j_logView (r_joins r ! s) = canonicalLogView r"
    using log by (auto simp: logged_def joinSenders_def)
  with candidate_loop_found [OF x(1) [unfolded canonicalCandidate_def]] have found by blast
  with x(1) candidate_loop_source [of r op "canonicalLogView r" "committedBound r" "joinSenders r" zeroHeader 0 False x] op
  obtain s where "s < length (r_joins r)" "joinHeaderAt r s op = (x, True)"
    "j_logView (r_joins r ! s) = canonicalLogView r"
    by (auto simp: canonicalCandidate_def joinSenders_def)
  then have checksum: "HeaderChecksum x = checksum" using log by (auto simp: logged_def)
  let ?N = "{s. s < length (r_joins r) \<and> joinNegative r (canonicalLogView r) op x found s}"
  have "?N \<inter> A = {}" using acknowledged_not_negative [OF ack _ checksum] \<open>found\<close> by auto
  moreover have "A \<subseteq> {..<length (r_joins r)}" "unat (Replication (r_quorums r)) \<le> card A"
    using ack by (simp_all add: acknowledged_def)
  moreover have "unat (Negative (r_quorums r)) \<le> card ?N"
    using x(2) negatives_card [OF len, of op x found] by (simp add: word_le_nat_alt)
  moreover have "length (r_joins r) < unat (Replication (r_quorums r)) + unat (Negative (r_quorums r))"
    using qs.replication_negative [OF q] len by (simp add: unsigned_of_nat take_bit_nat_eq_self)
  ultimately show False
    using qs.sets_meet [of ?N "length (r_joins r)" A "unat (Negative (r_quorums r))" "unat (Replication (r_quorums r))"]
    by (auto simp: add.commute)
qed

section \<open>Recorded joins\<close>

text \<open>Every header recorded for a join carries the operation number of its place.\<close>

definition headers_at :: "Op \<Rightarrow> Header list \<Rightarrow> bool" where
  "headers_at head hs \<longleftrightarrow> (\<forall>i<length hs. Command (hs ! i) \<noteq> 0 \<longrightarrow> prepareOp (hs ! i) = head - of_nat i)"

definition joins_ok :: "Replica \<Rightarrow> bool" where
  "joins_ok r \<longleftrightarrow> length (r_joinHeaders r) = length (r_joins r) * joinStride r
     \<and> (\<forall>s<length (r_joins r). j_valid (r_joins r ! s) \<longrightarrow> unat (j_count (r_joins r ! s)) \<le> joinStride r
          \<and> headers_at (j_head (r_joins r ! s)) (joinHeaderSlice r s))"

lemma slice_bound: "s < n \<Longrightarrow> s * stride + stride \<le> n * (stride :: nat)"
  by (metis Suc_leI mult_Suc add.commute mult_le_mono1)

lemma joinHeaderSlice_nth:
  assumes "joins_ok r" "s < length (r_joins r)"
  shows "length (joinHeaderSlice r s) = joinStride r"
    "i < joinStride r \<Longrightarrow> joinHeaderSlice r s ! i = r_joinHeaders r ! (s * joinStride r + i)"
  using assms slice_bound [OF assms(2), of "joinStride r"]
  by (simp_all add: joinHeaderSlice_def joins_ok_def nth_slice)

lemma joinHeaderAt_op:
  assumes ok: "joins_ok r" and s: "s < length (r_joins r)" and h: "joinHeaderAt r s op = (x, True)"
  shows "prepareOp x = op"
proof -
  let ?j = "r_joins r ! s"
  have j: "j_valid ?j" "op \<le> j_head ?j" "j_head ?j - op < ucast (j_count ?j)" "Command x \<noteq> 0"
    "x = r_joinHeaders r ! (s * joinStride r + unat (j_head ?j - op))"
    using h by (auto simp: joinHeaderAt_def Let_def not_less not_le split: if_splits)
  have "unat (ucast (j_count ?j) :: u64) = unat (j_count ?j)"
    using unsigned_less [of "j_count ?j", where ?'a = nat] by (simp add: unsigned_ucast_eq take_bit_nat_eq_self)
  then have i: "unat (j_head ?j - op) < joinStride r"
    using j(1,3) ok s by (auto simp: joins_ok_def word_less_nat_alt)
  moreover have "headers_at (j_head ?j) (joinHeaderSlice r s)" using ok s j(1) by (simp add: joins_ok_def)
  ultimately have "prepareOp x = j_head ?j - of_nat (unat (j_head ?j - op))"
    using joinHeaderSlice_nth [OF ok s] j(4,5) by (simp add: headers_at_def)
  then show ?thesis by simp
qed

lemma join_headers_at:
  "join_headers r body head is hs = Inr hs' \<Longrightarrow> headers_at head hs \<Longrightarrow> headers_at head hs' \<and> length hs' = length hs"
proof (induction "is" arbitrary: hs)
  case (Cons i "is")
  show ?case
  proof (cases "allZero (gslice (i * 256) ((i + 1) * 256) body)")
    case True
    with Cons show ?thesis by simp
  next
    case False
    obtain x reason where x: "replica_DecodeHeader r (gslice (i * 256) ((i + 1) * 256) body) = (x, reason)" by force
    with Cons.prems False have "prepareOp x = head - of_nat i" "join_headers r body head is (hs[i := x]) = Inr hs'"
      by (auto simp: Let_def split: if_splits)
    moreover from this Cons.prems(2) have "headers_at head (hs[i := x])"
      by (cases "i < length hs") (auto simp: headers_at_def nth_list_update list_update_beyond not_less)
    ultimately show ?thesis using Cons.IH [of "hs[i := x]"] by simp
  qed
qed simp

lemma joins_ok_cong:
  "r_joins r' = r_joins r \<Longrightarrow> r_joinHeaders r' = r_joinHeaders r \<Longrightarrow> r_config r' = r_config r
     \<Longrightarrow> joins_ok r' = joins_ok r"
  by (simp add: joins_ok_def joinHeaderSlice_def joinStride_def)

lemma putJoin_zero_ok: "joins_ok r \<Longrightarrow> joins_ok (putJoin r s zeroJoin)"
  by (cases "s < length (r_joins r)")
    (auto simp: joins_ok_def putJoin_def zeroJoin_def joinHeaderSlice_def joinStride_def nth_list_update
      list_update_beyond not_less split: if_splits)

lemma slices_apart:
  fixes stride :: nat
  assumes "s \<noteq> s'" "i < stride"
  shows "\<not> (s * stride \<le> s' * stride + i \<and> s' * stride + i < s * stride + stride)"
proof (cases "s < s'")
  case True
  then have "s * stride + stride \<le> s' * stride" by (rule slice_bound)
  then show ?thesis by linarith
next
  case False
  then have "s' * stride + stride \<le> s * stride" using assms(1) by (intro slice_bound) simp
  then show ?thesis using assms(2) by linarith
qed

lemma putHeaderSlice_slice:
  assumes "length (r_joinHeaders r) = n * joinStride r" "s < n" "s' < n" "length hs = joinStride r"
  shows "joinHeaderSlice (putHeaderSlice r s hs) s' = (if s' = s then hs else joinHeaderSlice r s')"
proof -
  let ?k = "joinStride r"
  have stride: "joinStride (putHeaderSlice r s hs) = ?k" by (simp add: joinStride_def putHeaderSlice_def)
  have b: "s * ?k + ?k \<le> n * ?k" "s' * ?k + ?k \<le> n * ?k" 
    by (rule slice_bound [OF assms(2)], rule slice_bound [OF assms(3)])
  show ?thesis
  proof (cases "s' = s")
    case True
    then show ?thesis
      using assms b by (simp add: joinHeaderSlice_def stride) (simp add: putHeaderSlice_def slice_copy_at_same)
  next
    case False
    have "joinHeaderSlice (putHeaderSlice r s hs) s' = joinHeaderSlice r s'"
      unfolding joinHeaderSlice_def stride
      using assms b slices_apart [OF False [symmetric], of _ ?k]
      by (intro nth_equalityI) (auto simp: putHeaderSlice_def nth_slice nth_copy_at)
    with False show ?thesis by simp
  qed
qed

lemma putJoin_ok:
  assumes "joins_ok r" "s < length (r_joins r)" "length hs = joinStride r"
    and "j_valid record \<longrightarrow> unat (j_count record) \<le> joinStride r \<and> headers_at (j_head record) hs"
  shows "joins_ok (putHeaderSlice (putJoin r s record) s hs)"
proof -
  have f: "joinStride (putJoin r s record) = joinStride r" "joinStride (putHeaderSlice (putJoin r s record) s hs) = joinStride r"
    by (simp_all add: joinStride_def putJoin_def putHeaderSlice_def)
  have len: "length (r_joinHeaders (putJoin r s record)) = length (r_joins r) * joinStride (putJoin r s record)"
    using assms(1) by (simp add: joins_ok_def f) (simp add: putJoin_def)
  have "joinHeaderSlice (putHeaderSlice (putJoin r s record) s hs) s' = (if s' = s then hs else joinHeaderSlice r s')"
    if "s' < length (r_joins r)" for s'
    using putHeaderSlice_slice [OF len assms(2) that, of hs] assms(3)
    by (simp add: f joinHeaderSlice_def [of "putJoin r s record"]) (simp add: joinHeaderSlice_def putJoin_def joinStride_def)
  moreover have "r_joins (putHeaderSlice (putJoin r s record) s hs) = (r_joins r)[s := record]"
    "length (r_joinHeaders (putHeaderSlice (putJoin r s record) s hs)) = length (r_joinHeaders r)"
    by (simp_all add: putHeaderSlice_def putJoin_def)
  ultimately show ?thesis
    using assms unfolding joins_ok_def f by (auto simp: nth_list_update split: if_splits)
qed

definition same_joins :: "Replica \<Rightarrow> Replica \<Rightarrow> bool" where
  "same_joins r r' \<longleftrightarrow> r_joins r' = r_joins r \<and> r_joinHeaders r' = r_joinHeaders r \<and> r_config r' = r_config r"

lemma select_suffix_any:
  assumes "select_suffix r co op mh n prev = Some (r', y)"
  shows "same_joins r r' \<or> (\<exists>x. n < length (r_canonicalHeaders r)
    \<and> select_suffix (r\<lparr>r_canonicalHeaders := (r_canonicalHeaders r)[n := x]\<rparr>) co (op + 1) mh (n + 1) x = Some (r', y))"
proof -
  obtain x found conflict where cand: "canonicalCandidate r op = (x, found, conflict)" by (metis prod_cases3)
  obtain neg cop where ev: "canonicalEvidence r op x found = (neg, cop)" by force
  show ?thesis
    using assms cand ev
    by (subst (asm) select_suffix.simps) (auto simp: same_joins_def replica_fail_def split: if_splits)
qed

lemma select_suffix_joins: "select_suffix r co op mh n prev = Some (r', y) \<Longrightarrow> same_joins r r'"
proof (induction "length (r_canonicalHeaders r) - n" arbitrary: r op n prev rule: less_induct)
  case less
  from select_suffix_any [OF less.prems] show ?case
  proof (elim disjE exE conjE)
    fix x
    let ?r = "r\<lparr>r_canonicalHeaders := (r_canonicalHeaders r)[n := x]\<rparr>"
    assume "n < length (r_canonicalHeaders r)"
    then have smaller: "length (r_canonicalHeaders ?r) - (n + 1) < length (r_canonicalHeaders r) - n" by simp
    assume "select_suffix ?r co (op + 1) mh (n + 1) x = Some (r', y)"
    from less.hyps [OF smaller this] show ?case by (simp add: same_joins_def)
  qed
qed

lemma selectCanonicalSuffix_joins:
  assumes "selectCanonicalSuffix r = Some (r', x)"
  shows "same_joins r r'"
proof -
  have refl: "same_joins r r" by (simp add: same_joins_def)
  show ?thesis
  proof (cases "select_bounds r (joinSenders r) (PrepareOp (r_checkpoint r), localBound r)")
    case None
    with assms refl show ?thesis by (simp add: selectCanonicalSuffix_def)
  next
    case (Some b)
    obtain mh co where b: "b = (mh, co)" by force
    show ?thesis
    proof (cases "select_suffix r co co mh 0 zeroHeader")
      case None
      with assms Some b refl show ?thesis by (auto simp: selectCanonicalSuffix_def split: if_splits)
    next
      case (Some y)
      obtain r1 z where y: "y = (r1, z)" by force
      then have "same_joins r r1" using select_suffix_joins Some by blast
      with assms Some y b \<open>select_bounds _ _ _ = _\<close> refl show ?thesis
        by (auto simp: selectCanonicalSuffix_def same_joins_def split: if_splits option.splits)
    qed
  qed
qed

lemma tryInstall_joins:
  assumes "tryInstallCanonicalView r = Some r'"
  shows "same_joins r r'"
proof -
  from assms obtain r1 x where sel: "selectCanonicalSuffix r = Some (r1, x)"
    by (auto simp: tryInstallCanonicalView_def split: option.splits)
  have "same_joins r1 r'"
    using assms
    by (auto simp: tryInstallCanonicalView_def sel same_joins_def replica_fail_def recordRecoveringView_def Let_def
        split: option.splits if_splits behaviour.splits)
  with selectCanonicalSuffix_joins [OF sel] show ?thesis by (simp add: same_joins_def)
qed

lemma same_joins_ok: "same_joins r r' \<Longrightarrow> joins_ok r' = joins_ok r"
  by (rule joins_ok_cong) (simp_all add: same_joins_def)

lemma join_headers_length:
  "join_headers r body head is hs = Inl hs' \<Longrightarrow> length hs' = length hs"
proof (induction "is" arbitrary: hs)
  case (Cons i "is")
  obtain x reason where "replica_DecodeHeader r (gslice (i * 256) ((i + 1) * 256) body) = (x, reason)" by force
  then show ?case
    using Cons.prems Cons.IH [of hs] Cons.IH [of "hs[i := x]"] by (auto simp: Let_def split: if_splits)
qed simp

lemma putHeaderSlice_same:
  "same_joins r r' \<Longrightarrow> same_joins (putHeaderSlice r s hs) (putHeaderSlice r' s hs)"
  by (simp add: same_joins_def putHeaderSlice_def joinStride_def)

lemma observe_same: "same_joins r (observePeerCheckpoint r p checkpoint)"
  by (simp add: same_joins_def observePeerCheckpoint_def)

lemma putJoin_slice_zero:
  "same_joins (putHeaderSlice (putJoin r s zeroJoin) s hs)
     (putJoin (putHeaderSlice (observePeerCheckpoint (putJoin r s record) p checkpoint) s hs) s zeroJoin)"
  by (simp add: same_joins_def putJoin_def putHeaderSlice_def observePeerCheckpoint_def joinStride_def)

lemma recordJoinView_early:
  assumes "r_joinViewBits r AND push_bit (unat (Author header)) 1 \<noteq> 0 \<or> length body div 256 = 0
    \<or> length body div 256 > joinStride r"
  shows "recordJoinView r header body = Some r"
proof (cases "r_joinViewBits r AND push_bit (unat (Author header)) 1 \<noteq> 0")
  case False
  then have "length body div 256 = 0 \<or> length body div 256 > joinStride r" using assms by blast
  then show ?thesis unfolding recordJoinView_def Let_def by (simp only: if_P if_not_P [OF False])
qed (simp only: recordJoinView_def Let_def if_True simp_thms)

lemma recordJoinView_late:
  assumes "\<not> (r_joinViewBits r AND push_bit (unat (Author header)) 1 \<noteq> 0 \<or> length body div 256 = 0
    \<or> length body div 256 > joinStride r)"
  shows "recordJoinView r header body =
    (let sender = unat (Author header); record = joinRecordOf header (length body div 256)
     in if sender \<ge> length (r_joins r) then None
     else if of_nat (length body div 256 - 1) > j_head record \<or> j_logView record > View header
         \<or> j_commit record > j_head record \<or> j_checkpoint record > j_commit record
     then Some (putJoin r sender zeroJoin)
     else let r = observePeerCheckpoint (putJoin r sender record) (Author header) (j_checkpoint record)
     in case join_headers r body (j_head record) [0..<length body div 256] (replicate (joinStride r) zeroHeader) of
       Inl hs \<Rightarrow> Some (putJoin (putHeaderSlice r sender hs) sender zeroJoin)
     | Inr hs \<Rightarrow>
       let r = (putHeaderSlice r sender hs)\<lparr>r_joinViewBits := r_joinViewBits r OR push_bit sender 1\<rparr>
       in if countAckBits (r_joinViewBits r) \<ge> ViewChange (r_quorums r) then tryInstallCanonicalView r else Some r)"
proof -
  have a: "\<not> r_joinViewBits r AND push_bit (unat (Author header)) 1 \<noteq> 0" using assms by blast
  have b: "\<not> (length body div 256 = 0 \<or> length body div 256 > joinStride r)" using assms by blast
  show ?thesis unfolding recordJoinView_def Let_def if_not_P [OF a] if_not_P [OF b] by (rule refl)
qed

lemma recordJoinView_ok:
  assumes rec: "recordJoinView r header body = Some r'" and ok: "joins_ok r"
  shows "joins_ok r'"
proof -
  let ?s = "unat (Author header)" and ?n = "length body div 256"
  let ?j = "joinRecordOf header (length body div 256)"
  let ?r = "observePeerCheckpoint (putJoin r ?s ?j) (Author header) (j_checkpoint ?j)"
  let ?hs = "replicate (joinStride ?r) zeroHeader"
  let ?bad = "of_nat (?n - 1) > j_head ?j \<or> j_logView ?j > View header \<or> j_commit ?j > j_head ?j
    \<or> j_checkpoint ?j > j_commit ?j"
  show ?thesis
  proof (cases "r_joinViewBits r AND push_bit ?s 1 \<noteq> 0 \<or> ?n = 0 \<or> ?n > joinStride r")
    case True
    then show ?thesis using rec ok recordJoinView_early by auto
  next
    case False
    note rec = rec [unfolded recordJoinView_late [OF False] Let_def]
    have s: "?s < length (r_joins r)" using rec by (rule contrapos_pp) (simp add: not_less)
    have stride: "joinStride ?r = joinStride r"
      by (simp add: joinStride_def observePeerCheckpoint_def putJoin_def)
    show ?thesis
    proof (cases ?bad)
      case True
      then have "r' = putJoin r ?s zeroJoin" using rec s by simp
      then show ?thesis using putJoin_zero_ok [OF ok] by simp
    next
      case good: False
      show ?thesis
      proof (cases "join_headers ?r body (j_head ?j) [0..<?n] ?hs")
        case (Inl hs)
        then have "r' = putJoin (putHeaderSlice ?r ?s hs) ?s zeroJoin"
          using rec s good by simp
        moreover have "joins_ok (putHeaderSlice (putJoin r ?s zeroJoin) ?s hs)"
          using join_headers_length [OF Inl] stride by (intro putJoin_ok [OF ok s]) (simp_all add: zeroJoin_def)
        ultimately show ?thesis using same_joins_ok [OF putJoin_slice_zero] by blast
      next
        case (Inr hs)
        let ?r1 = "(putHeaderSlice ?r ?s hs)\<lparr>r_joinViewBits := r_joinViewBits ?r OR push_bit ?s 1\<rparr>"
        have "same_joins ?r1 r'"
          using rec s good Inr tryInstall_joins [of ?r1 r'] by (auto simp: same_joins_def split: if_splits)
        then have "same_joins (putHeaderSlice (putJoin r ?s ?j) ?s hs) r'"
          using putHeaderSlice_same [OF observe_same, of "putJoin r ?s ?j" ?s hs "Author header" "j_checkpoint ?j"]
          by (simp add: same_joins_def)
        moreover have "headers_at (j_head ?j) ?hs" by (simp add: headers_at_def zeroHeader_def)
        from join_headers_at [OF Inr this] have "headers_at (j_head ?j) hs" "length hs = joinStride r"
          by (simp_all add: stride)
        moreover have "unat (j_count ?j) \<le> joinStride r"
          using False le_trans [OF take_bit_nat_less_eq_self [of 8 ?n]] by (simp add: joinRecordOf_def unsigned_of_nat)
        ultimately show ?thesis using putJoin_ok [OF ok s, of hs ?j] same_joins_ok by blast
      qed
    qed
  qed
qed

section \<open>An example\<close>

definition example_join_header :: "Op \<Rightarrow> Header" where
  "example_join_header op = zeroHeader\<lparr>Command := CommandPrepare,
     Fields := copy_at 96 104 (put64 op) (replicate 128 0)\<rparr>"

definition example_join :: joinRecord where
  "example_join = \<lparr>j_valid = True, j_present = 3, j_nack = 0, j_head = 1, j_commit = 0, j_checkpoint = 0,
     j_logView = 0, j_count = 2\<rparr>"

text \<open>Two of three replicas have joined, both with the operations 0 and 1.\<close>

definition example_joined :: Replica where
  "example_joined = (example_replica 3 0)\<lparr>r_joins := [example_join, example_join, zeroJoin],
     r_joinHeaders := concat (replicate 2 (example_join_header 1 # example_join_header 0 # replicate 7 zeroHeader))
       @ replicate 9 zeroHeader,
     r_canonicalHeaders := replicate 9 zeroHeader\<rparr>"

lemma example_selects: "map_option snd (selectCanonicalSuffix example_joined) = Some (Some (0, 1, 2))"
  by code_simp

lemma example_selection: "\<exists>r'. selectCanonicalSuffix example_joined = Some (r', Some (0, 1, 2))"
  using example_selects by auto

lemma example_heads: "heads_ok example_joined"
  by code_simp

lemma example_joins: "joins_ok example_joined"
  by code_simp

lemma example_reports:
  "joinHeaderAt example_joined 0 1 = (example_join_header 1, True)"
  "joinHeaderAt example_joined 1 1 = (example_join_header 1, True)"
  "joinHeaderAt example_joined 2 1 = (zeroHeader, False)"
  by code_simp+

lemma example_fields:
  "r_joins example_joined = [example_join, example_join, zeroJoin]" "canonicalLogView example_joined = 0"
  "QuorumsFor 3 3 = Some (r_quorums example_joined)" "Replication (r_quorums example_joined) = 2"
  by (simp_all add: example_joined_def canonicalLogView_def example_join_def zeroJoin_def example_replica_def
      QuorumsFor_def)

lemma example_acknowledged: "acknowledged example_joined {0, 1} 1 zeroID" "logged example_joined 1 zeroID"
proof -
  have "HeaderChecksum (example_join_header 1) = zeroID"
    by (simp add: example_join_header_def zeroHeader_def zeroID_def)
  then show "acknowledged example_joined {0, 1} 1 zeroID" "logged example_joined 1 zeroID"
    using example_reports by (auto simp: acknowledged_def logged_def example_fields example_join_def zeroJoin_def
        less_Suc_eq numeral_eq_Suc)
qed

section \<open>Properties\<close>

text \<open>
  C11: The suffix a resolved selection returns runs without gaps from the head down to the
  committed bound: its headers carry consecutive operation numbers, each names the next one as its
  parent, and each is a header that some replica reported at that operation. Recording a join
  keeps the records this rests on.
\<close>

theorem selection_is_chain:
  assumes "joins_ok r0" "recordJoinView r0 header body = Some r \<or> r = r0"
    and "heads_ok r" "selectCanonicalSuffix r = Some (r', Some (commit, head, count))"
  shows "joins_ok r \<and> commit = committedBound r \<and> commit \<le> head \<and> unat head + 1 = unat commit + count
    \<and> count \<le> length (r_canonicalHeaders r')
    \<and> (\<forall>i<count. prepareOp (r_canonicalHeaders r' ! i) = head - of_nat i
         \<and> (\<exists>s<length (r_joins r). joinHeaderAt r s (head - of_nat i) = (r_canonicalHeaders r' ! i, True))
         \<and> (i + 1 < count \<longrightarrow>
              prepareParent (r_canonicalHeaders r' ! i) = HeaderChecksum (r_canonicalHeaders r' ! (i + 1))))"
proof -
  have ok: "joins_ok r" using assms(1,2) recordJoinView_ok by blast
  from selection_result [OF assms(4,3)] obtain mh hs where
    res: "commit = committedBound r" "commit \<le> head" "unat head + 1 = unat commit + count"
      "count \<le> length hs" "r' = r\<lparr>r_canonicalHeaders := reverse_loop hs 0 (count - 1)\<rparr>"
      "suffix_of r commit 0 zeroHeader hs count" by metis
  have "prepareOp (r_canonicalHeaders r' ! i) = head - of_nat i
      \<and> (\<exists>s<length (r_joins r). joinHeaderAt r s (head - of_nat i) = (r_canonicalHeaders r' ! i, True))
      \<and> (i + 1 < count \<longrightarrow>
           prepareParent (r_canonicalHeaders r' ! i) = HeaderChecksum (r_canonicalHeaders r' ! (i + 1)))"
    if i: "i < count" for i
  proof -
    define k where "k = count - 1 - i"
    have k: "count = k + i + 1" "k < count" using i by (auto simp: k_def)
    have nth: "r_canonicalHeaders r' ! i = hs ! k" using selection_nth [OF refl res(4) i] res(5) k_def by simp
    have "(of_nat (unat head + 1) :: u64) = of_nat (unat commit + count)" using res(3) by simp
    then have "head + 1 = commit + (of_nat k + of_nat i + 1)" by (simp add: k(1) algebra_simps)
    then have op: "commit + of_nat k = head - of_nat i" by (simp add: algebra_simps)
    obtain s where s: "s < length (r_joins r)" "joinHeaderAt r s (head - of_nat i) = (hs ! k, True)"
      using keeps_source [OF suffix_ofD(1) [OF res(6) k(2)]] op by auto
    moreover have "prepareParent (hs ! k) = HeaderChecksum (r_canonicalHeaders r' ! (i + 1))" if "i + 1 < count"
    proof -
      have "r_canonicalHeaders r' ! (i + 1) = hs ! (k - 1)"
        using selection_nth [OF refl res(4) that] res(5) by (simp add: k_def)
      moreover have "k \<noteq> 0" using that by (simp add: k_def)
      ultimately show ?thesis using suffix_ofD(2) [OF res(6) k(2)] by simp
    qed
    ultimately show ?thesis using joinHeaderAt_op [OF ok s] nth by auto
  qed
  with ok res show ?thesis by simp
qed

theorem selection_is_chain_witness:
  "\<exists>r'. selectCanonicalSuffix example_joined = Some (r', Some (0, 1, 2))
     \<and> prepareOp (r_canonicalHeaders r' ! 0) = 1 \<and> prepareOp (r_canonicalHeaders r' ! 1) = 0"
proof -
  obtain r' where sel: "selectCanonicalSuffix example_joined = Some (r', Some (0, 1, 2))"
    using example_selection by blast
  from selection_is_chain [OF example_joins disjI2 [OF refl] example_heads sel]
  have op: "\<forall>i<2. prepareOp (r_canonicalHeaders r' ! i) = 1 - of_nat i" by blast
  show ?thesis using sel op [rule_format, of 0] op [rule_format, of 1] by auto
qed

text \<open>
  C1: Operations that a replication quorum acknowledged survive the change of the view. If every
  operation above the committed bound up to \<open>op\<close> was acknowledged by a replication quorum whose
  members report it when they join, and stands in the latest log among the joins, then a resolved
  selection truncates none of them: its head reaches \<open>op\<close>, and the header it selects there is the
  acknowledged one.
\<close>

theorem committed_operations_survive:
  assumes "QuorumsFor (of_nat (length (r_joins r))) m = Some (r_quorums r)" "length (r_joins r) \<le> 6"
    and "heads_ok r" "selectCanonicalSuffix r = Some (r', Some (commit, head, count))"
    and "\<forall>x. commit < x \<and> x \<le> op \<longrightarrow> (\<exists>A c. acknowledged r A x c \<and> logged r x c)"
    and "commit < op" "logged r op checksum"
  shows "op \<le> head \<and> HeaderChecksum (r_canonicalHeaders r' ! unat (head - op)) = checksum"
proof -
  from selection_result [OF assms(4,3)] obtain mh hs where
    res: "commit = committedBound r" "unat head + 1 = unat commit + count"
      "count \<le> length hs" "r' = r\<lparr>r_canonicalHeaders := reverse_loop hs 0 (count - 1)\<rparr>"
      "suffix_of r commit 0 zeroHeader hs count" "suffix_end r commit mh head"
    and heads: "\<And>s. s < length (r_joins r) \<Longrightarrow> j_valid (r_joins r ! s) \<Longrightarrow> j_head (r_joins r ! s) \<le> mh" by metis
  have keep: "\<not> truncates r x" if "commit < x" "x \<le> op" for x
    using acknowledged_not_truncated [OF assms(1,2)] assms(5) that res(1) by blast
  obtain s where s: "s < length (r_joins r)" "snd (joinHeaderAt r s op)"
    using assms(7) by (auto simp: logged_def)
  then have "j_valid (r_joins r ! s)" "op \<le> j_head (r_joins r ! s)"
    by (auto simp: joinHeaderAt_def Let_def not_less split: if_splits)
  with heads s have mh: "op \<le> mh" by (meson order_trans)
  have le: "op \<le> head"
  proof (rule ccontr)
    assume "\<not> op \<le> head"
    then have "head < op" by simp
    with mh res(6) have cut: "commit < head + 1" "truncates r (head + 1)" by (auto simp: suffix_end_def)
    have "head + 1 \<le> op" using \<open>head < op\<close> by (rule inc_le)
    with keep cut show False by blast
  qed
  let ?k = "unat op - unat commit"
  have k: "?k < count" "unat (head - op) = count - 1 - ?k" "unat (head - op) < count" "commit + of_nat ?k = op"
    using res(2) le assms(6) unat_sub_noof [OF le]
    by (auto simp: word_le_nat_alt word_less_nat_alt)
  have "r_canonicalHeaders r' ! unat (head - op) = hs ! ?k"
    using selection_nth [OF refl res(3) k(3)] res(4) k(1,2) by simp
  moreover have "keeps r op (hs ! ?k)" using suffix_ofD(1) [OF res(5) k(1)] k(4) by simp
  then obtain t where "t < length (r_joins r)" "joinHeaderAt r t op = (hs ! ?k, True)"
    "j_logView (r_joins r ! t) = canonicalLogView r"
    using keeps_source [of r op "hs ! ?k"] assms(6) res(1) by auto
  ultimately show ?thesis using assms(7) le by (auto simp: logged_def)
qed

theorem committed_operations_survive_witness:
  "\<exists>r'. selectCanonicalSuffix example_joined = Some (r', Some (0, 1, 2))
     \<and> HeaderChecksum (r_canonicalHeaders r' ! 0) = zeroID"
proof -
  obtain r' where sel: "selectCanonicalSuffix example_joined = Some (r', Some (0, 1, 2))"
    using example_selection by blast
  have len: "length (r_joins example_joined) = 3" by (simp add: example_fields)
  then have q: "QuorumsFor (of_nat (length (r_joins example_joined))) 3 = Some (r_quorums example_joined)"
    using example_fields(3) by simp
  have "x = 1" if "0 < x" "x \<le> 1" for x :: u64
    using that by (simp add: word_less_nat_alt word_le_nat_alt word_unat_eq_iff)
  then have "\<forall>x. 0 < x \<and> x \<le> 1 \<longrightarrow> (\<exists>A c. acknowledged example_joined A x c \<and> logged example_joined x c)"
    using example_acknowledged by blast
  from committed_operations_survive [OF q _ example_heads sel this _ example_acknowledged(2)] len sel
  show ?thesis by auto
qed

end
